(* ===== verification/SS_Prelude.thy ===== *)
theory SS_Prelude
  imports Main "HOL-Library.Word"
begin

unbundle bit_operations_syntax

text \<open>
  Shared vocabulary of the development: the machine integer types of the C code,
  byte strings, little-endian encoding, and the generic facts on lists and words
  that the component theories use.  The collections \<open>bytes_simps\<close> (lengths and
  shapes of serialised data) and \<open>word_nat\<close> (reading bounded word arithmetic as
  natural number arithmetic) are filled by the component theories as they go.
\<close>

type_synonym u8 = "8 word"
type_synonym u16 = "16 word"
type_synonym u32 = "32 word"
type_synonym u64 = "64 word"
type_synonym i32 = "32 word"
type_synonym bytes = "u8 list"

named_theorems bytes_simps
named_theorems word_nat

section \<open>Little-endian byte strings\<close>

text \<open>The C idiom \<^verbatim>\<open>(unsigned char)((v >> (i * 8)) & 0xff)\<close> for \<^verbatim>\<open>i = 0 .. n - 1\<close>.\<close>

definition le_bytes :: "nat \<Rightarrow> 'a::len word \<Rightarrow> bytes" where
  "le_bytes n v = map (\<lambda>i. ucast (drop_bit (8 * i) v AND 255)) [0..<n]"

text \<open>The number a little-endian byte string stands for.\<close>

fun le_value :: "bytes \<Rightarrow> nat" where
  "le_value [] = 0"
| "le_value (b # bs) = unat b + 256 * le_value bs"

lemma length_le_bytes [simp, bytes_simps]: "length (le_bytes n v) = n"
  by (simp add: le_bytes_def)

lemma unat_u8_less [simp]: "unat (b :: u8) < 256"
  using unsigned_less[of b, where ?'a=nat] by simp

lemma le_value_less: "le_value bs < 256 ^ length bs"
proof (induction bs)
  case Nil
  show ?case by simp
next
  case (Cons b bs)
  have "unat b < 256" by (rule unat_u8_less)
  with Cons.IH show ?case
    by (simp only: le_value.simps list.size power_Suc add_Suc_right add_0_right power_Suc)
qed

lemma le_value_append:
  "le_value (xs @ ys) = le_value xs + 256 ^ length xs * le_value ys"
  by (induction xs) (simp_all add: algebra_simps)

lemma le_value_inj:
  "length xs = length ys \<Longrightarrow> le_value xs = le_value ys \<Longrightarrow> xs = ys"
proof (induction xs ys rule: list_induct2)
  case Nil
  show ?case by simp
next
  case (Cons x xs y ys)
  have bx: "unat x < 256" and b_y: "unat y < 256"
    by (rule unat_u8_less)+
  from Cons.prems have eq: "unat x + 256 * le_value xs = unat y + 256 * le_value ys"
    by simp
  from arg_cong[OF eq, of "\<lambda>n. n mod 256"] bx b_y have "unat x = unat y"
    by simp
  with eq Cons.IH show ?case by (simp add: word_unat_eq_iff)
qed

lemma le_byte_value:
  "unat (ucast (drop_bit n v AND 255 :: 'a::len word) :: u8) = unat v div 2 ^ n mod 256"
proof -
  have m: "(255 :: 'a word) = mask 8" by (simp add: mask_eq_exp_minus_1)
  have "unat (ucast (drop_bit n v AND 255 :: 'a word) :: u8) = take_bit 8 (unat (take_bit 8 (drop_bit n v)))"
    by (simp add: m and.commute[of _ "mask 8"] take_bit_eq_mask[symmetric] unsigned_ucast_eq)
  also have "\<dots> = take_bit 8 (unat (drop_bit n v))"
    by (simp add: unsigned_take_bit_eq)
  also have "\<dots> = take_bit 8 (drop_bit n (unat v))"
    by (simp add: unsigned_drop_bit_eq take_bit_nat_eq_self)
  also have "\<dots> = unat v div 2 ^ n mod 256"
    by (simp add: drop_bit_eq_div take_bit_eq_mod)
  finally show ?thesis .
qed

lemma le_value_le_bytes: "le_value (le_bytes n v) = unat v mod 256 ^ n"
proof (induction n)
  case 0
  show ?case by (simp add: le_bytes_def)
next
  case (Suc n)
  have "le_bytes (Suc n) v = le_bytes n v @ [ucast (drop_bit (8 * n) v AND 255)]"
    by (simp add: le_bytes_def)
  then have "le_value (le_bytes (Suc n) v) = unat v mod 256 ^ n + 256 ^ n * (unat v div 2 ^ (8 * n) mod 256)"
    by (simp add: le_value_append Suc.IH le_byte_value)
  also have "(2::nat) ^ (8 * n) = 256 ^ n" by (simp add: power_mult)
  also have "unat v mod 256 ^ n + 256 ^ n * (unat v div 256 ^ n mod 256) = unat v mod 256 ^ Suc n"
    by (simp only: power_Suc2 mod_mult2_eq add.commute)
  finally show ?case .
qed

lemma of_nat_le_value_le_bytes [simp]:
  "LENGTH('a) \<le> 8 * n \<Longrightarrow> of_nat (le_value (le_bytes n v)) = (v :: 'a::len word)"
proof -
  assume n: "LENGTH('a) \<le> 8 * n"
  have "unat v < 2 ^ LENGTH('a)" by simp
  also have "\<dots> \<le> 2 ^ (8 * n)" using n by (simp add: power_increasing)
  also have "\<dots> = (256 :: nat) ^ n" by (simp add: power_mult)
  finally show ?thesis by (simp add: le_value_le_bytes)
qed

section \<open>Word arithmetic that does not wrap\<close>

lemma unat_plus_nowrap [word_nat]:
  "unat x + unat y < 2 ^ LENGTH('a) \<Longrightarrow> unat (x + y) = unat x + unat (y :: 'a::len word)"
  by (simp add: unat_add_lem[THEN iffD1])

lemma unat_mult_nowrap [word_nat]:
  "unat x * unat y < 2 ^ LENGTH('a) \<Longrightarrow> unat (x * y) = unat x * unat (y :: 'a::len word)"
  by (simp add: unat_mult_lem[THEN iffD1])

lemma unat_minus_nowrap [word_nat]:
  "y \<le> x \<Longrightarrow> unat (x - y) = unat x - unat (y :: 'a::len word)"
  by (rule unat_sub)

lemma unat_ucast_up:
  "LENGTH('b::len) \<le> LENGTH('a::len) \<Longrightarrow> unat (ucast (x :: 'b word) :: 'a word) = unat x"
proof -
  assume le: "LENGTH('b) \<le> LENGTH('a)"
  have "unat x < 2 ^ LENGTH('b)" by simp
  also have "\<dots> \<le> 2 ^ LENGTH('a)" using le by simp
  finally show ?thesis by (simp add: unsigned_ucast_eq take_bit_nat_eq_self)
qed

lemma unat_ucast_small:
  "unat (x :: 'b::len word) < 2 ^ LENGTH('a::len) \<Longrightarrow> unat (ucast x :: 'a word) = unat x"
  by (simp add: unsigned_ucast_eq take_bit_nat_eq_self)

lemma unat_inc_below:
  assumes "x < (k :: 'a::len word)"
  shows "unat (x + 1) = unat x + 1"
proof -
  have "unat x < unat k" using assms by (simp add: word_less_nat_alt)
  moreover have "unat k < 2 ^ LENGTH('a)" by simp
  ultimately have b: "unat x + 1 < 2 ^ LENGTH('a)" by linarith
  show ?thesis
  proof (cases "LENGTH('a) = 1 \<and> unat x \<noteq> 0")
    case True
    with b show ?thesis by simp
  next
    case False
    with b show ?thesis by (simp add: unat_word_ariths unat_of_nat)
  qed
qed


section \<open>Runs of operations\<close>

text \<open>The contract of a component whose state is changed by a sequence of operations: every
  operation keeps the invariant and uses up at most one unit of a budget (a counter that
  must not wrap, slots of a table).  A component that needs no budget ignores it.\<close>

locale budget_invariant =
  fixes step :: "'op \<Rightarrow> 's \<Rightarrow> 's" and inv :: "nat \<Rightarrow> 's \<Rightarrow> bool"
  assumes step_inv: "inv (Suc n) s \<Longrightarrow> inv n (step op s)"
begin

lemma run_inv: "inv (length ops + n) s \<Longrightarrow> inv n (fold step ops s)"
  by (induction ops arbitrary: s) (auto intro: step_inv)

end

end
