(* ===== verification/DW_State.thy ===== *)
theory DW_State
  imports SS_Prelude
begin

text \<open>
  The Decker-Wattenhofer state machine of \<^verbatim>\<open>src/dw_state.c\<close>: one layer is a counter whose
  states get ever shorter relative delays, and a multi-layer counter ticks like an
  odometer, the innermost layer fastest.  Integers keep their C widths, so the
  truncation of a delay to 16 bits and the wrap-around of \<^verbatim>\<open>total_states\<close> are part of
  the model.  The array \<^verbatim>\<open>layers[DW_MAX_LAYERS]\<close> is the list of its first \<^verbatim>\<open>n_layers\<close>
  entries, the only ones the code reads.
\<close>

section \<open>Model\<close>

record dw_layer_config =
  step_blocks :: u16
  max_states :: u32

record dw_layer =
  layer_config :: dw_layer_config
  current_state :: u32

definition DW_MAX_LAYERS :: nat where
  "DW_MAX_LAYERS = 8"

definition dw_layer_init :: "u16 \<Rightarrow> u32 \<Rightarrow> dw_layer" where
  "dw_layer_init step k =
     \<lparr>layer_config = \<lparr>step_blocks = step, max_states = k\<rparr>, current_state = 0\<rparr>"

text \<open>
  The 16-bit step is converted to the 32-bit type of the other factor, the product is
  taken modulo \<open>2\<^sup>3\<^sup>2\<close>, and the return type truncates it to 16 bits.
\<close>

definition dw_delay_for_state :: "dw_layer_config \<Rightarrow> u32 \<Rightarrow> u16" where
  "dw_delay_for_state cfg i = ucast (ucast (step_blocks cfg) * (max_states cfg - 1 - i))"

definition dw_nsequence_for_state :: "dw_layer_config \<Rightarrow> u32 \<Rightarrow> u32" where
  "dw_nsequence_for_state cfg i = ucast (dw_delay_for_state cfg i)"

definition dw_advance :: "dw_layer \<Rightarrow> bool \<times> dw_layer" where
  "dw_advance l =
     (if current_state l \<ge> max_states (layer_config l) - 1 then (False, l)
      else (True, l\<lparr>current_state := current_state l + 1\<rparr>))"

definition dw_is_exhausted :: "dw_layer \<Rightarrow> bool" where
  "dw_is_exhausted l \<longleftrightarrow> current_state l \<ge> max_states (layer_config l) - 1"

definition dw_current_nsequence :: "dw_layer \<Rightarrow> u32" where
  "dw_current_nsequence l = dw_nsequence_for_state (layer_config l) (current_state l)"

record dw_counter =
  layers :: "dw_layer list"
  n_layers :: nat
  total_states :: u32
  current_epoch :: u32

fun mult_times :: "nat \<Rightarrow> u32 \<Rightarrow> u32 \<Rightarrow> u32" where
  "mult_times 0 k acc = acc"
| "mult_times (Suc n) k acc = mult_times n k (acc * k)"

text \<open>The array of layers has \<^verbatim>\<open>DW_MAX_LAYERS\<close> (8) slots and the function does not compare.  The factory passes no
  more, by the cap of \<^verbatim>\<open>dw_n_layers_for\<close> or the size of its trees; for more layers the code writes outside the array, which
  the model does not show.\<close>

definition dw_counter_init :: "nat \<Rightarrow> u16 \<Rightarrow> u32 \<Rightarrow> dw_counter" where
  "dw_counter_init n step k =
     \<lparr>layers = map (\<lambda>i. dw_layer_init step k) [0..<n], n_layers = n,
      total_states = mult_times n k 1, current_epoch = 0\<rparr>"

text \<open>The loop \<^verbatim>\<open>for (j = i + 1; j < n_layers; j++) layers[j].current_state = 0\<close>.\<close>

definition reset_from :: "nat \<Rightarrow> dw_layer list \<Rightarrow> dw_layer list" where
  "reset_from i ls = take i ls @ map (\<lambda>l. l\<lparr>current_state := 0\<rparr>) (drop i ls)"

text \<open>
  The carry loop, from layer \<open>i - 1\<close> down to layer 0: the first layer that can advance
  does, and every layer inside it starts again from state 0.
\<close>

fun dw_carry :: "nat \<Rightarrow> dw_layer list \<Rightarrow> dw_layer list option" where
  "dw_carry 0 ls = None"
| "dw_carry (Suc i) ls =
     (case dw_advance (ls ! i) of
        (True, l') \<Rightarrow> Some (reset_from (Suc i) (ls[i := l']))
      | (False, _) \<Rightarrow> dw_carry i ls)"

definition dw_counter_advance :: "dw_counter \<Rightarrow> bool \<times> dw_counter" where
  "dw_counter_advance c =
     (if current_epoch c \<ge> total_states c - 1 then (False, c)
      else case dw_carry (n_layers c) (layers c) of
             Some ls \<Rightarrow> (True, c\<lparr>layers := ls, current_epoch := current_epoch c + 1\<rparr>)
           | None \<Rightarrow> (False, c))"

definition dw_counter_is_exhausted :: "dw_counter \<Rightarrow> bool" where
  "dw_counter_is_exhausted c \<longleftrightarrow> current_epoch c \<ge> total_states c - 1"

definition dw_counter_epoch :: "dw_counter \<Rightarrow> u32" where
  "dw_counter_epoch c = current_epoch c"

section \<open>The counter interface\<close>

text \<open>
  What the rest of the program relies on: a counter with a numeric reading below a
  limit, whose advance adds one and reports failure, unchanged, exactly at the limit.
\<close>

locale bounded_counter =
  fixes adv :: "'s \<Rightarrow> bool \<times> 's"
    and reading :: "'s \<Rightarrow> nat"
    and limit :: nat
    and inv :: "'s \<Rightarrow> bool"
  assumes reading_less: "inv s \<Longrightarrow> reading s < limit"
    and adv_inv: "inv s \<Longrightarrow> inv (snd (adv s))"
    and adv_ok: "inv s \<Longrightarrow> fst (adv s) \<longleftrightarrow> reading s + 1 < limit"
    and adv_reading: "inv s \<Longrightarrow> fst (adv s) \<Longrightarrow> reading (snd (adv s)) = reading s + 1"
    and adv_stuck: "inv s \<Longrightarrow> \<not> fst (adv s) \<Longrightarrow> snd (adv s) = s"
begin

lemma iterate_inv: "inv s \<Longrightarrow> inv (((\<lambda>s. snd (adv s)) ^^ n) s)"
  by (induction n) (simp_all add: adv_inv)

lemma iterate_reading:
  "inv s \<Longrightarrow> reading (((\<lambda>s. snd (adv s)) ^^ n) s) = min (reading s + n) (limit - 1)"
proof (induction n)
  case 0
  then show ?case using reading_less[of s] by simp
next
  case (Suc n)
  let ?t = "((\<lambda>s. snd (adv s)) ^^ n) s"
  have i: "inv ?t" using Suc.prems by (rule iterate_inv)
  show ?case
  proof (cases "fst (adv ?t)")
    case True
    with i Suc show ?thesis using adv_ok[OF i] adv_reading[OF i] by simp
  next
    case False
    with i Suc show ?thesis using adv_ok[OF i] adv_stuck[OF i] reading_less[OF i] by simp
  qed
qed

lemma exhausted_iff: "inv s \<Longrightarrow> \<not> fst (adv s) \<longleftrightarrow> reading s = limit - 1"
  using adv_ok reading_less by fastforce

end

section \<open>One layer\<close>

definition layer_inv :: "u16 \<Rightarrow> u32 \<Rightarrow> dw_layer \<Rightarrow> bool" where
  "layer_inv step k l \<longleftrightarrow>
     layer_config l = \<lparr>step_blocks = step, max_states = k\<rparr> \<and> current_state l < k"

lemma unat_pred: "0 < (k::u32) \<Longrightarrow> unat (k - 1) = unat k - 1"
  by (simp add: unat_minus_one word_gt_0)

lemma word_ge_pred_iff: "0 < (k::u32) \<Longrightarrow> x \<ge> k - 1 \<longleftrightarrow> unat x + 1 \<ge> unat k"
  by (simp add: word_le_nat_alt unat_pred) linarith

lemma layer_inv_pos: "layer_inv step k l \<Longrightarrow> 0 < k"
  unfolding layer_inv_def by (metis word_gt_0 word_not_simps(1))

lemma layer_inv_less: "layer_inv step k l \<Longrightarrow> unat (current_state l) < unat k"
  by (simp add: layer_inv_def word_less_nat_alt)

lemma dw_advance_ok_iff:
  "layer_inv step k l \<Longrightarrow> fst (dw_advance l) \<longleftrightarrow> unat (current_state l) + 1 < unat k"
  using layer_inv_pos[of step k l]
  by (auto simp: dw_advance_def layer_inv_def word_ge_pred_iff)

lemma dw_advance_state:
  "layer_inv step k l \<Longrightarrow> fst (dw_advance l) \<Longrightarrow>
   snd (dw_advance l) = l\<lparr>current_state := current_state l + 1\<rparr> \<and>
   unat (current_state l + 1) = unat (current_state l) + 1"
  by (auto simp: dw_advance_def layer_inv_def unat_inc_below split: if_splits)

lemma dw_advance_inv: "layer_inv step k l \<Longrightarrow> layer_inv step k (snd (dw_advance l))"
proof (cases "fst (dw_advance l)")
  case True
  assume i: "layer_inv step k l"
  from dw_advance_state[OF i True] dw_advance_ok_iff[OF i] True i show ?thesis
    by (auto simp: layer_inv_def word_less_nat_alt)
next
  case False
  assume "layer_inv step k l"
  with False show ?thesis by (auto simp: dw_advance_def split: if_splits)
qed

lemma dw_advance_stuck: "\<not> fst (dw_advance l) \<Longrightarrow> snd (dw_advance l) = l"
  by (auto simp: dw_advance_def split: if_splits)

interpretation layer_counter: bounded_counter dw_advance "\<lambda>l. unat (current_state l)" "unat k" "layer_inv step k"
  for step k
  by unfold_locales
    (simp_all add: dw_advance_ok_iff dw_advance_inv dw_advance_stuck dw_advance_state layer_inv_less)

lemma layer_inv_init: "0 < k \<Longrightarrow> layer_inv step k (dw_layer_init step k)"
  by (simp add: layer_inv_def dw_layer_init_def)

text \<open>The delay of a state, when the configured delays fit the 16 bits of BIP-68.\<close>

lemma unat_dw_delay:
  assumes fit: "unat (step_blocks cfg) * (unat (max_states cfg) - 1) < 65536"
    and i: "i < max_states cfg"
  shows "unat (dw_delay_for_state cfg i) = unat (step_blocks cfg) * (unat (max_states cfg) - 1 - unat i)"
proof -
  let ?k = "max_states cfg"
  have pos: "0 < ?k" using i by (metis word_gt_0 word_not_simps(1))
  have "i \<le> ?k - 1" using i pos by (simp add: word_le_nat_alt word_less_nat_alt unat_pred)
  then have d: "unat (?k - 1 - i) = unat ?k - 1 - unat i"
    using pos by (simp add: unat_minus_nowrap unat_pred)
  have m: "unat (step_blocks cfg) * (unat ?k - 1 - unat i) < 65536"
    using fit by (meson diff_le_self le_less_trans mult_le_mono2)
  have s: "unat (ucast (step_blocks cfg) :: u32) = unat (step_blocks cfg)"
    by (simp add: unsigned_ucast_eq take_bit_nat_eq_self order.strict_trans2[OF unsigned_less])
  have "unat (ucast (step_blocks cfg) * (?k - 1 - i)) = unat (step_blocks cfg) * (unat ?k - 1 - unat i)"
    using m by (simp add: unat_mult_nowrap s d)
  with m show ?thesis
    by (simp add: dw_delay_for_state_def unsigned_ucast_eq take_bit_nat_eq_self)
qed

section \<open>The odometer\<close>

text \<open>The number the layers spell in base \<open>K\<close>, outermost layer first.\<close>

fun layers_value :: "nat \<Rightarrow> dw_layer list \<Rightarrow> nat" where
  "layers_value K [] = 0"
| "layers_value K (l # ls) = unat (current_state l) * K ^ length ls + layers_value K ls"

lemma layers_value_append:
  "layers_value K (xs @ ys) = layers_value K xs * K ^ length ys + layers_value K ys"
  by (induction xs) (simp_all add: algebra_simps power_add)

lemma layers_value_less:
  "list_all (layer_inv step k) ls \<Longrightarrow> layers_value (unat k) ls < unat k ^ length ls"
proof (induction ls)
  case Nil
  show ?case by simp
next
  case (Cons l ls)
  from Cons.prems have "unat (current_state l) + 1 \<le> unat k" using layer_inv_less[of step k l] by simp
  then have "(unat (current_state l) + 1) * unat k ^ length ls \<le> unat k * unat k ^ length ls"
    by (rule mult_le_mono1)
  with Cons show ?case by (simp add: algebra_simps)
qed

lemma layers_value_top:
  "0 < K \<Longrightarrow> list_all (\<lambda>l. unat (current_state l) = K - 1) ls \<Longrightarrow> layers_value K ls + 1 = K ^ length ls"
proof (induction ls)
  case Nil
  then show ?case by simp
next
  case (Cons l ls)
  then have "layers_value K (l # ls) + 1 = (K - 1) * K ^ length ls + K ^ length ls" by simp
  also have "\<dots> = ((K - 1) + 1) * K ^ length ls" by (simp only: distrib_right mult_1)
  also have "\<dots> = K ^ length (l # ls)" using Cons.prems(1) by simp
  finally show ?case .
qed

lemma layers_value_reset: "layers_value K (map (\<lambda>l. l\<lparr>current_state := 0\<rparr>) ls) = 0"
  by (induction ls) simp_all

lemma reset_inv:
  "0 < k \<Longrightarrow> list_all (layer_inv step k) ls \<Longrightarrow>
   list_all (layer_inv step k) (map (\<lambda>l. l\<lparr>current_state := 0\<rparr>) ls)"
  by (auto simp: list_all_iff layer_inv_def)

text \<open>
  What a carry does to the layers: some layer advances by one, the layers outside it are
  untouched and the layers inside it restart.
\<close>

definition ticked :: "dw_layer list \<Rightarrow> dw_layer list \<Rightarrow> nat \<Rightarrow> bool" where
  "ticked ls ls' i \<longleftrightarrow> i < length ls \<and> fst (dw_advance (ls ! i)) \<and>
     (\<forall>j. i < j \<and> j < length ls \<longrightarrow> \<not> fst (dw_advance (ls ! j))) \<and>
     ls' = take i ls @ snd (dw_advance (ls ! i)) # map (\<lambda>l. l\<lparr>current_state := 0\<rparr>) (drop (Suc i) ls)"

lemma dw_carry_Suc:
  "dw_carry (Suc i) ls =
     (if fst (dw_advance (ls ! i)) then Some (reset_from (Suc i) (ls[i := snd (dw_advance (ls ! i))]))
      else dw_carry i ls)"
  by (auto split: prod.splits bool.splits)

lemma dw_carry_Some:
  assumes "dw_carry n ls = Some ls'" and "n \<le> length ls"
    and "\<forall>j. n \<le> j \<and> j < length ls \<longrightarrow> \<not> fst (dw_advance (ls ! j))"
  shows "\<exists>i. ticked ls ls' i"
  using assms
proof (induction n)
  case 0
  then show ?case by simp
next
  case (Suc n)
  show ?case
  proof (cases "fst (dw_advance (ls ! n))")
    case True
    then have "dw_carry (Suc n) ls = Some (reset_from (Suc n) (ls[n := snd (dw_advance (ls ! n))]))"
      by (simp only: dw_carry_Suc if_True)
    with Suc.prems(1) have "ls' = reset_from (Suc n) (ls[n := snd (dw_advance (ls ! n))])" by simp
    also have "\<dots> = take n ls @ snd (dw_advance (ls ! n)) # map (\<lambda>l. l\<lparr>current_state := 0\<rparr>) (drop (Suc n) ls)"
      using Suc.prems(2) by (simp add: reset_from_def take_Suc_conv_app_nth)
    finally have "ticked ls ls' n" using True Suc.prems(2,3) by (simp add: ticked_def Suc_le_eq)
    then show ?thesis ..
  next
    case False
    then have "dw_carry (Suc n) ls = dw_carry n ls"
      by (simp only: dw_carry_Suc if_False)
    with Suc False show ?thesis
      by (metis Suc_leD le_eq_less_or_eq less_eq_Suc_le)
  qed
qed

lemma dw_carry_None:
  "dw_carry n ls = None \<longleftrightarrow> (\<forall>j<n. \<not> fst (dw_advance (ls ! j)))"
proof (induction n)
  case (Suc n)
  then show ?case by (auto simp only: dw_carry_Suc less_Suc_eq split: if_splits)
qed simp

lemma ticked_split:
  assumes "ticked ls ls' i" and "list_all (layer_inv step k) ls"
  obtains l where "ls = take i ls @ l # drop (Suc i) ls"
    and "layer_inv step k l" and "fst (dw_advance l)"
    and "list_all (\<lambda>l. unat (current_state l) = unat k - 1) (drop (Suc i) ls)"
    and "ls' = take i ls @ snd (dw_advance l) # map (\<lambda>l. l\<lparr>current_state := 0\<rparr>) (drop (Suc i) ls)"
proof
  show "ls = take i ls @ ls ! i # drop (Suc i) ls"
    using assms(1) by (simp add: ticked_def id_take_nth_drop[symmetric])
  show "layer_inv step k (ls ! i)"
    using assms by (auto simp: ticked_def list_all_length)
  show "list_all (\<lambda>l. unat (current_state l) = unat k - 1) (drop (Suc i) ls)"
    unfolding list_all_length
  proof (intro allI impI)
    fix n assume n: "n < length (drop (Suc i) ls)"
    then have "\<not> fst (dw_advance (ls ! (Suc i + n)))" and "layer_inv step k (ls ! (Suc i + n))"
      using assms by (auto simp: ticked_def list_all_length)
    then have "unat (current_state (ls ! (Suc i + n))) = unat k - 1"
      using layer_counter.exhausted_iff by blast
    with n show "unat (current_state (drop (Suc i) ls ! n)) = unat k - 1" by simp
  qed
qed (use assms in \<open>auto simp: ticked_def\<close>)

lemma ticked_inv:
  assumes "ticked ls ls' i" and a: "list_all (layer_inv step k) ls"
  shows "list_all (layer_inv step k) ls' \<and> length ls' = length ls"
proof -
  from ticked_split[OF assms] obtain l where
    ls: "ls = take i ls @ l # drop (Suc i) ls" and l: "layer_inv step k l"
    and ls': "ls' = take i ls @ snd (dw_advance l) # map (\<lambda>l. l\<lparr>current_state := 0\<rparr>) (drop (Suc i) ls)"
    by blast
  have "list_all (layer_inv step k) (take i ls)" "list_all (layer_inv step k) (drop (Suc i) ls)"
    using a by (auto simp: list_all_iff dest: in_set_takeD in_set_dropD)
  then have "list_all (layer_inv step k) ls'"
    unfolding ls' using l by (simp add: dw_advance_inv reset_inv layer_inv_pos[OF l])
  moreover have "length ls' = length ls"
    unfolding ls' by (subst (3) ls) simp
  ultimately show ?thesis by blast
qed

lemma ticked_value:
  assumes "ticked ls ls' i" and "list_all (layer_inv step k) ls"
  shows "layers_value (unat k) ls' = layers_value (unat k) ls + 1"
proof -
  from ticked_split[OF assms] obtain l where
    ls: "ls = take i ls @ l # drop (Suc i) ls" and l: "layer_inv step k l" "fst (dw_advance l)"
    and top: "list_all (\<lambda>l. unat (current_state l) = unat k - 1) (drop (Suc i) ls)"
    and ls': "ls' = take i ls @ snd (dw_advance l) # map (\<lambda>l. l\<lparr>current_state := 0\<rparr>) (drop (Suc i) ls)"
    by blast
  let ?n = "length (drop (Suc i) ls)" and ?K = "unat k"
  have K: "0 < ?K" using layer_inv_pos[OF l(1)] by (simp add: word_less_nat_alt)
  have "layers_value ?K ls' = layers_value ?K (take i ls) * ?K ^ Suc ?n + (unat (current_state l) + 1) * ?K ^ ?n"
    using dw_advance_state[OF l] by (simp add: ls' layers_value_append layers_value_reset)
  also have "\<dots> = layers_value ?K (take i ls) * ?K ^ Suc ?n + unat (current_state l) * ?K ^ ?n
      + (layers_value ?K (drop (Suc i) ls) + 1)"
    by (simp only: layers_value_top[OF K top] distrib_right mult_1 add.assoc)
  also have "\<dots> = layers_value ?K (take i ls @ l # drop (Suc i) ls) + 1"
    by (simp only: layers_value_append layers_value.simps list.size add_Suc_right add_0_right)
  finally show ?thesis using ls by simp
qed

section \<open>The multi-layer counter\<close>

text \<open>
  The counter invariant: every layer has the configured step and number of states, the
  number of states \<open>k ^ n\<close> fits 32 bits, and the epoch is the number the layers spell.
\<close>

definition counter_inv :: "nat \<Rightarrow> u16 \<Rightarrow> u32 \<Rightarrow> dw_counter \<Rightarrow> bool" where
  "counter_inv n step k c \<longleftrightarrow>
     0 < k \<and> unat k ^ n < 2 ^ 32 \<and> n_layers c = n \<and> length (layers c) = n \<and>
     list_all (layer_inv step k) (layers c) \<and>
     unat (total_states c) = unat k ^ n \<and>
     unat (current_epoch c) = layers_value (unat k) (layers c)"

lemma mult_times_power: "mult_times n k acc = acc * k ^ n"
  by (induction n arbitrary: acc) (simp_all add: algebra_simps)

lemma unat_power_nowrap: "unat (k::u32) ^ n < 2 ^ 32 \<Longrightarrow> unat (k ^ n) = unat k ^ n"
proof (induction n)
  case (Suc n)
  show ?case
  proof (cases "k = 0")
    case False
    then have k: "1 \<le> unat k" by (simp add: Suc_le_eq unat_gt_0)
    have "unat k ^ n \<le> unat k ^ Suc n" using k by simp
    with Suc.prems Suc.IH have "unat (k ^ n) = unat k ^ n" by linarith
    with Suc.prems show ?thesis by (simp add: unat_mult_nowrap)
  qed simp
qed simp

lemma layers_value_init: "layers_value K (map (\<lambda>i. dw_layer_init step k) xs) = 0"
  by (induction xs) (simp_all add: dw_layer_init_def)

lemma dw_counter_init_inv:
  "0 < k \<Longrightarrow> unat k ^ n < 2 ^ 32 \<Longrightarrow> counter_inv n step k (dw_counter_init n step k)"
  by (simp add: counter_inv_def dw_counter_init_def mult_times_power unat_power_nowrap
      layers_value_init list_all_iff layer_inv_init)

lemma counter_inv_total_pos: "counter_inv n step k c \<Longrightarrow> 0 < total_states c"
  by (auto simp: counter_inv_def word_less_nat_alt)

lemma counter_epoch_guard:
  "counter_inv n step k c \<Longrightarrow>
   current_epoch c \<ge> total_states c - 1 \<longleftrightarrow> layers_value (unat k) (layers c) + 1 \<ge> unat k ^ n"
  using counter_inv_total_pos[of n step k c]
  by (simp add: word_ge_pred_iff) (simp add: counter_inv_def)

lemma carry_below_limit:
  assumes inv: "counter_inv n step k c" and lt: "layers_value (unat k) (layers c) + 1 < unat k ^ n"
  shows "\<exists>ls' i. dw_carry n (layers c) = Some ls' \<and> ticked (layers c) ls' i"
proof (cases "dw_carry n (layers c)")
  case None
  have all: "list_all (layer_inv step k) (layers c)" and len: "length (layers c) = n" and k: "0 < unat k"
    using inv by (auto simp: counter_inv_def word_less_nat_alt)
  have "list_all (\<lambda>l. unat (current_state l) = unat k - 1) (layers c)"
    unfolding list_all_length
  proof (intro allI impI)
    fix j assume j: "j < length (layers c)"
    then have "\<not> fst (dw_advance (layers c ! j))" using None len by (simp add: dw_carry_None)
    with all j show "unat (current_state (layers c ! j)) = unat k - 1"
      using layer_counter.exhausted_iff by (metis list_all_length)
  qed
  from layers_value_top[OF k this] len lt show ?thesis by simp
next
  case (Some ls')
  then have "\<exists>i. ticked (layers c) ls' i"
    by (rule dw_carry_Some) (use inv in \<open>auto simp: counter_inv_def\<close>)
  with Some show ?thesis by blast
qed

lemma dw_counter_advance_ok:
  "counter_inv n step k c \<Longrightarrow>
   fst (dw_counter_advance c) \<longleftrightarrow> layers_value (unat k) (layers c) + 1 < unat k ^ n"
  using carry_below_limit[of n step k c] counter_epoch_guard[of n step k c]
  by (auto simp: dw_counter_advance_def counter_inv_def split: option.splits)

lemma dw_counter_advance_ticked:
  assumes inv: "counter_inv n step k c" and ok: "fst (dw_counter_advance c)"
  shows "\<exists>i ls'. ticked (layers c) ls' i \<and>
    snd (dw_counter_advance c) = c\<lparr>layers := ls', current_epoch := current_epoch c + 1\<rparr>"
proof -
  have lt: "layers_value (unat k) (layers c) + 1 < unat k ^ n"
    using dw_counter_advance_ok[OF inv] ok by simp
  from carry_below_limit[OF inv lt] obtain ls' i where
    "dw_carry n (layers c) = Some ls'" "ticked (layers c) ls' i" by blast
  moreover have "n_layers c = n" using inv by (simp add: counter_inv_def)
  ultimately show ?thesis using ok by (auto simp: dw_counter_advance_def split: if_splits)
qed

lemma dw_counter_advance_stuck: "\<not> fst (dw_counter_advance c) \<Longrightarrow> snd (dw_counter_advance c) = c"
  by (auto simp: dw_counter_advance_def split: option.splits if_splits)

lemma dw_counter_advance_inv:
  assumes inv: "counter_inv n step k c"
  shows "counter_inv n step k (snd (dw_counter_advance c))"
proof (cases "fst (dw_counter_advance c)")
  case True
  from dw_counter_advance_ticked[OF inv True] obtain i ls' where t: "ticked (layers c) ls' i"
    and c': "snd (dw_counter_advance c) = c\<lparr>layers := ls', current_epoch := current_epoch c + 1\<rparr>" by blast
  have all: "list_all (layer_inv step k) (layers c)" using inv by (simp add: counter_inv_def)
  have "unat (current_epoch c) + 1 < unat k ^ n"
    using dw_counter_advance_ok[OF inv] True inv by (simp add: counter_inv_def)
  then have "current_epoch c < total_states c" using inv by (simp add: counter_inv_def word_less_nat_alt)
  then have "unat (current_epoch c + 1) = unat (current_epoch c) + 1" by (rule unat_inc_below)
  then show ?thesis
    using inv ticked_inv[OF t all] ticked_value[OF t all] by (simp add: c' counter_inv_def)
next
  case False
  then show ?thesis using inv by (simp add: dw_counter_advance_stuck)
qed

interpretation dw_odometer: bounded_counter dw_counter_advance "\<lambda>c. unat (current_epoch c)" "unat k ^ n" "counter_inv n step k"
  for n step k
proof unfold_locales
  fix c assume inv: "counter_inv n step k c"
  show "unat (current_epoch c) < unat k ^ n"
    using inv layers_value_less[of step k "layers c"] by (simp add: counter_inv_def)
  show "counter_inv n step k (snd (dw_counter_advance c))" by (rule dw_counter_advance_inv[OF inv])
  show "fst (dw_counter_advance c) = (unat (current_epoch c) + 1 < unat k ^ n)"
    using dw_counter_advance_ok[OF inv] inv by (simp add: counter_inv_def)
  assume "fst (dw_counter_advance c)"
  from dw_counter_advance_ticked[OF inv this] obtain i ls' where t: "ticked (layers c) ls' i"
    and c': "snd (dw_counter_advance c) = c\<lparr>layers := ls', current_epoch := current_epoch c + 1\<rparr>" by blast
  have all: "list_all (layer_inv step k) (layers c)" using inv by (simp add: counter_inv_def)
  have "unat (current_epoch (snd (dw_counter_advance c))) = layers_value (unat k) ls'"
    using dw_counter_advance_inv[OF inv] by (simp add: counter_inv_def c')
  with ticked_value[OF t all] inv show "unat (current_epoch (snd (dw_counter_advance c))) = unat (current_epoch c) + 1"
    by (simp add: counter_inv_def)
qed (rule dw_counter_advance_stuck)

section \<open>Properties\<close>

lemma dw_exhausted_iff:
  assumes inv: "counter_inv n step k c"
  shows "dw_counter_is_exhausted c \<longleftrightarrow> unat (current_epoch c) = unat k ^ n - 1"
proof -
  have "dw_counter_is_exhausted c \<longleftrightarrow> unat k ^ n \<le> unat (current_epoch c) + 1"
    using counter_epoch_guard[OF inv] inv by (simp add: dw_counter_is_exhausted_def counter_inv_def)
  with dw_odometer.reading_less[OF inv] show ?thesis by linarith
qed

text \<open>C11: A fresh counter of \<open>n\<close> layers with \<open>k\<close> states each goes through exactly \<open>k ^ n\<close>
  epochs: after \<open>m\<close> calls of \<open>dw_counter_advance\<close> the epoch is \<open>m\<close> until the last epoch
  \<open>k ^ n - 1\<close>, where it stays, and the counter reports exhaustion exactly there.\<close>

theorem dw_counter_epochs:
  assumes "0 < k" and "unat k ^ n < 2 ^ 32"
  shows "unat (dw_counter_epoch (((\<lambda>c. snd (dw_counter_advance c)) ^^ m) (dw_counter_init n step k)))
           = min m (unat k ^ n - 1) \<and>
         (dw_counter_is_exhausted (((\<lambda>c. snd (dw_counter_advance c)) ^^ m) (dw_counter_init n step k))
           \<longleftrightarrow> unat k ^ n - 1 \<le> m)"
proof -
  let ?c = "((\<lambda>c. snd (dw_counter_advance c)) ^^ m) (dw_counter_init n step k)"
  have i: "counter_inv n step k (dw_counter_init n step k)" using assms by (rule dw_counter_init_inv)
  have c: "counter_inv n step k ?c" using i by (rule dw_odometer.iterate_inv)
  have "unat (current_epoch ?c) = min m (unat k ^ n - 1)"
    using dw_odometer.iterate_reading[OF i, of m] by (simp add: dw_counter_init_def)
  with dw_exhausted_iff[OF c] show ?thesis by (auto simp: dw_counter_epoch_def min_def)
qed

theorem dw_counter_epochs_witness:
  "unat (dw_counter_epoch (((\<lambda>c. snd (dw_counter_advance c)) ^^ 5) (dw_counter_init 2 144 4))) = 5"
  using dw_counter_epochs[of 4 2 5 144] by simp

text \<open>The nSequence a layer gives its state transaction, as a number.\<close>

lemma unat_current_nsequence:
  assumes "layer_inv step k l" and "unat step * (unat k - 1) < 65536"
  shows "unat (dw_current_nsequence l) = unat step * (unat k - 1 - unat (current_state l))"
proof -
  have "unat (dw_current_nsequence l) = unat (dw_delay_for_state (layer_config l) (current_state l))"
    by (simp add: dw_current_nsequence_def dw_nsequence_for_state_def unsigned_ucast_eq
        take_bit_nat_eq_self order.strict_trans2[OF unsigned_less])
  with assms show ?thesis by (simp add: unat_dw_delay layer_inv_def)
qed

lemma ticked_nth:
  assumes "ticked ls ls' i"
  shows "j < i \<Longrightarrow> ls' ! j = ls ! j" and "ls' ! i = snd (dw_advance (ls ! i))"
    and "i < j \<Longrightarrow> j < length ls \<Longrightarrow> ls' ! j = (ls ! j)\<lparr>current_state := 0\<rparr>"
  using assms by (auto simp: ticked_def nth_append nth_Cons' less_diff_conv)

text \<open>C12: The invalidation order.  A successful advance of the counter lowers the delays
  lexicographically: some layer's nSequence drops by exactly one step, the layers outside
  it keep theirs, and the layers inside it go back to the longest delay.  So the
  transactions of the newer epoch can always be confirmed before those of the older one.\<close>

theorem dw_counter_advance_shortens:
  assumes "counter_inv n step k c" and "unat step * (unat k - 1) < 65536"
    and "fst (dw_counter_advance c)"
  shows "\<exists>i<n.
     (\<forall>j<i. dw_current_nsequence (layers (snd (dw_counter_advance c)) ! j) = dw_current_nsequence (layers c ! j)) \<and>
     unat (dw_current_nsequence (layers (snd (dw_counter_advance c)) ! i)) + unat step
       = unat (dw_current_nsequence (layers c ! i)) \<and>
     (\<forall>j. i < j \<and> j < n \<longrightarrow>
        unat (dw_current_nsequence (layers (snd (dw_counter_advance c)) ! j)) = unat step * (unat k - 1))"
proof -
  from dw_counter_advance_ticked[OF assms(1,3)] obtain i ls' where t: "ticked (layers c) ls' i"
    and c': "layers (snd (dw_counter_advance c)) = ls'" by auto
  have len: "length (layers c) = n" and all: "\<And>j. j < n \<Longrightarrow> layer_inv step k (layers c ! j)"
    using assms(1) by (auto simp: counter_inv_def list_all_length)
  have i: "i < n" and adv: "fst (dw_advance (layers c ! i))" using t len by (auto simp: ticked_def)
  let ?l = "layers c ! i"
  have st: "unat (current_state (ls' ! i)) = unat (current_state ?l) + 1"
    using dw_advance_state[OF all[OF i] adv] by (simp add: ticked_nth(2)[OF t])
  have li: "layer_inv step k (ls' ! i)"
    using dw_advance_inv[OF all[OF i]] by (simp add: ticked_nth(2)[OF t])
  have "unat (current_state ?l) + 1 < unat k" using dw_advance_ok_iff[OF all[OF i]] adv by simp
  then have "unat k - 1 - unat (current_state ?l) = (unat k - 1 - unat (current_state (ls' ! i))) + 1"
    using st by linarith
  then have drop: "unat (dw_current_nsequence (ls' ! i)) + unat step = unat (dw_current_nsequence ?l)"
    by (simp add: unat_current_nsequence[OF li assms(2)] unat_current_nsequence[OF all[OF i] assms(2)])
  have inner: "unat (dw_current_nsequence (ls' ! j)) = unat step * (unat k - 1)" if "i < j" "j < n" for j
  proof -
    have e: "ls' ! j = (layers c ! j)\<lparr>current_state := 0\<rparr>" using ticked_nth(3)[OF t] that len by simp
    have "layer_inv step k (ls' ! j)" using all[OF that(2)] layer_inv_pos[OF all[OF that(2)]]
      by (simp add: e layer_inv_def)
    from unat_current_nsequence[OF this assms(2)] show ?thesis by (simp add: e)
  qed
  show ?thesis using i drop inner ticked_nth(1)[OF t] by (auto simp: c' intro!: exI[of _ i])
qed

theorem dw_counter_advance_shortens_witness:
  "\<exists>i<2. (\<forall>j<i. dw_current_nsequence (layers (snd (dw_counter_advance (dw_counter_init 2 144 4))) ! j)
                = dw_current_nsequence (layers (dw_counter_init 2 144 4) ! j)) \<and>
     unat (dw_current_nsequence (layers (snd (dw_counter_advance (dw_counter_init 2 144 4))) ! i)) + 144
       = unat (dw_current_nsequence (layers (dw_counter_init 2 144 4) ! i))"
proof -
  have "counter_inv 2 144 4 (dw_counter_init 2 144 4)" by (rule dw_counter_init_inv) simp_all
  moreover have "fst (dw_counter_advance (dw_counter_init 2 144 4))" by code_simp
  ultimately show ?thesis using dw_counter_advance_shortens[of 2 144 4 "dw_counter_init 2 144 4"] by auto
qed

lemma layers_value_max:
  "list_all (layer_inv step k) ls \<Longrightarrow> layers_value (unat k) ls + 1 = unat k ^ length ls \<Longrightarrow>
   list_all (\<lambda>l. unat (current_state l) = unat k - 1) ls"
proof (induction ls)
  case Nil
  then show ?case by simp
next
  case (Cons l ls)
  have l: "unat (current_state l) + 1 \<le> unat k" and ls: "list_all (layer_inv step k) ls"
    using Cons.prems(1) layer_inv_less[of step k l] by auto
  have lt: "layers_value (unat k) ls < unat k ^ length ls" using ls by (rule layers_value_less)
  have "(unat (current_state l) + 1) * unat k ^ length ls = unat k * unat k ^ length ls"
  proof (rule antisym)
    show "(unat (current_state l) + 1) * unat k ^ length ls \<le> unat k * unat k ^ length ls"
      using l by (rule mult_le_mono1)
    show "unat k * unat k ^ length ls \<le> (unat (current_state l) + 1) * unat k ^ length ls"
      using Cons.prems(2) lt by simp
  qed
  moreover have "unat k ^ length ls \<noteq> 0" using lt by linarith
  ultimately have e: "unat (current_state l) + 1 = unat k" by (simp only: mult_cancel2) simp
  moreover have "layers_value (unat k) ls + 1 = unat k ^ length ls"
    using Cons.prems(2) e[symmetric] by simp
  ultimately show ?case using Cons.IH[OF ls] by simp
qed

text \<open>An exhausted counter has every delay at zero: the newest epoch's transactions need
  no relative timelock at all, at any layer.\<close>

lemma dw_exhausted_no_delay:
  assumes "counter_inv n step k c" and "unat step * (unat k - 1) < 65536"
    and "dw_counter_is_exhausted c"
  shows "map dw_current_nsequence (layers c) = replicate n 0"
proof -
  have all: "list_all (layer_inv step k) (layers c)" and len: "length (layers c) = n"
    using assms(1) by (auto simp: counter_inv_def)
  have "0 < unat k ^ n" using assms(1) by (simp add: counter_inv_def word_less_nat_alt)
  moreover have "layers_value (unat k) (layers c) = unat k ^ n - 1"
    using dw_exhausted_iff[OF assms(1)] assms(1,3) by (simp add: counter_inv_def)
  ultimately have "layers_value (unat k) (layers c) + 1 = unat k ^ length (layers c)"
    unfolding len by linarith
  then have top: "list_all (\<lambda>l. unat (current_state l) = unat k - 1) (layers c)" by (rule layers_value_max[OF all])
  have "dw_current_nsequence l = 0" if "l \<in> set (layers c)" for l
    using unat_current_nsequence[OF _ assms(2), of l] that top all by (simp add: list_all_iff unat_eq_zero[symmetric])
  then show ?thesis by (simp add: len[symmetric] map_replicate_const[symmetric] cong: map_cong)
qed

end
