(* ===== verification/Util.thy ===== *)
theory Util
  imports SS_Prelude
begin

text \<open>
  The byte-level helpers of \<^verbatim>\<open>src/util.c\<close>: the growable transaction buffer with its
  sticky out-of-memory flag, hexadecimal, the SHA-256 wrappers and byte reversal, and
  the interface (\<open>codec\<close>) through which the serialisers of the other components are
  used.  SHA-256 itself is OpenSSL's: it is the parameter \<open>sha\<close> of every definition
  that hashes.  \<^verbatim>\<open>realloc\<close> is the parameter \<open>alloc\<close>, which says for each requested
  size whether the allocator grants it.
\<close>

section \<open>Transaction buffers\<close>

text \<open>\<open>buf_data\<close> holds the first \<^verbatim>\<open>len\<close> bytes of the allocation; \<^verbatim>\<open>len\<close> is its length.\<close>

record tx_buf =
  buf_data :: bytes
  buf_cap :: nat
  oom :: bool

definition tx_buf_init :: "(nat \<Rightarrow> bool) \<Rightarrow> nat \<Rightarrow> tx_buf" where
  "tx_buf_init alloc initial_cap =
     (if initial_cap = 0 then \<lparr>buf_data = [], buf_cap = 0, oom = False\<rparr>
      else if \<not> alloc initial_cap then \<lparr>buf_data = [], buf_cap = 0, oom = True\<rparr>
      else \<lparr>buf_data = [], buf_cap = initial_cap, oom = False\<rparr>)"

definition tx_buf_free :: "tx_buf \<Rightarrow> tx_buf" where
  "tx_buf_free b = \<lparr>buf_data = [], buf_cap = 0, oom = False\<rparr>"

definition tx_buf_reset :: "tx_buf \<Rightarrow> tx_buf" where
  "tx_buf_reset b = b\<lparr>buf_data := [], oom := False\<rparr>"

definition tx_buf_ensure :: "(nat \<Rightarrow> bool) \<Rightarrow> tx_buf \<Rightarrow> nat \<Rightarrow> tx_buf" where
  "tx_buf_ensure alloc b additional =
     (if oom b then b
      else if length (buf_data b) + additional > buf_cap b then
        let new_cap = (if buf_cap b * 2 < length (buf_data b) + additional
                       then length (buf_data b) + additional else buf_cap b * 2)
        in if \<not> alloc new_cap then b\<lparr>oom := True\<rparr> else b\<lparr>buf_cap := new_cap\<rparr>
      else b)"

text \<open>The shape every writer has: ensure room, stop if there is none, append.\<close>

definition buf_append :: "(nat \<Rightarrow> bool) \<Rightarrow> bytes \<Rightarrow> tx_buf \<Rightarrow> tx_buf" where
  "buf_append alloc bs b =
     (let b' = tx_buf_ensure alloc b (length bs)
      in if oom b' then b' else b'\<lparr>buf_data := buf_data b' @ bs\<rparr>)"

section \<open>Hexadecimal\<close>

definition hex_chars :: string where
  "hex_chars = ''0123456789abcdef''"

fun hex_encode :: "bytes \<Rightarrow> string" where
  "hex_encode [] = []"
| "hex_encode (d # ds) =
     hex_chars ! unat (drop_bit 4 d AND 15) # hex_chars ! unat (d AND 15) # hex_encode ds"

text \<open>\<^verbatim>\<open>-1\<close> for a character that is no digit is \<open>None\<close>.\<close>

definition hex_digit :: "char \<Rightarrow> nat option" where
  "hex_digit c =
     (let n = of_char c :: nat in
      if of_char CHR ''0'' \<le> n \<and> n \<le> of_char CHR ''9'' then Some (n - of_char CHR ''0'')
      else if of_char CHR ''a'' \<le> n \<and> n \<le> of_char CHR ''f'' then Some (10 + n - of_char CHR ''a'')
      else if of_char CHR ''A'' \<le> n \<and> n \<le> of_char CHR ''F'' then Some (10 + n - of_char CHR ''A'')
      else None)"

fun hex_decode_loop :: "string \<Rightarrow> bytes option" where
  "hex_decode_loop [] = Some []"
| "hex_decode_loop [c] = None"
| "hex_decode_loop (h # l # cs) =
     (case (hex_digit h, hex_digit l) of
        (Some hi, Some lo) \<Rightarrow>
          (case hex_decode_loop cs of
             Some bs \<Rightarrow> Some ((push_bit 4 (of_nat hi) OR of_nat lo) # bs)
           | None \<Rightarrow> None)
      | _ \<Rightarrow> None)"

text \<open>\<^verbatim>\<open>hex_decode\<close> returns the number of bytes written, or 0; the bytes themselves are the
  result here, \<open>None\<close> standing for the error return.\<close>

definition hex_decode :: "string \<Rightarrow> nat \<Rightarrow> bytes option" where
  "hex_decode hex out_len =
     (if length hex mod 2 \<noteq> 0 \<or> length hex div 2 > out_len then None
      else hex_decode_loop hex)"

section \<open>Hashing\<close>

definition sha256_double :: "(bytes \<Rightarrow> bytes) \<Rightarrow> bytes \<Rightarrow> bytes" where
  "sha256_double sha data = sha (sha data)"

definition ascii_bytes :: "string \<Rightarrow> bytes" where
  "ascii_bytes s = map (\<lambda>c. of_nat (of_char c)) s"

text \<open>The digest context is taken to be allocated; without it the code sets the digest to zeros.\<close>

definition sha256_tagged :: "(bytes \<Rightarrow> bytes) \<Rightarrow> string \<Rightarrow> bytes \<Rightarrow> bytes" where
  "sha256_tagged sha tag data =
     (let tag_hash = sha (ascii_bytes tag) in sha (tag_hash @ tag_hash @ data))"

text \<open>The swap loop \<^verbatim>\<open>for (i = 0; i < len / 2; i++)\<close> of \<^verbatim>\<open>reverse_bytes\<close>.\<close>

fun reverse_loop :: "nat \<Rightarrow> nat \<Rightarrow> bytes \<Rightarrow> bytes" where
  "reverse_loop 0 i d = d"
| "reverse_loop (Suc n) i d =
     reverse_loop n (Suc i) (d[i := d ! (length d - 1 - i), length d - 1 - i := d ! i])"

definition reverse_bytes :: "bytes \<Rightarrow> bytes" where
  "reverse_bytes d = reverse_loop (length d div 2) 0 d"

section \<open>Buffer lemmas\<close>

lemma buf_append_oom [simp]: "oom b \<Longrightarrow> buf_append alloc bs b = b"
  by (simp add: buf_append_def tx_buf_ensure_def)

lemma buf_append_data:
  "\<not> oom (buf_append alloc bs b) \<Longrightarrow>
   \<not> oom b \<and> buf_data (buf_append alloc bs b) = buf_data b @ bs"
  by (auto simp: buf_append_def tx_buf_ensure_def Let_def split: if_splits)

lemma buf_append_total:
  "(\<And>n. alloc n) \<Longrightarrow> \<not> oom b \<Longrightarrow> \<not> oom (buf_append alloc bs b)"
  by (simp add: buf_append_def tx_buf_ensure_def Let_def)

text \<open>The buffer never holds more bytes than it has allocated.\<close>

definition buf_wf :: "tx_buf \<Rightarrow> bool" where
  "buf_wf b \<longleftrightarrow> length (buf_data b) \<le> buf_cap b"

lemma buf_append_wf: "buf_wf b \<Longrightarrow> buf_wf (buf_append alloc bs b)"
  by (auto simp: buf_wf_def buf_append_def tx_buf_ensure_def Let_def)

lemma tx_buf_reset_simps [simp]:
  "buf_data (tx_buf_reset b) = []" "\<not> oom (tx_buf_reset b)"
  by (simp_all add: tx_buf_reset_def)

text \<open>A whole sequence of writes: all of it or the sticky flag.\<close>

fun buf_writes :: "(nat \<Rightarrow> bool) \<Rightarrow> bytes list \<Rightarrow> tx_buf \<Rightarrow> tx_buf" where
  "buf_writes alloc [] b = b"
| "buf_writes alloc (x # xs) b = buf_writes alloc xs (buf_append alloc x b)"

lemma buf_writes_append: "buf_writes alloc (xs @ ys) b = buf_writes alloc ys (buf_writes alloc xs b)"
  by (induction xs arbitrary: b) simp_all

lemma buf_writes_oom: "oom b \<Longrightarrow> buf_writes alloc xs b = b"
  by (induction xs) simp_all

lemma buf_writes_data:
  "\<not> oom (buf_writes alloc xs b) \<Longrightarrow>
   \<not> oom b \<and> buf_data (buf_writes alloc xs b) = buf_data b @ concat xs"
proof (induction xs arbitrary: b)
  case (Cons x xs)
  from Cons.prems have "\<not> oom (buf_writes alloc xs (buf_append alloc x b))" by simp
  from Cons.IH[OF this] have a: "\<not> oom (buf_append alloc x b)"
    and d: "buf_data (buf_writes alloc xs (buf_append alloc x b)) = buf_data (buf_append alloc x b) @ concat xs"
    by blast+
  from buf_append_data[OF a] d show ?case by simp
qed simp

lemma buf_writes_total:
  "(\<And>n. alloc n) \<Longrightarrow> \<not> oom b \<Longrightarrow> \<not> oom (buf_writes alloc xs b)"
  by (induction xs arbitrary: b) (simp_all add: buf_append_total)

lemma buf_writes_wf: "buf_wf b \<Longrightarrow> buf_wf (buf_writes alloc xs b)"
  by (induction xs arbitrary: b) (simp_all add: buf_append_wf)

section \<open>Byte reversal\<close>

lemma length_reverse_loop [simp]: "length (reverse_loop n i d) = length d"
  by (induction n arbitrary: i d) simp_all

lemma reverse_loop_nth:
  "i + n = length d div 2 \<Longrightarrow> j < length d \<Longrightarrow>
   reverse_loop n i d ! j =
     (if i \<le> j \<and> j \<le> length d - 1 - i then d ! (length d - 1 - j) else d ! j)"
proof (induction n arbitrary: i d)
  case 0
  then have "i \<le> j \<Longrightarrow> j \<le> length d - 1 - i \<Longrightarrow> length d - 1 - j = j" by linarith
  then show ?case by simp
next
  case (Suc n)
  let ?d = "d[i := d ! (length d - 1 - i), length d - 1 - i := d ! i]"
  have len: "length ?d = length d" by simp
  have "Suc i + n = length ?d div 2" "j < length ?d" using Suc.prems by simp_all
  from Suc.IH[OF this] have e: "reverse_loop (Suc n) i d ! j =
     (if Suc i \<le> j \<and> j \<le> length d - 1 - Suc i then ?d ! (length d - 1 - j) else ?d ! j)"
    by simp
  have i: "i < length d div 2" using Suc.prems by simp
  then show ?case unfolding e using Suc.prems(2) by (auto simp: nth_list_update)
qed

lemma reverse_bytes_rev: "reverse_bytes d = rev d"
proof (rule nth_equalityI)
  show "length (reverse_bytes d) = length (rev d)" by (simp add: reverse_bytes_def)
  fix j assume "j < length (reverse_bytes d)"
  then have j: "j < length d" "j \<le> length d - 1 - 0" by (simp_all add: reverse_bytes_def)
  then show "reverse_bytes d ! j = rev d ! j"
    by (simp add: reverse_bytes_def reverse_loop_nth rev_nth del: diff_zero)
qed

section \<open>Hexadecimal round trip\<close>

lemma hex_digit_char: "n < 16 \<Longrightarrow> hex_digit (hex_chars ! n) = Some n"
proof -
  assume "n < 16"
  then have "n \<in> {0, 1, 2, 3, 4, 5, 6, 7, 8, 9, 10, 11, 12, 13, 14, 15}" by (auto simp: numeral_eq_Suc less_Suc_eq)
  then show ?thesis by (elim insertE emptyE) (simp_all add: hex_digit_def hex_chars_def)
qed

lemma nibbles: "push_bit 4 (drop_bit 4 d AND 15) OR (d AND 15) = (d :: u8)"
proof -
  have m: "(15 :: u8) = mask 4" by (simp add: mask_eq_exp_minus_1)
  show ?thesis by (rule bit_word_eqI) (auto simp: m bit_simps)
qed
lemma nibbles_mask: "push_bit 4 (drop_bit 4 d) AND 240 OR (d AND 15) = (d :: u8)"
  using nibbles[of d] by (simp add: push_bit_and)

lemma nib_less: "unat (d AND 15 :: u8) < 16"
  by (rule le_less_trans[OF word_and_le1[THEN word_le_nat_alt[THEN iffD1]]]) simp

lemma hex_decode_loop_encode: "hex_decode_loop (hex_encode ds) = Some ds"
  by (induction ds) (simp_all add: hex_digit_char nib_less nibbles_mask)

lemma length_hex_encode: "length (hex_encode ds) = 2 * length ds"
  by (induction ds) simp_all

text \<open>\<open>hex_decode\<close> reads back exactly what \<open>hex_encode\<close> wrote, whenever the output buffer
  is large enough for it.\<close>

lemma hex_round_trip: "length ds \<le> n \<Longrightarrow> hex_decode (hex_encode ds) n = Some ds"
  by (simp add: hex_decode_def length_hex_encode hex_decode_loop_encode)

section \<open>Codecs\<close>

text \<open>
  The contract between a serialiser and its readers: a decoder that, on an encoding
  followed by anything, gives back the value and the rest.
\<close>

fun dec_many :: "(bytes \<Rightarrow> ('a \<times> bytes) option) \<Rightarrow> nat \<Rightarrow> bytes \<Rightarrow> ('a list \<times> bytes) option" where
  "dec_many dec 0 bs = Some ([], bs)"
| "dec_many dec (Suc n) bs =
     (case dec bs of None \<Rightarrow> None
      | Some (x, r) \<Rightarrow>
          (case dec_many dec n r of None \<Rightarrow> None | Some (xs, r') \<Rightarrow> Some (x # xs, r')))"

locale codec =
  fixes enc :: "'a \<Rightarrow> bytes"
    and dec :: "bytes \<Rightarrow> ('a \<times> bytes) option"
    and valid :: "'a \<Rightarrow> bool"
  assumes dec_enc: "valid x \<Longrightarrow> dec (enc x @ r) = Some (x, r)"
begin

lemma enc_prefix_inj: "valid x \<Longrightarrow> valid y \<Longrightarrow> enc x @ r = enc y @ s \<Longrightarrow> x = y \<and> r = s"
  by (metis dec_enc option.inject prod.inject)

lemma enc_inj: "valid x \<Longrightarrow> valid y \<Longrightarrow> enc x = enc y \<Longrightarrow> x = y"
  using enc_prefix_inj[of x y "[]" "[]"] by simp

lemma dec_many_enc:
  "list_all valid xs \<Longrightarrow> dec_many dec (length xs) (concat (map enc xs) @ r) = Some (xs, r)"
  by (induction xs) (simp_all add: dec_enc)

end

end
