(* ===== verification/Tx_Builder.thy ===== *)
theory Tx_Builder
  imports Util
begin

text \<open>
  Transaction construction, \<^verbatim>\<open>src/tx_builder.c\<close>: the writers on \<open>tx_buf\<close>, the unsigned
  transaction builders, the BIP-341 key-path signature hashes (which re-read the built
  bytes at fixed offsets) and the witness finalisers.  The specification side is the
  record \<open>tx\<close> with its consensus serialisation \<open>ser_tx\<close>, a decoder for it, and the
  BIP-341 signature message written on the record.
\<close>

section \<open>Model\<close>

record tx_output =
  amount_sats :: u64
  script_pubkey :: bytes

record tx_input =
  prev_txid :: bytes
  prev_vout :: u32
  nsequence :: u32

definition tx_buf_write_u8 :: "(nat \<Rightarrow> bool) \<Rightarrow> u8 \<Rightarrow> tx_buf \<Rightarrow> tx_buf" where
  "tx_buf_write_u8 alloc v b =
     (let b' = tx_buf_ensure alloc b 1 in
      if oom b' then b' else b'\<lparr>buf_data := buf_data b' @ [v]\<rparr>)"

definition tx_buf_write_u16_le :: "(nat \<Rightarrow> bool) \<Rightarrow> u16 \<Rightarrow> tx_buf \<Rightarrow> tx_buf" where
  "tx_buf_write_u16_le alloc v b =
     (let b' = tx_buf_ensure alloc b 2 in
      if oom b' then b'
      else b'\<lparr>buf_data := buf_data b' @ [ucast (v AND 255), ucast (drop_bit 8 v AND 255)]\<rparr>)"

definition tx_buf_write_u32_le :: "(nat \<Rightarrow> bool) \<Rightarrow> u32 \<Rightarrow> tx_buf \<Rightarrow> tx_buf" where
  "tx_buf_write_u32_le alloc v b =
     (let b' = tx_buf_ensure alloc b 4 in
      if oom b' then b'
      else b'\<lparr>buf_data := buf_data b' @
             [ucast (v AND 255), ucast (drop_bit 8 v AND 255),
              ucast (drop_bit 16 v AND 255), ucast (drop_bit 24 v AND 255)]\<rparr>)"

definition tx_buf_write_u64_le :: "(nat \<Rightarrow> bool) \<Rightarrow> u64 \<Rightarrow> tx_buf \<Rightarrow> tx_buf" where
  "tx_buf_write_u64_le alloc v b =
     (let b' = tx_buf_ensure alloc b 8 in
      if oom b' then b'
      else b'\<lparr>buf_data := buf_data b' @ map (\<lambda>i. ucast (drop_bit (i * 8) v AND 255)) [0..<8]\<rparr>)"

definition tx_buf_write_varint :: "(nat \<Rightarrow> bool) \<Rightarrow> u64 \<Rightarrow> tx_buf \<Rightarrow> tx_buf" where
  "tx_buf_write_varint alloc v b =
     (if v < 0xfd then tx_buf_write_u8 alloc (ucast v) b
      else if v \<le> 0xffff then
        tx_buf_write_u16_le alloc (ucast v) (tx_buf_write_u8 alloc 0xfd b)
      else if v \<le> 0xffffffff then
        tx_buf_write_u32_le alloc (ucast v) (tx_buf_write_u8 alloc 0xfe b)
      else tx_buf_write_u64_le alloc v (tx_buf_write_u8 alloc 0xff b))"

definition tx_buf_write_bytes :: "(nat \<Rightarrow> bool) \<Rightarrow> bytes \<Rightarrow> nat \<Rightarrow> tx_buf \<Rightarrow> tx_buf" where
  "tx_buf_write_bytes alloc data len b =
     (let b' = tx_buf_ensure alloc b len in
      if oom b' then b' else b'\<lparr>buf_data := buf_data b' @ take len data\<rparr>)"

text \<open>The output loop of every builder.\<close>

fun write_outputs :: "(nat \<Rightarrow> bool) \<Rightarrow> tx_output list \<Rightarrow> tx_buf \<Rightarrow> tx_buf" where
  "write_outputs alloc [] b = b"
| "write_outputs alloc (q # qs) b =
     write_outputs alloc qs
       (tx_buf_write_bytes alloc (script_pubkey q) (length (script_pubkey q))
         (tx_buf_write_varint alloc (of_nat (length (script_pubkey q)))
           (tx_buf_write_u64_le alloc (amount_sats q) b)))"

fun write_inputs :: "(nat \<Rightarrow> bool) \<Rightarrow> tx_input list \<Rightarrow> tx_buf \<Rightarrow> tx_buf" where
  "write_inputs alloc [] b = b"
| "write_inputs alloc (i # is) b =
     write_inputs alloc is
       (tx_buf_write_u32_le alloc (nsequence i)
         (tx_buf_write_varint alloc 0
           (tx_buf_write_u32_le alloc (prev_vout i)
             (tx_buf_write_bytes alloc (prev_txid i) 32 b))))"

text \<open>
  A builder returns its C result, the buffer, and the transaction id it stores through
  \<^verbatim>\<open>txid_out32\<close> when that pointer is given (\<open>want_txid\<close>).
\<close>

definition txid_of :: "(bytes \<Rightarrow> bytes) \<Rightarrow> bytes \<Rightarrow> bytes" where
  "txid_of sha data = reverse_bytes (sha256_double sha data)"

definition build_unsigned_tx_with_locktime ::
  "(nat \<Rightarrow> bool) \<Rightarrow> (bytes \<Rightarrow> bytes) \<Rightarrow> tx_buf \<Rightarrow> bool \<Rightarrow> bytes \<Rightarrow> u32 \<Rightarrow> u32 \<Rightarrow> u32 \<Rightarrow> tx_output list
   \<Rightarrow> bool \<times> tx_buf \<times> bytes option" where
  "build_unsigned_tx_with_locktime alloc sha out want_txid funding_txid funding_vout nseq nlocktime outputs =
     (let b = tx_buf_reset out;
          b = tx_buf_write_u32_le alloc 2 b;
          b = tx_buf_write_varint alloc 1 b;
          b = tx_buf_write_bytes alloc funding_txid 32 b;
          b = tx_buf_write_u32_le alloc funding_vout b;
          b = tx_buf_write_varint alloc 0 b;
          b = tx_buf_write_u32_le alloc nseq b;
          b = tx_buf_write_varint alloc (of_nat (length outputs)) b;
          b = write_outputs alloc outputs b;
          b = tx_buf_write_u32_le alloc nlocktime b
      in if oom b then (False, b, None)
         else (True, b, if want_txid then Some (txid_of sha (buf_data b)) else None))"

definition build_unsigned_tx ::
  "(nat \<Rightarrow> bool) \<Rightarrow> (bytes \<Rightarrow> bytes) \<Rightarrow> tx_buf \<Rightarrow> bool \<Rightarrow> bytes \<Rightarrow> u32 \<Rightarrow> u32 \<Rightarrow> tx_output list
   \<Rightarrow> bool \<times> tx_buf \<times> bytes option" where
  "build_unsigned_tx alloc sha out want_txid funding_txid funding_vout nseq outputs =
     build_unsigned_tx_with_locktime alloc sha out want_txid funding_txid funding_vout nseq 0 outputs"

definition build_unsigned_tx_multi ::
  "(nat \<Rightarrow> bool) \<Rightarrow> (bytes \<Rightarrow> bytes) \<Rightarrow> tx_buf \<Rightarrow> bool \<Rightarrow> tx_input list \<Rightarrow> tx_output list \<Rightarrow> u32 \<Rightarrow> u32
   \<Rightarrow> bool \<times> tx_buf \<times> bytes option" where
  "build_unsigned_tx_multi alloc sha out want_txid inputs outputs nVersion nlocktime =
     (if inputs = [] then (False, out, None)
      else
        let b = tx_buf_reset out;
            b = tx_buf_write_u32_le alloc nVersion b;
            b = tx_buf_write_varint alloc (of_nat (length inputs)) b;
            b = write_inputs alloc inputs b;
            b = tx_buf_write_varint alloc (of_nat (length outputs)) b;
            b = write_outputs alloc outputs b;
            b = tx_buf_write_u32_le alloc nlocktime b
        in if oom b then (False, b, None)
           else (True, b, if want_txid then Some (txid_of sha (buf_data b)) else None))"

definition build_unsigned_tx_v ::
  "(nat \<Rightarrow> bool) \<Rightarrow> (bytes \<Rightarrow> bytes) \<Rightarrow> tx_buf \<Rightarrow> bool \<Rightarrow> bytes \<Rightarrow> u32 \<Rightarrow> u32 \<Rightarrow> tx_output list \<Rightarrow> u32
   \<Rightarrow> bool \<times> tx_buf \<times> bytes option" where
  "build_unsigned_tx_v alloc sha out want_txid funding_txid funding_vout nseq outputs nVersion =
     (let b = tx_buf_reset out;
          b = tx_buf_write_u32_le alloc nVersion b;
          b = tx_buf_write_varint alloc 1 b;
          b = tx_buf_write_bytes alloc funding_txid 32 b;
          b = tx_buf_write_u32_le alloc funding_vout b;
          b = tx_buf_write_varint alloc 0 b;
          b = tx_buf_write_u32_le alloc nseq b;
          b = tx_buf_write_varint alloc (of_nat (length outputs)) b;
          b = write_outputs alloc outputs b;
          b = tx_buf_write_u32_le alloc 0 b
      in if oom b then (False, b, None)
         else (True, b, if want_txid then Some (txid_of sha (buf_data b)) else None))"

text \<open>The stack-buffer writers \<^verbatim>\<open>write_u32_le\<close> and \<^verbatim>\<open>write_u64_le\<close>.\<close>

definition write_u32_le :: "u32 \<Rightarrow> bytes" where
  "write_u32_le v =
     [ucast (v AND 255), ucast (drop_bit 8 v AND 255),
      ucast (drop_bit 16 v AND 255), ucast (drop_bit 24 v AND 255)]"

definition write_u64_le :: "u64 \<Rightarrow> bytes" where
  "write_u64_le v = map (\<lambda>i. ucast (drop_bit (i * 8) v AND 255)) [0..<8]"

text \<open>
  The key-path signature hash of a single-input transaction.  It reads the version, the
  outpoint at offset 5 and the outputs from offset 47 on, assuming a one-byte output
  count.
\<close>

definition compute_taproot_sighash ::
  "(nat \<Rightarrow> bool) \<Rightarrow> (bytes \<Rightarrow> bytes) \<Rightarrow> bytes \<Rightarrow> u32 \<Rightarrow> bytes \<Rightarrow> u64 \<Rightarrow> u32 \<Rightarrow> bytes option" where
  "compute_taproot_sighash alloc sha tx input_index prev_spk prev_amount nseq =
     (let nversion_le = take 4 tx;
          nlocktime_le = take 4 (drop (length tx - 4) tx);
          sha_prevouts = sha (take 36 (drop 5 tx));
          sha_amounts = sha (write_u64_le prev_amount);
          spk_ser_len = 1 + length prev_spk
      in if \<not> alloc spk_ser_len then None
      else
      let sha_scriptpubkeys = sha (of_nat (length prev_spk) # prev_spk);
          sha_sequences = sha (write_u32_le nseq);
          out_start = 46 + 1;
          sha_outputs = sha (take (length tx - 4 - out_start) (drop out_start tx));
          msg = [0, 0] @ nversion_le @ nlocktime_le @ sha_prevouts @ sha_amounts @ sha_scriptpubkeys
                @ sha_sequences @ sha_outputs @ [0] @ write_u32_le input_index
      in Some (sha256_tagged sha ''TapSighash'' msg))"

definition finalize_signed_tx :: "(nat \<Rightarrow> bool) \<Rightarrow> tx_buf \<Rightarrow> bytes \<Rightarrow> bytes \<Rightarrow> bool \<times> tx_buf" where
  "finalize_signed_tx alloc out tx sig64 =
     (let b = tx_buf_reset out;
          b = tx_buf_write_bytes alloc tx 4 b;
          b = tx_buf_write_u8 alloc 0 b;
          b = tx_buf_write_u8 alloc 1 b;
          b = tx_buf_write_bytes alloc (drop 4 tx) (length tx - 8) b;
          b = tx_buf_write_varint alloc 1 b;
          b = tx_buf_write_varint alloc 64 b;
          b = tx_buf_write_bytes alloc sig64 64 b;
          b = tx_buf_write_bytes alloc (drop (length tx - 4) tx) 4 b
      in (\<not> oom b, b))"

definition varint_size :: "u64 \<Rightarrow> nat" where
  "varint_size v = (if v < 0xfd then 1 else if v \<le> 0xffff then 3 else if v \<le> 0xffffffff then 5 else 9)"

text \<open>The per-input arrays come as one list of (script, amount, sequence) triples.\<close>

definition compute_taproot_sighash_multi ::
  "(nat \<Rightarrow> bool) \<Rightarrow> (bytes \<Rightarrow> bytes) \<Rightarrow> bytes \<Rightarrow> nat \<Rightarrow> (bytes \<times> u64 \<times> u32) list \<Rightarrow> bytes option" where
  "compute_taproot_sighash_multi alloc sha tx input_index prevs =
     (let n_inputs = length prevs in
      if n_inputs = 0 then None
      else if input_index \<ge> n_inputs then None
      else if length tx < 8 then None
      else
        let nversion_le = take 4 tx;
            nlocktime_le = take 4 (drop (length tx - 4) tx);
            inputs_start = 4 + varint_size (of_nat n_inputs);
            each_input_len = 32 + 4 + 1 + 4;
            outputs_start = inputs_start + each_input_len * n_inputs
        in if outputs_start + 4 > length tx \<or> \<not> alloc (36 * n_inputs) \<or> \<not> alloc (8 * n_inputs) then None
           else
             let sha_prevouts = sha (concat (map (\<lambda>i. take 36 (drop (inputs_start + each_input_len * i) tx)) [0..<n_inputs]));
                 sha_amounts = sha (concat (map (\<lambda>(spk, amt, sq). write_u64_le amt) prevs))
             in if (\<exists>p\<in>set prevs. length (fst p) \<ge> 0xfd) \<or> \<not> alloc (sum_list (map (\<lambda>p. 1 + length (fst p)) prevs))
                     \<or> \<not> alloc (4 * n_inputs) then None
                else
                  let sha_scriptpubkeys = sha (concat (map (\<lambda>(spk, amt, sq). of_nat (length spk) # spk) prevs));
                      sha_sequences = sha (concat (map (\<lambda>(spk, amt, sq). write_u32_le sq) prevs));
                      b0 = tx ! outputs_start;
                      out_count_varint_len = (if b0 < 0xfd then 1 else if b0 = 0xfd then 3 else if b0 = 0xfe then 5 else 9);
                      outputs_data_start = outputs_start + out_count_varint_len
                  in if outputs_data_start + 4 > length tx then None
                     else
                       let sha_outputs = sha (take (length tx - 4 - outputs_data_start) (drop outputs_data_start tx));
                           msg = [0, 0] @ nversion_le @ nlocktime_le @ sha_prevouts @ sha_amounts @ sha_scriptpubkeys
                                 @ sha_sequences @ sha_outputs @ [0] @ write_u32_le (of_nat input_index)
                       in Some (sha256_tagged sha ''TapSighash'' msg))"

fun write_sigs :: "(nat \<Rightarrow> bool) \<Rightarrow> bytes \<Rightarrow> nat \<Rightarrow> tx_buf \<Rightarrow> tx_buf" where
  "write_sigs alloc sigs 0 b = b"
| "write_sigs alloc sigs (Suc n) b =
     write_sigs alloc (drop 64 sigs) n
       (tx_buf_write_bytes alloc sigs 64 (tx_buf_write_varint alloc 64 (tx_buf_write_varint alloc 1 b)))"

definition finalize_signed_tx_multi ::
  "(nat \<Rightarrow> bool) \<Rightarrow> tx_buf \<Rightarrow> bytes \<Rightarrow> nat \<Rightarrow> bytes \<Rightarrow> bool \<times> tx_buf" where
  "finalize_signed_tx_multi alloc out tx n_inputs sig64s =
     (if n_inputs = 0 then (False, out)
      else if length tx < 8 then (False, out)
      else
        let b = tx_buf_reset out;
            b = tx_buf_write_bytes alloc tx 4 b;
            b = tx_buf_write_u8 alloc 0 b;
            b = tx_buf_write_u8 alloc 1 b;
            b = tx_buf_write_bytes alloc (drop 4 tx) (length tx - 8) b;
            b = write_sigs alloc sig64s n_inputs b;
            b = tx_buf_write_bytes alloc (drop (length tx - 4) tx) 4 b
        in (\<not> oom b, b))"

section \<open>Specification: transactions and their serialisation\<close>

record tx =
  tx_version :: u32
  tx_ins :: "tx_input list"
  tx_outs :: "tx_output list"
  tx_locktime :: u32

definition compact_size :: "u64 \<Rightarrow> bytes" where
  "compact_size v =
     (if v < 0xfd then [ucast v]
      else if v \<le> 0xffff then 0xfd # le_bytes 2 v
      else if v \<le> 0xffffffff then 0xfe # le_bytes 4 v
      else 0xff # le_bytes 8 v)"

definition ser_output :: "tx_output \<Rightarrow> bytes" where
  "ser_output q = le_bytes 8 (amount_sats q) @ compact_size (of_nat (length (script_pubkey q))) @ script_pubkey q"

definition ser_input :: "tx_input \<Rightarrow> bytes" where
  "ser_input i = prev_txid i @ le_bytes 4 (prev_vout i) @ [0] @ le_bytes 4 (nsequence i)"

definition ser_tx :: "tx \<Rightarrow> bytes" where
  "ser_tx t =
     le_bytes 4 (tx_version t)
     @ compact_size (of_nat (length (tx_ins t))) @ concat (map ser_input (tx_ins t))
     @ compact_size (of_nat (length (tx_outs t))) @ concat (map ser_output (tx_outs t))
     @ le_bytes 4 (tx_locktime t)"

text \<open>Transactions the program can build: ids are 32 bytes, scripts and counts fit a compact size.\<close>

definition valid_output :: "tx_output \<Rightarrow> bool" where
  "valid_output q \<longleftrightarrow> length (script_pubkey q) < 2 ^ 64"

definition valid_input :: "tx_input \<Rightarrow> bool" where
  "valid_input i \<longleftrightarrow> length (prev_txid i) = 32"

definition valid_tx :: "tx \<Rightarrow> bool" where
  "valid_tx t \<longleftrightarrow> list_all valid_input (tx_ins t) \<and> list_all valid_output (tx_outs t)
     \<and> length (tx_ins t) < 2 ^ 64 \<and> length (tx_outs t) < 2 ^ 64"

section \<open>The writers append the encodings\<close>

lemma upt_2: "[0..<2] = [0, 1]" and upt_4: "[0..<4] = [0, 1, 2, 3]"
  by (simp_all add: upt_rec)

lemma le_bytes_2: "le_bytes 2 v = [ucast (v AND 255), ucast (drop_bit 8 v AND 255)]"
  by (simp add: le_bytes_def upt_2)

lemma le_bytes_4: "le_bytes 4 v = [ucast (v AND 255), ucast (drop_bit 8 v AND 255),
     ucast (drop_bit 16 v AND 255), ucast (drop_bit 24 v AND 255)]"
  by (simp add: le_bytes_def upt_4)

lemma write_u32_le_eq [bytes_simps]: "write_u32_le v = le_bytes 4 v"
  by (simp add: write_u32_le_def le_bytes_4)

lemma write_u64_le_eq [bytes_simps]: "write_u64_le v = le_bytes 8 v"
  by (simp add: write_u64_le_def le_bytes_def mult.commute)

lemma le_bytes_ucast: "8 * n \<le> LENGTH('b) \<Longrightarrow> 8 * n \<le> LENGTH('a) \<Longrightarrow>
   le_bytes n (ucast (v :: 'a::len word) :: 'b::len word) = le_bytes n v"
proof (rule le_value_inj)
  assume n: "8 * n \<le> LENGTH('b)" "8 * n \<le> LENGTH('a)"
  have p: "(256::nat) ^ n = 2 ^ (8 * n)" by (simp add: power_mult)
  have "unat (ucast v :: 'b word) mod 2 ^ (8 * n) = take_bit (8 * n) (take_bit LENGTH('b) (unat v))"
    by (simp add: unsigned_ucast_eq take_bit_eq_mod)
  also have "\<dots> = unat v mod 2 ^ (8 * n)"
    using n(1) by (simp add: take_bit_eq_mod mod_mod_cancel le_imp_power_dvd)
  finally show "le_value (le_bytes n (ucast v :: 'b word)) = le_value (le_bytes n v)"
    by (simp add: le_value_le_bytes p)
qed simp

lemma write_u8_append [bytes_simps]: "tx_buf_write_u8 alloc v = buf_append alloc [v]"
  by (simp add: tx_buf_write_u8_def buf_append_def fun_eq_iff)

lemma write_u16_append [bytes_simps]: "tx_buf_write_u16_le alloc v = buf_append alloc (le_bytes 2 v)"
  by (rule ext) (simp only: tx_buf_write_u16_le_def buf_append_def length_le_bytes, simp only: le_bytes_2)

lemma write_u32_append [bytes_simps]: "tx_buf_write_u32_le alloc v = buf_append alloc (le_bytes 4 v)"
  by (rule ext) (simp only: tx_buf_write_u32_le_def buf_append_def length_le_bytes, simp only: le_bytes_4)

lemma write_u64_append [bytes_simps]: "tx_buf_write_u64_le alloc v = buf_append alloc (le_bytes 8 v)"
  by (simp add: tx_buf_write_u64_le_def buf_append_def fun_eq_iff
      le_bytes_def[of 8] mult.commute)

lemma write_bytes_append:
  "length data \<ge> n \<Longrightarrow> tx_buf_write_bytes alloc data n = buf_append alloc (take n data)"
  by (simp add: tx_buf_write_bytes_def buf_append_def fun_eq_iff min_absorb2)

text \<open>A varint is one or two writes.\<close>

definition varint_chunks :: "u64 \<Rightarrow> bytes list" where
  "varint_chunks v =
     (if v < 0xfd then [[ucast v]]
      else if v \<le> 0xffff then [[0xfd], le_bytes 2 v]
      else if v \<le> 0xffffffff then [[0xfe], le_bytes 4 v]
      else [[0xff], le_bytes 8 v])"

lemma concat_varint_chunks [simp]: "concat (varint_chunks v) = compact_size v"
  by (simp add: varint_chunks_def compact_size_def)

lemma write_varint_chunks [bytes_simps]:
  "tx_buf_write_varint alloc v b = buf_writes alloc (varint_chunks v) b"
  by (simp add: tx_buf_write_varint_def varint_chunks_def bytes_simps le_bytes_ucast)

definition output_chunks :: "tx_output \<Rightarrow> bytes list" where
  "output_chunks q = le_bytes 8 (amount_sats q) # varint_chunks (of_nat (length (script_pubkey q))) @ [script_pubkey q]"

definition input_chunks :: "tx_input \<Rightarrow> bytes list" where
  "input_chunks i = prev_txid i # le_bytes 4 (prev_vout i) # varint_chunks 0 @ [le_bytes 4 (nsequence i)]"

lemma concat_output_chunks [simp]: "concat (output_chunks q) = ser_output q"
  by (simp add: output_chunks_def ser_output_def)

lemma concat_input_chunks [simp]: "concat (input_chunks i) = ser_input i"
  by (simp add: input_chunks_def ser_input_def compact_size_def)

lemma write_outputs_chunks [bytes_simps]:
  "write_outputs alloc qs b = buf_writes alloc (concat (map output_chunks qs)) b"
  by (induction qs arbitrary: b)
    (simp_all add: bytes_simps write_bytes_append buf_writes_append output_chunks_def)

lemma write_inputs_chunks:
  "list_all valid_input is \<Longrightarrow> write_inputs alloc is b = buf_writes alloc (concat (map input_chunks is)) b"
  by (induction "is" arbitrary: b)
    (simp_all add: bytes_simps write_bytes_append buf_writes_append input_chunks_def valid_input_def)

lemma concat_concat_map: "concat (concat (map f xs)) = concat (map (\<lambda>x. concat (f x)) xs)"
  by (induction xs) simp_all

section \<open>The builders refine the serialisation\<close>

lemma writes_result:
  assumes "\<not> oom (buf_writes alloc xs (tx_buf_reset out))"
  shows "buf_data (buf_writes alloc xs (tx_buf_reset out)) = concat xs"
  using buf_writes_data[OF assms] by simp

definition tx_chunks :: "tx \<Rightarrow> bytes list" where
  "tx_chunks t = le_bytes 4 (tx_version t) # varint_chunks (of_nat (length (tx_ins t)))
     @ concat (map input_chunks (tx_ins t)) @ varint_chunks (of_nat (length (tx_outs t)))
     @ concat (map output_chunks (tx_outs t)) @ [le_bytes 4 (tx_locktime t)]"

lemma concat_tx_chunks: "concat (tx_chunks t) = ser_tx t"
  by (simp add: tx_chunks_def ser_tx_def concat_concat_map)

text \<open>Every builder is the same run of writes, on its own transaction.\<close>

definition built :: "(nat \<Rightarrow> bool) \<Rightarrow> (bytes \<Rightarrow> bytes) \<Rightarrow> tx_buf \<Rightarrow> bool \<Rightarrow> tx \<Rightarrow> bool \<times> tx_buf \<times> bytes option" where
  "built alloc sha out want_txid t =
     (let b = buf_writes alloc (tx_chunks t) (tx_buf_reset out)
      in if oom b then (False, b, None)
         else (True, b, if want_txid then Some (txid_of sha (buf_data b)) else None))"

lemma build_multi_built:
  "ins \<noteq> [] \<Longrightarrow> list_all valid_input ins \<Longrightarrow>
   build_unsigned_tx_multi alloc sha out w ins outs v lt =
   built alloc sha out w \<lparr>tx_version = v, tx_ins = ins, tx_outs = outs, tx_locktime = lt\<rparr>"
  by (simp add: build_unsigned_tx_multi_def built_def tx_chunks_def bytes_simps
      write_inputs_chunks buf_writes_append)

lemma build_locktime_built:
  "length txid = 32 \<Longrightarrow>
   build_unsigned_tx_with_locktime alloc sha out w txid vout nseq lt outs =
   built alloc sha out w \<lparr>tx_version = 2, tx_ins = [\<lparr>prev_txid = txid, prev_vout = vout, nsequence = nseq\<rparr>],
     tx_outs = outs, tx_locktime = lt\<rparr>"
  by (simp add: build_unsigned_tx_with_locktime_def built_def tx_chunks_def bytes_simps
      write_bytes_append input_chunks_def buf_writes_append)

lemma build_v_built:
  "length txid = 32 \<Longrightarrow>
   build_unsigned_tx_v alloc sha out w txid vout nseq outs v =
   built alloc sha out w \<lparr>tx_version = v, tx_ins = [\<lparr>prev_txid = txid, prev_vout = vout, nsequence = nseq\<rparr>],
     tx_outs = outs, tx_locktime = 0\<rparr>"
  by (simp add: build_unsigned_tx_v_def built_def tx_chunks_def bytes_simps
      write_bytes_append input_chunks_def buf_writes_append)

lemma built_correct:
  "fst (built alloc sha out w t) \<Longrightarrow>
   buf_data (fst (snd (built alloc sha out w t))) = ser_tx t \<and>
   snd (snd (built alloc sha out w t)) = (if w then Some (rev (sha (sha (ser_tx t)))) else None)"
  using writes_result[of alloc "tx_chunks t" out]
  by (auto simp: built_def Let_def concat_tx_chunks txid_of_def sha256_double_def reverse_bytes_rev split: if_splits)

lemma built_failed: "\<not> fst (built alloc sha out w t) \<Longrightarrow> oom (fst (snd (built alloc sha out w t)))"
  by (auto simp: built_def Let_def split: if_splits)

lemma built_total: "(\<And>n. alloc n) \<Longrightarrow> fst (built alloc sha out w t)"
  using buf_writes_total[of alloc "tx_reset"] by (simp add: built_def Let_def buf_writes_total)

text \<open>C29: The general builder refines the consensus serialisation.  Whatever the allocator
  does, \<open>build_unsigned_tx_multi\<close> either reports failure with the buffer's out-of-memory
  flag set, or leaves exactly the serialisation of the intended transaction in the buffer
  and its byte-reversed double SHA-256 as the id; when the allocator grants every request
  it succeeds.\<close>

theorem build_unsigned_tx_multi_refines:
  fixes ins outs v lt
  defines "t \<equiv> \<lparr>tx_version = v, tx_ins = ins, tx_outs = outs, tx_locktime = lt\<rparr>"
  assumes "ins \<noteq> []" and "list_all valid_input ins"
  shows "(case build_unsigned_tx_multi alloc sha out True ins outs v lt of
            (ok, b, txid) \<Rightarrow>
              (ok \<longrightarrow> buf_data b = ser_tx t \<and> txid = Some (rev (sha (sha (ser_tx t))))) \<and>
              (\<not> ok \<longrightarrow> oom b \<and> txid = None))
         \<and> ((\<forall>n. alloc n) \<longrightarrow> fst (build_unsigned_tx_multi alloc sha out True ins outs v lt))"
proof -
  have e: "build_unsigned_tx_multi alloc sha out True ins outs v lt = built alloc sha out True t"
    unfolding t_def using assms(2,3) by (rule build_multi_built)
  obtain ok b txid where r: "built alloc sha out True t = (ok, b, txid)" by (cases "built alloc sha out True t")
  have "\<not> ok \<Longrightarrow> txid = None" using r by (auto simp: built_def Let_def split: if_splits)
  then show ?thesis
    using built_correct[of alloc sha out True t] built_failed[of alloc sha out True t]
      built_total[of alloc sha out True t] by (simp add: e r)
qed

theorem build_unsigned_tx_multi_refines_witness:
  "fst (build_unsigned_tx_multi (\<lambda>_. True) (\<lambda>_. replicate 32 7) \<lparr>buf_data = [], buf_cap = 0, oom = False\<rparr> True
     [\<lparr>prev_txid = replicate 32 1, prev_vout = 0, nsequence = 5\<rparr>] [] 2 0)"
  using build_unsigned_tx_multi_refines
    [where ins = "[\<lparr>prev_txid = replicate 32 1, prev_vout = 0, nsequence = 5\<rparr>]" and alloc = "\<lambda>_. True"
       and sha = "\<lambda>_. replicate 32 7" and out = "\<lparr>buf_data = [], buf_cap = 0, oom = False\<rparr>"
       and outs = "[]" and v = 2 and lt = 0]
  by (simp add: valid_input_def)

section \<open>Reading a serialised transaction back\<close>

definition dec_le :: "nat \<Rightarrow> bytes \<Rightarrow> ('a::len word \<times> bytes) option" where
  "dec_le n bs = (if length bs < n then None else Some (of_nat (le_value (take n bs)), drop n bs))"

definition dec_raw :: "nat \<Rightarrow> bytes \<Rightarrow> (bytes \<times> bytes) option" where
  "dec_raw n bs = (if length bs < n then None else Some (take n bs, drop n bs))"

definition dec_compact :: "bytes \<Rightarrow> (u64 \<times> bytes) option" where
  "dec_compact bs =
     (case bs of [] \<Rightarrow> None
      | b # r \<Rightarrow> if b < 0xfd then Some (ucast b, r)
                else if b = 0xfd then dec_le 2 r
                else if b = 0xfe then dec_le 4 r
                else dec_le 8 r)"

definition dec_output :: "bytes \<Rightarrow> (tx_output \<times> bytes) option" where
  "dec_output bs =
     (case dec_le 8 bs of None \<Rightarrow> None | Some (amt, r) \<Rightarrow>
      (case dec_compact r of None \<Rightarrow> None | Some (n, r) \<Rightarrow>
       (case dec_raw (unat n) r of None \<Rightarrow> None | Some (spk, r) \<Rightarrow>
          Some (\<lparr>amount_sats = amt, script_pubkey = spk\<rparr>, r))))"

definition dec_input :: "bytes \<Rightarrow> (tx_input \<times> bytes) option" where
  "dec_input bs =
     (case dec_raw 32 bs of None \<Rightarrow> None | Some (txid, r) \<Rightarrow>
      (case dec_le 4 r of None \<Rightarrow> None | Some (vout, r) \<Rightarrow>
       (case r of [] \<Rightarrow> None | z # r \<Rightarrow> if z \<noteq> 0 then None else
        (case dec_le 4 r of None \<Rightarrow> None | Some (sq, r) \<Rightarrow>
           Some (\<lparr>prev_txid = txid, prev_vout = vout, nsequence = sq\<rparr>, r)))))"

definition dec_tx :: "bytes \<Rightarrow> (tx \<times> bytes) option" where
  "dec_tx bs =
     (case dec_le 4 bs of None \<Rightarrow> None | Some (v, r) \<Rightarrow>
      (case dec_compact r of None \<Rightarrow> None | Some (ni, r) \<Rightarrow>
       (case dec_many dec_input (unat ni) r of None \<Rightarrow> None | Some (ins, r) \<Rightarrow>
        (case dec_compact r of None \<Rightarrow> None | Some (no, r) \<Rightarrow>
         (case dec_many dec_output (unat no) r of None \<Rightarrow> None | Some (outs, r) \<Rightarrow>
          (case dec_le 4 r of None \<Rightarrow> None | Some (lt, r) \<Rightarrow>
             Some (\<lparr>tx_version = v, tx_ins = ins, tx_outs = outs, tx_locktime = lt\<rparr>, r)))))))"

lemma dec_le_le_bytes [simp]:
  "LENGTH('a) \<le> 8 * n \<Longrightarrow> dec_le n (le_bytes n v @ r) = Some (v :: 'a::len word, r)"
  by (simp add: dec_le_def)

lemma dec_raw_append [simp]: "length xs = n \<Longrightarrow> dec_raw n (xs @ r) = Some (xs, r)"
  by (simp add: dec_raw_def)

lemma dec_le_small [simp]:
  assumes "unat (v :: u64) < 256 ^ n"
  shows "dec_le n (le_bytes n v @ r) = Some (v, r)"
  using assms by (simp add: dec_le_def le_value_le_bytes)

lemma dec_compact_compact: "dec_compact (compact_size v @ r) = Some (v, r)"
proof -
  consider (a) "v < 0xfd" | (b) "\<not> v < 0xfd" "v \<le> 0xffff" | (c) "\<not> v < 0xfd" "\<not> v \<le> 0xffff" "v \<le> 0xffffffff"
    | (d) "\<not> v < 0xfd" "\<not> v \<le> 0xffff" "\<not> v \<le> 0xffffffff" by blast
  then show ?thesis
  proof cases
    case a
    then have u: "unat (ucast v :: u8) = unat v"
      by (simp add: unsigned_ucast_eq take_bit_nat_eq_self word_less_nat_alt)
    then have "(ucast v :: u8) < 0xfd" using a by (simp add: word_less_nat_alt)
    moreover have "(ucast (ucast v :: u8) :: u64) = v"
      by (simp add: word_unat_eq_iff unat_ucast_up u)
    ultimately show ?thesis using a by (simp add: compact_size_def dec_compact_def)
  qed (simp_all add: compact_size_def dec_compact_def word_le_nat_alt)
qed

interpretation compact_codec: codec compact_size dec_compact "\<lambda>_. True"
  by unfold_locales (rule dec_compact_compact)

interpretation output_codec: codec ser_output dec_output valid_output
  by unfold_locales
    (simp add: ser_output_def dec_output_def valid_output_def dec_compact_compact unat_of_nat)

interpretation input_codec: codec ser_input dec_input valid_input
  by unfold_locales (simp add: ser_input_def dec_input_def valid_input_def)

interpretation tx_codec: codec ser_tx dec_tx valid_tx
  by unfold_locales
    (simp add: ser_tx_def dec_tx_def valid_tx_def dec_compact_compact unat_of_nat
      input_codec.dec_many_enc output_codec.dec_many_enc)

text \<open>Serialisation loses nothing: the decoder recovers every transaction from its bytes,
  so two different transactions never have the same bytes, and the id commits to all of
  version, inputs, outputs and lock time.\<close>

lemma ser_tx_round_trip:
  assumes "valid_tx t"
  shows "dec_tx (ser_tx t) = Some (t, []) \<and> (\<forall>t'. valid_tx t' \<longrightarrow> ser_tx t' = ser_tx t \<longrightarrow> t' = t)"
  using tx_codec.dec_enc[OF assms, of "[]"] tx_codec.enc_inj[OF _ assms] by simp

section \<open>Signature hashes\<close>

text \<open>The BIP-341 key-path message (SIGHASH_DEFAULT, no annex), on the record.\<close>

definition bip341_msg :: "(bytes \<Rightarrow> bytes) \<Rightarrow> tx \<Rightarrow> u32 \<Rightarrow> (bytes \<times> u64) list \<Rightarrow> bytes" where
  "bip341_msg sha t idx prevs =
     [0, 0] @ le_bytes 4 (tx_version t) @ le_bytes 4 (tx_locktime t)
     @ sha (concat (map (\<lambda>i. prev_txid i @ le_bytes 4 (prev_vout i)) (tx_ins t)))
     @ sha (concat (map (\<lambda>(spk, amt). le_bytes 8 amt) prevs))
     @ sha (concat (map (\<lambda>(spk, amt). compact_size (of_nat (length spk)) @ spk) prevs))
     @ sha (concat (map (\<lambda>i. le_bytes 4 (nsequence i)) (tx_ins t)))
     @ sha (concat (map ser_output (tx_outs t)))
     @ [0] @ le_bytes 4 idx"

lemma compact_size_small: "n < 0xfd \<Longrightarrow> compact_size (of_nat n) = [of_nat n]"
proof -
  assume n: "n < 0xfd"
  then have u: "unat (of_nat n :: u64) = n" and v: "unat (of_nat n :: u8) = n" by (simp_all add: unat_of_nat)
  with n have "(ucast (of_nat n :: u64) :: u8) = of_nat n"
    by (simp add: word_unat_eq_iff unat_ucast_small)
  then show ?thesis using n u by (simp add: compact_size_def word_less_nat_alt)
qed

lemma compact_size_medium:
  "0xfd \<le> n \<Longrightarrow> n \<le> 0xffff \<Longrightarrow> compact_size (of_nat n) = 0xfd # le_bytes 2 (of_nat n :: u64)"
  by (simp add: compact_size_def word_less_nat_alt word_le_nat_alt unat_of_nat)

text \<open>The one-input transactions the program signs.\<close>

abbreviation one_input_tx :: "u32 \<Rightarrow> tx_input \<Rightarrow> tx_output list \<Rightarrow> u32 \<Rightarrow> tx" where
  "one_input_tx v i outs lt \<equiv> \<lparr>tx_version = v, tx_ins = [i], tx_outs = outs, tx_locktime = lt\<rparr>"

lemma ser_tx_one_input:
  "ser_tx (one_input_tx v i outs lt) =
     le_bytes 4 v @ [1] @ (prev_txid i @ le_bytes 4 (prev_vout i)) @ [0] @ le_bytes 4 (nsequence i)
     @ compact_size (of_nat (length outs)) @ concat (map ser_output outs) @ le_bytes 4 lt"
  by (simp add: ser_tx_def ser_input_def compact_size_def)

lemma ser_tx_tail: "take 4 (drop (length (ser_tx t) - 4) (ser_tx t)) = le_bytes 4 (tx_locktime t)"
  by (simp add: ser_tx_def)

lemma taproot_sighash_msg:
  assumes "valid_input i" and "length outs < 253" and "length spk < 253"
  shows "compute_taproot_sighash alloc sha (ser_tx (one_input_tx v i outs lt)) idx spk amt (nsequence i) =
         (if alloc (1 + length spk) then Some (sha256_tagged sha ''TapSighash'' (bip341_msg sha (one_input_tx v i outs lt) idx [(spk, amt)])) else None)"
proof -
  have l: "length (prev_txid i) = 32" using assms(1) by (simp add: valid_input_def)
  show ?thesis
    unfolding compute_taproot_sighash_def Let_def bip341_msg_def ser_tx_tail unfolding ser_tx_one_input
    using assms(2,3) l by (simp add: compact_size_small bytes_simps)
qed

text \<open>C30: The key-path signature hash is the one of BIP-341: reading the built bytes at its
  fixed offsets, \<open>compute_taproot_sighash\<close> hashes exactly the specified message of the
  transaction, for every one-input transaction with fewer than 253 outputs and a spent script
  shorter than 253 bytes; it fails only when its one allocation does.\<close>

theorem compute_taproot_sighash_bip341:
  assumes "valid_input i" and "length outs < 253" and "length spk < 253"
  shows "compute_taproot_sighash alloc sha (ser_tx (one_input_tx v i outs lt)) idx spk amt (nsequence i) =
         (if alloc (1 + length spk) then Some (sha256_tagged sha ''TapSighash'' (bip341_msg sha (one_input_tx v i outs lt) idx [(spk, amt)])) else None)"
  by (rule taproot_sighash_msg[OF assms])

theorem compute_taproot_sighash_bip341_witness:
  "compute_taproot_sighash (\<lambda>_. True) (\<lambda>_. replicate 32 3)
     (ser_tx (one_input_tx 2 \<lparr>prev_txid = replicate 32 1, prev_vout = 0, nsequence = 5\<rparr> [] 0)) 0 [0x51] 7
     (nsequence \<lparr>prev_txid = replicate 32 1, prev_vout = 0, nsequence = 5\<rparr>) =
   Some (sha256_tagged (\<lambda>_. replicate 32 3) ''TapSighash'' (bip341_msg (\<lambda>_. replicate 32 3)
     (one_input_tx 2 \<lparr>prev_txid = replicate 32 1, prev_vout = 0, nsequence = 5\<rparr> [] 0) 0 [([0x51], 7)]))"
  by (subst compute_taproot_sighash_bip341) (simp_all add: valid_input_def)

text \<open>With 253 to 65535 outputs the fixed offset is wrong: the output count then takes three
  bytes and \<open>compute_taproot_sighash\<close> hashes its last two bytes together with the outputs.
  A commitment transaction carries up to 483 HTLC outputs, so this size can occur.\<close>

lemma compute_taproot_sighash_many_outputs:
  assumes "valid_input i" and "253 \<le> length outs" and "length outs \<le> 65535" and "length spk < 253"
  shows "compute_taproot_sighash (\<lambda>_. True) sha (ser_tx (one_input_tx v i outs lt)) idx spk amt (nsequence i) =
         Some (sha256_tagged sha ''TapSighash''
           ([0, 0] @ le_bytes 4 v @ le_bytes 4 lt @ sha (prev_txid i @ le_bytes 4 (prev_vout i))
            @ sha (le_bytes 8 amt) @ sha (of_nat (length spk) # spk) @ sha (le_bytes 4 (nsequence i))
            @ sha (le_bytes 2 (of_nat (length outs) :: u64) @ concat (map ser_output outs))
            @ [0] @ le_bytes 4 idx))"
proof -
  have l: "length (prev_txid i) = 32" using assms(1) by (simp add: valid_input_def)
  show ?thesis
    unfolding compute_taproot_sighash_def Let_def ser_tx_tail unfolding ser_tx_one_input
    using assms(2-4) l by (simp add: compact_size_medium bytes_simps)
qed

section \<open>Several inputs\<close>

lemma length_compact_size: "length (compact_size v) = varint_size v"
  by (simp add: compact_size_def varint_size_def)

lemma compact_size_head:
  "compact_size v = b # r \<Longrightarrow>
   (if b < 0xfd then 1 else if b = 0xfd then 3 else if b = 0xfe then 5 else 9) = varint_size v"
proof -
  assume c: "compact_size v = b # r"
  show ?thesis
  proof (cases "v < 0xfd")
    case True
    then have "b < 0xfd"
      using c by (auto simp: compact_size_def word_less_nat_alt unat_ucast_small)
    with True show ?thesis by (simp add: varint_size_def)
  next
    case False
    with c show ?thesis by (auto simp: compact_size_def varint_size_def split: if_splits)
  qed
qed

lemma length_ser_input: "valid_input i \<Longrightarrow> length (ser_input i) = 41"
  by (simp add: ser_input_def valid_input_def)

lemma length_ser_inputs: "list_all valid_input ins \<Longrightarrow> length (concat (map ser_input ins)) = 41 * length ins"
  by (induction ins) (simp_all add: length_ser_input)

lemma nth_input_outpoint:
  "list_all valid_input ins \<Longrightarrow> j < length ins \<Longrightarrow>
   take 36 (drop (41 * j) (concat (map ser_input ins) @ r)) = prev_txid (ins ! j) @ le_bytes 4 (prev_vout (ins ! j))"
proof (induction ins arbitrary: j)
  case (Cons i ins)
  show ?case
  proof (cases j)
    case 0
    with Cons.prems show ?thesis by (simp add: ser_input_def valid_input_def)
  next
    case (Suc k)
    have "drop (41 * Suc k) (concat (map ser_input (i # ins)) @ r) = drop (41 * k) (concat (map ser_input ins) @ r)"
      using Cons.prems by (simp add: length_ser_input)
    with Suc Cons show ?thesis by simp
  qed
qed simp

lemma map_upt_nth: "map (\<lambda>j. f (xs ! j)) [0..<length xs] = map f xs"
  by (rule nth_equalityI) simp_all

lemma ser_tx_outpoints:
  assumes v: "list_all valid_input (tx_ins t)"
  shows "concat (map (\<lambda>j. take 36 (drop (4 + varint_size (of_nat (length (tx_ins t))) + (32 + 4 + 1 + 4) * j) (ser_tx t)))
           [0..<length (tx_ins t)])
         = concat (map (\<lambda>i. prev_txid i @ le_bytes 4 (prev_vout i)) (tx_ins t))"
proof -
  let ?ins = "tx_ins t" and ?s = "4 + varint_size (of_nat (length (tx_ins t)))"
  have "map (\<lambda>j. take 36 (drop (?s + (32 + 4 + 1 + 4) * j) (ser_tx t))) [0..<length ?ins]
      = map (\<lambda>j. prev_txid (?ins ! j) @ le_bytes 4 (prev_vout (?ins ! j))) [0..<length ?ins]"
  proof (rule map_cong[OF refl])
    fix j assume "j \<in> set [0..<length ?ins]"
    then have j: "j < length ?ins" by simp
    have "drop (?s + (32 + 4 + 1 + 4) * j) (ser_tx t) = drop (41 * j) (drop ?s (ser_tx t))" by (simp add: add.commute)
    also have "drop ?s (ser_tx t) = concat (map ser_input ?ins) @ compact_size (of_nat (length (tx_outs t)))
        @ concat (map ser_output (tx_outs t)) @ le_bytes 4 (tx_locktime t)"
      by (simp add: ser_tx_def length_compact_size)
    finally show "take 36 (drop (?s + (32 + 4 + 1 + 4) * j) (ser_tx t))
        = prev_txid (?ins ! j) @ le_bytes 4 (prev_vout (?ins ! j))"
      by (simp only: nth_input_outpoint[OF v j])
  qed
  also have "\<dots> = map (\<lambda>i. prev_txid i @ le_bytes 4 (prev_vout i)) ?ins" by (rule map_upt_nth)
  finally show ?thesis by simp
qed

text \<open>The per-input arrays of the caller, from the spent outputs and the inputs.\<close>

definition prev_triples :: "(bytes \<times> u64) list \<Rightarrow> tx_input list \<Rightarrow> (bytes \<times> u64 \<times> u32) list" where
  "prev_triples prevs ins = map (\<lambda>((spk, amt), i). (spk, amt, nsequence i)) (zip prevs ins)"

lemma prev_triples_maps:
  assumes "length prevs = length ins" and "list_all (\<lambda>p. length (fst p) < 253) prevs"
  shows "length (prev_triples prevs ins) = length ins"
    and "\<not> (\<exists>p\<in>set (prev_triples prevs ins). length (fst p) \<ge> 0xfd)"
    and "map (\<lambda>(spk, amt, sq). write_u64_le amt) (prev_triples prevs ins) = map (\<lambda>(spk, amt). le_bytes 8 amt) prevs"
    and "map (\<lambda>(spk, amt, sq). of_nat (length spk) # spk) (prev_triples prevs ins)
         = map (\<lambda>(spk, amt). compact_size (of_nat (length spk)) @ spk) prevs"
    and "map (\<lambda>(spk, amt, sq). write_u32_le sq) (prev_triples prevs ins) = map (\<lambda>i. le_bytes 4 (nsequence i)) ins"
  using assms unfolding prev_triples_def
  by (induction prevs ins rule: list_induct2) (auto simp: bytes_simps compact_size_small not_le)

text \<open>The several-input signature hash also agrees with BIP-341, with no bound on the number
  of outputs: given the spent outputs of all inputs in order and memory enough, \<open>compute_taproot_sighash_multi\<close>
  succeeds and hashes the specified message.\<close>

lemma compute_taproot_sighash_multi_bip341:
  assumes "valid_tx t" and "idx < length (tx_ins t)" and "length prevs = length (tx_ins t)"
    and "list_all (\<lambda>p. length (fst p) < 253) prevs" and "\<And>n. alloc n"
  shows "compute_taproot_sighash_multi alloc sha (ser_tx t) idx (prev_triples prevs (tx_ins t)) =
         Some (sha256_tagged sha ''TapSighash'' (bip341_msg sha t (of_nat idx) prevs))"
proof -
  let ?n = "length (tx_ins t)" and ?tx = "ser_tx t"
  let ?is = "4 + varint_size (of_nat ?n)"
  define A where "A = le_bytes 4 (tx_version t) @ compact_size (of_nat ?n) @ concat (map ser_input (tx_ins t))"
  define C where "C = compact_size (of_nat (length (tx_outs t)))"
  define Q where "Q = concat (map ser_output (tx_outs t))"
  have tx: "?tx = A @ C @ Q @ le_bytes 4 (tx_locktime t)" by (simp add: ser_tx_def A_def C_def Q_def)
  have v: "list_all valid_input (tx_ins t)" using assms(1) by (simp add: valid_tx_def)
  have lA: "length A = ?is + (32 + 4 + 1 + 4) * ?n"
    using v by (simp add: A_def length_compact_size length_ser_inputs)
  obtain b r where b: "C = b # r" by (cases C) (auto simp: C_def compact_size_def split: if_splits)
  have b0: "?tx ! (?is + (32 + 4 + 1 + 4) * ?n) = b" unfolding lA[symmetric] by (simp add: tx nth_append b)
  have bl: "(if b < 0xfd then 1 else if b = 0xfd then 3 else if b = 0xfe then 5 else 9) = length C"
    using compact_size_head[OF b[unfolded C_def]] by (simp only: C_def length_compact_size)
  have outs: "take (length ?tx - 4 - (?is + (32 + 4 + 1 + 4) * ?n + length C)) (drop (?is + (32 + 4 + 1 + 4) * ?n + length C) ?tx) = Q"
    unfolding lA[symmetric] by (simp add: tx)
  have ver: "take 4 ?tx = le_bytes 4 (tx_version t)" by (simp add: ser_tx_def)
  have len: "length ?tx = ?is + 41 * ?n + length C + length Q + 4" using lA by (simp add: tx)
  have ne: "tx_ins t \<noteq> []" using assms(2) by auto
  show ?thesis
    unfolding compute_taproot_sighash_multi_def Let_def prev_triples_maps[OF assms(3,4)]
      ser_tx_tail ser_tx_outpoints[OF v] b0 bl outs ver
    using assms(2,5) len ne prev_triples_maps(2)[OF assms(3,4)] by (simp add: bip341_msg_def bytes_simps Q_def)
qed

section \<open>Witnesses\<close>

text \<open>The segwit serialisation with one witness stack per input.\<close>

definition ser_segwit :: "tx \<Rightarrow> bytes list list \<Rightarrow> bytes" where
  "ser_segwit t stacks =
     le_bytes 4 (tx_version t) @ [0, 1]
     @ compact_size (of_nat (length (tx_ins t))) @ concat (map ser_input (tx_ins t))
     @ compact_size (of_nat (length (tx_outs t))) @ concat (map ser_output (tx_outs t))
     @ concat (map (\<lambda>items. compact_size (of_nat (length items))
                  @ concat (map (\<lambda>w. compact_size (of_nat (length w)) @ w) items)) stacks)
     @ le_bytes 4 (tx_locktime t)"

definition tx_body :: "tx \<Rightarrow> bytes" where
  "tx_body t =
     compact_size (of_nat (length (tx_ins t))) @ concat (map ser_input (tx_ins t))
     @ compact_size (of_nat (length (tx_outs t))) @ concat (map ser_output (tx_outs t))"

lemma ser_tx_body: "ser_tx t = le_bytes 4 (tx_version t) @ tx_body t @ le_bytes 4 (tx_locktime t)"
  by (simp add: ser_tx_def tx_body_def)

lemma ser_tx_parts:
  "take 4 (ser_tx t) = le_bytes 4 (tx_version t)"
  "take (length (ser_tx t) - 8) (drop 4 (ser_tx t)) = tx_body t"
  "drop (length (ser_tx t) - 4) (ser_tx t) = le_bytes 4 (tx_locktime t)"
  "length (ser_tx t) \<ge> 8"
  by (simp_all add: ser_tx_body)

lemma length_sig64_drop: "64 * Suc n \<le> length sigs \<Longrightarrow> 64 * n \<le> length (drop 64 sigs)"
  by simp

fun sig_chunks :: "bytes \<Rightarrow> nat \<Rightarrow> bytes list" where
  "sig_chunks sigs 0 = []"
| "sig_chunks sigs (Suc n) = varint_chunks 1 @ varint_chunks 64 @ [take 64 sigs] @ sig_chunks (drop 64 sigs) n"

lemma write_sigs_chunks:
  "64 * n \<le> length sigs \<Longrightarrow> write_sigs alloc sigs n b = buf_writes alloc (sig_chunks sigs n) b"
  by (induction n arbitrary: sigs b) (simp_all add: bytes_simps write_bytes_append buf_writes_append)

fun sig_list :: "bytes \<Rightarrow> nat \<Rightarrow> bytes list" where
  "sig_list sigs 0 = []"
| "sig_list sigs (Suc n) = take 64 sigs # sig_list (drop 64 sigs) n"

lemma concat_sig_chunks:
  "64 * n \<le> length sigs \<Longrightarrow>
   concat (sig_chunks sigs n) = concat (map (\<lambda>s. compact_size 1 @ compact_size (of_nat (length s)) @ s) (sig_list sigs n))"
  by (induction n arbitrary: sigs) simp_all

lemma finalize_signed_tx_is_multi:
  "8 \<le> length tx \<Longrightarrow> finalize_signed_tx alloc out tx sig64 = finalize_signed_tx_multi alloc out tx 1 sig64"
  by (simp add: finalize_signed_tx_def finalize_signed_tx_multi_def)

lemma write_tx_parts:
  "tx_buf_write_bytes alloc (ser_tx t) 4 = buf_append alloc (le_bytes 4 (tx_version t))"
  "tx_buf_write_bytes alloc (drop 4 (ser_tx t)) (length (ser_tx t) - 8) = buf_append alloc (tx_body t)"
  "tx_buf_write_bytes alloc (drop (length (ser_tx t) - 4) (ser_tx t)) 4 = buf_append alloc (le_bytes 4 (tx_locktime t))"
proof -
  have l: "length (ser_tx t) - 8 \<le> length (drop 4 (ser_tx t))" "4 \<le> length (ser_tx t)" using ser_tx_parts(4)[of t] by simp_all
  show "tx_buf_write_bytes alloc (ser_tx t) 4 = buf_append alloc (le_bytes 4 (tx_version t))"
    by (simp add: write_bytes_append[OF l(2)] ser_tx_parts)
  show "tx_buf_write_bytes alloc (drop 4 (ser_tx t)) (length (ser_tx t) - 8) = buf_append alloc (tx_body t)"
    by (simp add: write_bytes_append[OF l(1)] ser_tx_parts)
  show "tx_buf_write_bytes alloc (drop (length (ser_tx t) - 4) (ser_tx t)) 4 = buf_append alloc (le_bytes 4 (tx_locktime t))"
    unfolding ser_tx_parts(3) by (simp add: write_bytes_append)
qed

lemma finalize_signed_tx_multi_chunks:
  assumes "0 < n" and "64 * n \<le> length sigs"
  shows "finalize_signed_tx_multi alloc out (ser_tx t) n sigs =
    (let b = buf_writes alloc ([le_bytes 4 (tx_version t), [0], [1], tx_body t] @ sig_chunks sigs n @ [le_bytes 4 (tx_locktime t)])
               (tx_buf_reset out)
     in (\<not> oom b, b))"
proof -
  have n: "n \<noteq> 0" "\<not> length (ser_tx t) < 8" using assms(1) ser_tx_parts(4)[of t] by simp_all
  show ?thesis
    unfolding finalize_signed_tx_multi_def if_not_P[OF n(1)] if_not_P[OF n(2)] Let_def write_tx_parts
      write_u8_append write_sigs_chunks[OF assms(2)]
    by (simp add: buf_writes_append)
qed

text \<open>The finalised transaction is the segwit form of the unsigned one: from the bytes of
  any transaction, \<open>finalize_signed_tx_multi\<close> either reports failure with the out-of-memory
  flag set or produces the same version, inputs, outputs and lock time with one
  single-signature witness stack per input, in input order; it succeeds when the
  allocator grants every request.\<close>

lemma finalize_signed_tx_multi_segwit:
  assumes "0 < n" and "64 * n \<le> length sigs"
  shows "(case finalize_signed_tx_multi alloc out (ser_tx t) n sigs of (ok, b) \<Rightarrow>
            (if ok then buf_data b = ser_segwit t (map (\<lambda>s. [s]) (sig_list sigs n)) else oom b))
         \<and> ((\<forall>k. alloc k) \<longrightarrow> fst (finalize_signed_tx_multi alloc out (ser_tx t) n sigs))"
proof -
  let ?xs = "[le_bytes 4 (tx_version t), [0], [1], tx_body t] @ sig_chunks sigs n @ [le_bytes 4 (tx_locktime t)]"
  let ?b = "buf_writes alloc ?xs (tx_buf_reset out)"
  have e: "finalize_signed_tx_multi alloc out (ser_tx t) n sigs = (\<not> oom ?b, ?b)"
    unfolding finalize_signed_tx_multi_chunks[OF assms] Let_def by (rule refl)
  have c: "concat ?xs = ser_segwit t (map (\<lambda>s. [s]) (sig_list sigs n))"
    using assms(2) by (simp add: concat_sig_chunks ser_segwit_def tx_body_def comp_def)
  have "\<not> oom ?b \<Longrightarrow> buf_data ?b = ser_segwit t (map (\<lambda>s. [s]) (sig_list sigs n))"
    unfolding c[symmetric] by (rule writes_result)
  moreover have "(\<forall>k. alloc k) \<Longrightarrow> \<not> oom ?b" by (rule buf_writes_total) simp_all
  ultimately show ?thesis unfolding e by simp
qed

end
