(* ===== verification/Tapscript.thy ===== *)
theory Tapscript
  imports Tx_Builder
begin

text \<open>
  Taproot scripts, \<^verbatim>\<open>src/tapscript.c\<close>: the script leaves of the factory and of the channels,
  leaf and branch hashes, output keys, control blocks, the script-path signature hash,
  the script-path finalisers, and the BIP-119 template hash with the covenant leaf.

  The elliptic-curve operations are libsecp256k1's.  They come in the record \<open>secp\<close>, an
  argument of the definitions that use them, over abstract types of public keys,
  x-only keys and MuSig2 aggregation caches; \<open>sha256\<close> in it is OpenSSL's.  The x-only
  serialisation is total, as libsecp256k1 documents.
\<close>

section \<open>Model\<close>

record ('pk, 'xo, 'ca) secp =
  sha256 :: "bytes \<Rightarrow> bytes"
  xonly_serialize :: "'xo \<Rightarrow> bytes"
  xonly_from_pubkey :: "'pk \<Rightarrow> ('xo \<times> bool) option"
  xonly_tweak_add :: "'xo \<Rightarrow> bytes \<Rightarrow> 'pk option"
  musig_pubkey_agg :: "'pk list \<Rightarrow> ('xo \<times> 'ca) option"
  musig_pubkey_xonly_tweak_add :: "'ca \<Rightarrow> bytes \<Rightarrow> 'pk option"

record tapscript_leaf =
  leaf_script :: bytes
  leaf_hash :: bytes

definition TAPSCRIPT_LEAF_VERSION :: u8 where
  "TAPSCRIPT_LEAF_VERSION = 0xc0"

definition build_p2tr_script_pubkey :: "('pk, 'xo, 'ca) secp \<Rightarrow> 'xo \<Rightarrow> bytes" where
  "build_p2tr_script_pubkey E key = [0x51, 0x20] @ xonly_serialize E key"

text \<open>The byte loop \<^verbatim>\<open>while (v > 0)\<close> of \<^verbatim>\<open>encode_scriptnum\<close>.\<close>

function scriptnum_loop :: "u32 \<Rightarrow> bytes" where
  "scriptnum_loop v = (if v > 0 then ucast (v AND 0xff) # scriptnum_loop (drop_bit 8 v) else [])"
  by pat_completeness auto
termination
proof (relation "measure unat")
  fix v :: u32
  assume "v > 0"
  then have "0 < unat v" by (simp add: word_less_nat_alt)
  moreover have "unat (drop_bit 8 v) = unat v div 256"
    by (simp add: drop_bit_eq_div unat_div)
  ultimately show "(drop_bit 8 v, v) \<in> measure unat" by simp
qed simp

declare scriptnum_loop.simps [simp del]

definition encode_scriptnum :: "u32 \<Rightarrow> bytes" where
  "encode_scriptnum val =
     (if val = 0 then [0x00]
      else if val \<le> 16 then [0x50 + ucast val]
      else let tmp = scriptnum_loop val;
               tmp = (if last tmp AND 0x80 \<noteq> 0 then tmp @ [0x00] else tmp)
           in of_nat (length tmp) # tmp)"

text \<open>The scratch buffer of the leaf hash is taken to be allocated; without it the code sets the hash to zeros and goes on.\<close>

definition tapscript_compute_leaf_hash :: "('pk, 'xo, 'ca) secp \<Rightarrow> bytes \<Rightarrow> tapscript_leaf" where
  "tapscript_compute_leaf_hash E script =
     \<lparr>leaf_script = script,
      leaf_hash = sha256_tagged (sha256 E) ''TapLeaf'' ([TAPSCRIPT_LEAF_VERSION, of_nat (length script)] @ script)\<rparr>"

definition tapscript_build_hashlock :: "('pk, 'xo, 'ca) secp \<Rightarrow> bytes \<Rightarrow> tapscript_leaf" where
  "tapscript_build_hashlock E hash32 =
     tapscript_compute_leaf_hash E ([0x82, 0x01, 0x20, 0x88, 0xa8, 0x20] @ take 32 hash32 @ [0x87])"

definition tapscript_build_cltv_timeout :: "('pk, 'xo, 'ca) secp \<Rightarrow> u32 \<Rightarrow> 'xo \<Rightarrow> tapscript_leaf" where
  "tapscript_build_cltv_timeout E locktime lsp_pubkey =
     tapscript_compute_leaf_hash E
       (encode_scriptnum locktime @ [0xb1, 0x75, 0x20] @ xonly_serialize E lsp_pubkey @ [0xac])"

definition tapscript_build_csv_delay :: "('pk, 'xo, 'ca) secp \<Rightarrow> u32 \<Rightarrow> 'xo \<Rightarrow> tapscript_leaf" where
  "tapscript_build_csv_delay E delay pubkey =
     tapscript_compute_leaf_hash E
       (encode_scriptnum delay @ [0xb2, 0x75, 0x20] @ xonly_serialize E pubkey @ [0xac])"

definition tapscript_build_revocation_checksig :: "('pk, 'xo, 'ca) secp \<Rightarrow> 'xo \<Rightarrow> tapscript_leaf" where
  "tapscript_build_revocation_checksig E revocation_pubkey =
     tapscript_compute_leaf_hash E ([0x20] @ xonly_serialize E revocation_pubkey @ [0xac])"

definition tapscript_build_htlc_offered_success :: "('pk, 'xo, 'ca) secp \<Rightarrow> bytes \<Rightarrow> 'xo \<Rightarrow> tapscript_leaf" where
  "tapscript_build_htlc_offered_success E payment_hash32 remote_htlcpubkey =
     tapscript_compute_leaf_hash E
       ([0x82, 0x01, 0x20, 0x88, 0xa8, 0x20] @ take 32 payment_hash32 @ [0x88, 0x20]
        @ xonly_serialize E remote_htlcpubkey @ [0xac])"

definition tapscript_build_htlc_offered_timeout :: "('pk, 'xo, 'ca) secp \<Rightarrow> u32 \<Rightarrow> u32 \<Rightarrow> 'xo \<Rightarrow> tapscript_leaf" where
  "tapscript_build_htlc_offered_timeout E cltv_expiry to_self_delay local_htlcpubkey =
     tapscript_compute_leaf_hash E
       (encode_scriptnum cltv_expiry @ [0xb1, 0x75] @ encode_scriptnum to_self_delay @ [0xb2, 0x75, 0x20]
        @ xonly_serialize E local_htlcpubkey @ [0xac])"

definition tapscript_build_htlc_received_success :: "('pk, 'xo, 'ca) secp \<Rightarrow> bytes \<Rightarrow> u32 \<Rightarrow> 'xo \<Rightarrow> tapscript_leaf" where
  "tapscript_build_htlc_received_success E payment_hash32 to_self_delay local_htlcpubkey =
     tapscript_compute_leaf_hash E
       ([0x82, 0x01, 0x20, 0x88, 0xa8, 0x20] @ take 32 payment_hash32 @ [0x88]
        @ encode_scriptnum to_self_delay @ [0xb2, 0x75, 0x20] @ xonly_serialize E local_htlcpubkey @ [0xac])"

definition tapscript_build_htlc_received_timeout :: "('pk, 'xo, 'ca) secp \<Rightarrow> u32 \<Rightarrow> 'xo \<Rightarrow> tapscript_leaf" where
  "tapscript_build_htlc_received_timeout E cltv_expiry remote_htlcpubkey =
     tapscript_build_cltv_timeout E cltv_expiry remote_htlcpubkey"

text \<open>\<^verbatim>\<open>memcmp(a, b, 32) <= 0\<close> on byte strings of the same length.\<close>

fun memcmp_le :: "bytes \<Rightarrow> bytes \<Rightarrow> bool" where
  "memcmp_le (a # as) (b # bs) = (if a < b then True else if a > b then False else memcmp_le as bs)"
| "memcmp_le _ _ = True"

text \<open>The branch hash: the smaller child first.\<close>

definition tap_branch :: "('pk, 'xo, 'ca) secp \<Rightarrow> bytes \<Rightarrow> bytes \<Rightarrow> bytes" where
  "tap_branch E l r =
     sha256_tagged (sha256 E) ''TapBranch'' (if memcmp_le l r then l @ r else r @ l)"

function tapscript_merkle_root :: "('pk, 'xo, 'ca) secp \<Rightarrow> tapscript_leaf list \<Rightarrow> bytes option" where
  "tapscript_merkle_root E leaves =
     (if leaves = [] then None
      else if length leaves = 1 then Some (leaf_hash (leaves ! 0))
      else if length leaves = 2 then Some (tap_branch E (leaf_hash (leaves ! 0)) (leaf_hash (leaves ! 1)))
      else let mid = length leaves div 2 in
        (case tapscript_merkle_root E (take mid leaves) of None \<Rightarrow> None
         | Some left_root \<Rightarrow>
            (case tapscript_merkle_root E (drop mid leaves) of None \<Rightarrow> None
             | Some right_root \<Rightarrow> Some (tap_branch E left_root right_root))))"
  by pat_completeness auto
termination
  by (relation "measure (\<lambda>(E, leaves). length leaves)") (auto simp: Suc_lessI)

declare tapscript_merkle_root.simps [simp del]

definition tapscript_tweak_pubkey :: "('pk, 'xo, 'ca) secp \<Rightarrow> 'xo \<Rightarrow> bytes \<Rightarrow> ('xo \<times> bool) option" where
  "tapscript_tweak_pubkey E internal_key merkle_root32 =
     (let tweak = sha256_tagged (sha256 E) ''TapTweak'' (xonly_serialize E internal_key @ take 32 merkle_root32) in
      case xonly_tweak_add E internal_key tweak of None \<Rightarrow> None
      | Some tweaked_full \<Rightarrow> xonly_from_pubkey E tweaked_full)"

definition tapscript_build_control_block :: "('pk, 'xo, 'ca) secp \<Rightarrow> bool \<Rightarrow> 'xo \<Rightarrow> bytes" where
  "tapscript_build_control_block E output_parity internal_key =
     (TAPSCRIPT_LEAF_VERSION OR of_bool output_parity) # xonly_serialize E internal_key"

definition tapscript_build_control_block_2leaf ::
  "('pk, 'xo, 'ca) secp \<Rightarrow> bool \<Rightarrow> 'xo \<Rightarrow> tapscript_leaf \<Rightarrow> bytes" where
  "tapscript_build_control_block_2leaf E output_parity internal_key sibling_leaf =
     (TAPSCRIPT_LEAF_VERSION OR of_bool output_parity) # xonly_serialize E internal_key @ leaf_hash sibling_leaf"

text \<open>The buffer for the serialised script is taken to be allocated; the code writes into it without looking.\<close>

definition compute_tapscript_sighash ::
  "(bytes \<Rightarrow> bytes) \<Rightarrow> bytes \<Rightarrow> u32 \<Rightarrow> bytes \<Rightarrow> u64 \<Rightarrow> u32 \<Rightarrow> tapscript_leaf \<Rightarrow> bytes" where
  "compute_tapscript_sighash sha tx input_index prev_spk prev_amount nseq leaf =
     (let nversion_le = take 4 tx;
          nlocktime_le = take 4 (drop (length tx - 4) tx);
          sha_prevouts = sha (take 36 (drop 5 tx));
          sha_amounts = sha (write_u64_le prev_amount);
          sha_scriptpubkeys = sha (of_nat (length prev_spk) # prev_spk);
          sha_sequences = sha (write_u32_le nseq);
          out_start = 46 + 1;
          sha_outputs = sha (take (length tx - 4 - out_start) (drop out_start tx));
          msg = [0, 0] @ nversion_le @ nlocktime_le @ sha_prevouts @ sha_amounts @ sha_scriptpubkeys
                @ sha_sequences @ sha_outputs @ [2] @ write_u32_le input_index
                @ leaf_hash leaf @ [0] @ write_u32_le 0xFFFFFFFF
      in sha256_tagged sha ''TapSighash'' msg)"

text \<open>Unlike the builders of \<^verbatim>\<open>tx_builder.c\<close>, this one does not look at the out-of-memory flag.\<close>

definition build_unsigned_tx_locktime ::
  "(nat \<Rightarrow> bool) \<Rightarrow> (bytes \<Rightarrow> bytes) \<Rightarrow> tx_buf \<Rightarrow> bool \<Rightarrow> bytes \<Rightarrow> u32 \<Rightarrow> u32 \<Rightarrow> u32 \<Rightarrow> tx_output list
   \<Rightarrow> bool \<times> tx_buf \<times> bytes option" where
  "build_unsigned_tx_locktime alloc sha out want_txid input_txid input_vout nseq nlocktime outputs =
     (let b = tx_buf_reset out;
          b = tx_buf_write_u32_le alloc 2 b;
          b = tx_buf_write_varint alloc 1 b;
          b = tx_buf_write_bytes alloc input_txid 32 b;
          b = tx_buf_write_u32_le alloc input_vout b;
          b = tx_buf_write_varint alloc 0 b;
          b = tx_buf_write_u32_le alloc nseq b;
          b = tx_buf_write_varint alloc (of_nat (length outputs)) b;
          b = write_outputs alloc outputs b;
          b = tx_buf_write_u32_le alloc nlocktime b
      in (True, b, if want_txid then Some (txid_of sha (buf_data b)) else None))"

definition finalize_script_path_tx ::
  "(nat \<Rightarrow> bool) \<Rightarrow> tx_buf \<Rightarrow> bytes \<Rightarrow> bytes \<Rightarrow> bytes \<Rightarrow> bytes \<Rightarrow> tx_buf" where
  "finalize_script_path_tx alloc out tx sig64 script control_block =
     (let b = tx_buf_reset out;
          b = tx_buf_write_bytes alloc tx 4 b;
          b = tx_buf_write_u8 alloc 0 b;
          b = tx_buf_write_u8 alloc 1 b;
          b = tx_buf_write_bytes alloc (drop 4 tx) (length tx - 8) b;
          b = tx_buf_write_varint alloc 3 b;
          b = tx_buf_write_varint alloc 64 b;
          b = tx_buf_write_bytes alloc sig64 64 b;
          b = tx_buf_write_varint alloc (of_nat (length script)) b;
          b = tx_buf_write_bytes alloc script (length script) b;
          b = tx_buf_write_varint alloc (of_nat (length control_block)) b;
          b = tx_buf_write_bytes alloc control_block (length control_block) b;
          b = tx_buf_write_bytes alloc (drop (length tx - 4) tx) 4 b
      in b)"

definition finalize_script_path_tx_preimage ::
  "(nat \<Rightarrow> bool) \<Rightarrow> tx_buf \<Rightarrow> bytes \<Rightarrow> bytes \<Rightarrow> bytes \<Rightarrow> bytes \<Rightarrow> bytes \<Rightarrow> tx_buf" where
  "finalize_script_path_tx_preimage alloc out tx sig64 preimage script control_block =
     (let b = tx_buf_reset out;
          b = tx_buf_write_bytes alloc tx 4 b;
          b = tx_buf_write_u8 alloc 0 b;
          b = tx_buf_write_u8 alloc 1 b;
          b = tx_buf_write_bytes alloc (drop 4 tx) (length tx - 8) b;
          b = tx_buf_write_varint alloc 4 b;
          b = tx_buf_write_varint alloc 64 b;
          b = tx_buf_write_bytes alloc sig64 64 b;
          b = tx_buf_write_varint alloc (of_nat (length preimage)) b;
          b = tx_buf_write_bytes alloc preimage (length preimage) b;
          b = tx_buf_write_varint alloc (of_nat (length script)) b;
          b = tx_buf_write_bytes alloc script (length script) b;
          b = tx_buf_write_varint alloc (of_nat (length control_block)) b;
          b = tx_buf_write_bytes alloc control_block (length control_block) b;
          b = tx_buf_write_bytes alloc (drop (length tx - 4) tx) 4 b
      in b)"

text \<open>
  The ANYONECANPAY signature hash walks the serialised transaction.  \<open>Malformed\<close> is a
  \<^verbatim>\<open>return 0\<close>; \<open>Overrun\<close> is a pointer moved past the end of the buffer, which the
  input loop does not exclude: it skips a scriptSig without comparing its length
  with what is left.
\<close>

datatype 'a parsed = Malformed | Overrun | Parsed 'a

definition rd_varint :: "bytes \<Rightarrow> (u64 \<times> nat) option" where
  "rd_varint p =
     (if length p < 1 then None
      else if p ! 0 < 0xfd then Some (ucast (p ! 0), 1)
      else if p ! 0 = 0xfd \<and> 3 \<le> length p then Some (ucast (p ! 1) OR push_bit 8 (ucast (p ! 2)), 3)
      else None)"

text \<open>The loop over the inputs: \<open>n\<close> inputs left, \<open>i\<close> the loop counter.\<close>

fun acp_inputs :: "nat \<Rightarrow> nat \<Rightarrow> u32 \<Rightarrow> bytes option \<Rightarrow> bytes \<Rightarrow> (bytes option \<times> bytes) parsed" where
  "acp_inputs 0 i input_index outpoint p = Parsed (outpoint, p)"
| "acp_inputs (Suc n) i input_index outpoint p =
     (if length p < 36 then Malformed
      else let outpoint = (if i = unat input_index then Some (take 36 p) else outpoint);
               p = drop 36 p
           in case rd_varint p of None \<Rightarrow> Malformed
              | Some (ss_len, vl) \<Rightarrow>
                  if length p < vl + unat ss_len then Overrun
                  else let p = drop (vl + unat ss_len) p in
                    if length p < 4 then Malformed
                    else acp_inputs n (i + 1) input_index outpoint (drop 4 p))"

text \<open>The loop over the outputs returns what follows the last one.\<close>

fun acp_outputs :: "nat \<Rightarrow> bytes \<Rightarrow> bytes option" where
  "acp_outputs 0 p = Some p"
| "acp_outputs (Suc n) p =
     (if length p < 8 then None
      else let p = drop 8 p in
        case rd_varint p of None \<Rightarrow> None
        | Some (spk_len, vl) \<Rightarrow>
            if length p < vl + unat spk_len then None
            else acp_outputs n (drop (vl + unat spk_len) p))"

definition compute_keypath_sighash_anyonecanpay ::
  "(nat \<Rightarrow> bool) \<Rightarrow> (bytes \<Rightarrow> bytes) \<Rightarrow> bytes \<Rightarrow> u32 \<Rightarrow> bytes \<Rightarrow> u64 \<Rightarrow> u32 \<Rightarrow> bytes parsed" where
  "compute_keypath_sighash_anyonecanpay alloc sha tx input_index prev_spk prev_amount nseq =
     (if length tx < 8 then Malformed
      else if prev_spk = [] \<or> length prev_spk > 10000 then Malformed
      else let nversion_le = take 4 tx;
               nlocktime_le = take 4 (drop (length tx - 4) tx);
               p = drop 4 tx
           in case rd_varint p of None \<Rightarrow> Malformed
              | Some (vin_count, vl) \<Rightarrow>
                (case acp_inputs (unat vin_count) 0 input_index None (drop vl p) of
                   Malformed \<Rightarrow> Malformed
                 | Overrun \<Rightarrow> Overrun
                 | Parsed (None, p) \<Rightarrow> Malformed
                 | Parsed (Some outpoint, p) \<Rightarrow>
                   (case rd_varint p of None \<Rightarrow> Malformed
                    | Some (vout_count, vl) \<Rightarrow>
                      let outputs_start = drop vl p in
                      (case acp_outputs (unat vout_count) outputs_start of None \<Rightarrow> Malformed
                       | Some p \<Rightarrow>
                         let sha_outputs = sha (take (length outputs_start - length p) outputs_start);
                             msg_len = 1 + 1 + 4 + 4 + 32 + 1 + 36 + 8 + 1 + length prev_spk + 4
                         in if \<not> alloc msg_len then Malformed
                         else
                         let msg = [0x00, 0x81] @ nversion_le @ nlocktime_le @ sha_outputs @ [0x00]
                                   @ outpoint @ write_u64_le prev_amount
                                   @ of_nat (length prev_spk) # prev_spk @ write_u32_le nseq
                         in Parsed (sha256_tagged sha ''TapSighash'' msg)))))"

definition ctv_write_u32_le :: "u32 \<Rightarrow> bytes" where
  "ctv_write_u32_le v =
     [ucast (v AND 0xff), ucast (drop_bit 8 v AND 0xff),
      ucast (drop_bit 16 v AND 0xff), ucast (drop_bit 24 v AND 0xff)]"

definition ctv_template_hash ::
  "(bytes \<Rightarrow> bytes) \<Rightarrow> i32 \<Rightarrow> u32 \<Rightarrow> u32 \<Rightarrow> bytes \<Rightarrow> u32 \<Rightarrow> bytes \<Rightarrow> u32 \<Rightarrow> bytes" where
  "ctv_template_hash sha version locktime input_count sequences_hash output_count outputs_hash input_index =
     sha (ctv_write_u32_le version @ ctv_write_u32_le locktime @ ctv_write_u32_le input_count
          @ take 32 sequences_hash @ ctv_write_u32_le output_count @ take 32 outputs_hash
          @ ctv_write_u32_le input_index)"

definition tapscript_build_ctv :: "('pk, 'xo, 'ca) secp \<Rightarrow> bytes \<Rightarrow> tapscript_leaf" where
  "tapscript_build_ctv E th = tapscript_compute_leaf_hash E ([0x20] @ take 32 th @ [0xb3])"

text \<open>The key aggregate: the x-only key and libsecp256k1's cache for tweaking and signing.\<close>

record ('xo, 'ca) musig_keyagg =
  agg_pubkey :: 'xo
  cache :: 'ca

text \<open>An aggregation that fails, in the library or for want of the array of pointers, answers nothing.  The parameter
  \<open>musig_pubkey_agg\<close> stands for both.\<close>

definition musig_aggregate_keys :: "('pk, 'xo, 'ca) secp \<Rightarrow> 'pk list \<Rightarrow> ('xo, 'ca) musig_keyagg option" where
  "musig_aggregate_keys E pubkeys =
     (case musig_pubkey_agg E pubkeys of None \<Rightarrow> None
      | Some (agg, ca) \<Rightarrow> Some \<lparr>agg_pubkey = agg, cache = ca\<rparr>)"

definition build_factory_funding_spk ::
  "('pk, 'xo, 'ca) secp \<Rightarrow> ('xo, 'ca) musig_keyagg \<Rightarrow> bytes option \<Rightarrow> tapscript_leaf option \<Rightarrow> bytes option" where
  "build_factory_funding_spk E ka ctv_th sweep_leaf =
     (let internal_ser = xonly_serialize E (agg_pubkey ka);
          tweak_msg =
            (case (ctv_th, sweep_leaf) of
               (None, None) \<Rightarrow> Some internal_ser
             | (Some th, None) \<Rightarrow> Some (internal_ser @ leaf_hash (tapscript_build_ctv E th))
             | (None, Some sweep) \<Rightarrow> Some (internal_ser @ leaf_hash sweep)
             | (Some th, Some sweep) \<Rightarrow>
                 (case tapscript_merkle_root E [tapscript_build_ctv E th, sweep] of None \<Rightarrow> None
                  | Some merkle_root \<Rightarrow> Some (internal_ser @ merkle_root)))
      in case tweak_msg of None \<Rightarrow> None
         | Some m \<Rightarrow>
            (case musig_pubkey_xonly_tweak_add E (cache ka) (sha256_tagged (sha256 E) ''TapTweak'' m) of None \<Rightarrow> None
             | Some tweaked_pk \<Rightarrow>
                (case xonly_from_pubkey E tweaked_pk of None \<Rightarrow> None
                 | Some (tweaked_xonly, _) \<Rightarrow> Some (build_p2tr_script_pubkey E tweaked_xonly))))"

section \<open>Numbers in scripts\<close>

text \<open>How the script interpreter reads a pushed number: sign and magnitude, least significant
  byte first, at most five bytes for lock times, and only in its shortest form.\<close>

definition scriptnum_value :: "bytes \<Rightarrow> int" where
  "scriptnum_value bs =
     (if bs = [] then 0
      else if last bs AND 0x80 = 0 then int (le_value bs)
      else - int (le_value (butlast bs @ [last bs AND 0x7f])))"

definition scriptnum_minimal :: "bytes \<Rightarrow> bool" where
  "scriptnum_minimal bs \<longleftrightarrow>
     bs = [] \<or> last bs AND 0x7f \<noteq> 0 \<or> (length bs > 1 \<and> bs ! (length bs - 2) AND 0x80 \<noteq> 0)"

definition push_number :: "bytes \<Rightarrow> (int \<times> bytes) option" where
  "push_number bs =
     (case bs of [] \<Rightarrow> None
      | opc # r \<Rightarrow>
          if opc = 0 then Some (0, r)
          else if 0x51 \<le> opc \<and> opc \<le> 0x60 then Some (uint opc - 0x50, r)
          else if opc \<le> 5 \<and> unat opc \<le> length r then
            let data = take (unat opc) r in
            if scriptnum_minimal data \<and> \<not> (unat opc = 1 \<and> (data ! 0 \<le> 16 \<or> data ! 0 = 0x81))
            then Some (scriptnum_value data, drop (unat opc) r) else None
          else None)"

lemma unat_drop_bit_8: "unat (drop_bit 8 (v :: u32)) = unat v div 256"
  by (simp add: drop_bit_eq_div unat_div)

lemma unat_low_byte: "unat (ucast (v AND 255 :: u32) :: u8) = unat v mod 256"
  using le_byte_value[of 0 v] by simp

lemma le_value_scriptnum_loop: "le_value (scriptnum_loop v) = unat v"
proof (induction v rule: scriptnum_loop.induct)
  case (1 v)
  then show ?case
    by (subst scriptnum_loop.simps) (auto simp: unat_low_byte unat_drop_bit_8 not_less)
qed

lemma length_scriptnum_loop: "unat v < 256 ^ n \<Longrightarrow> length (scriptnum_loop v) \<le> n"
proof (induction n arbitrary: v)
  case 0
  then have "v = 0" by (simp add: unat_eq_zero)
  then show ?case by (subst scriptnum_loop.simps) simp
next
  case (Suc n)
  have "unat (drop_bit 8 v) < 256 ^ n"
    using Suc.prems by (simp add: unat_drop_bit_8 less_mult_imp_div_less mult.commute)
  from Suc.IH[OF this] show ?case by (subst scriptnum_loop.simps) simp
qed

lemma last_scriptnum_loop: "v > 0 \<Longrightarrow> scriptnum_loop v \<noteq> [] \<and> last (scriptnum_loop v) \<noteq> 0"
proof (induction v rule: scriptnum_loop.induct)
  case (1 v)
  show ?case
  proof (cases "drop_bit 8 v > 0")
    case True
    then show ?thesis using 1 by (subst (1 2) scriptnum_loop.simps) simp
  next
    case False
    then have "drop_bit 8 v = 0" by (simp add: not_less)
    moreover from this have "unat v div 256 = 0" by (metis unat_drop_bit_8 unat_0)
    then have "unat v mod 256 \<noteq> 0" using "1.prems" by (auto simp: word_less_nat_alt mod_less)
    then have "(ucast (v AND 255) :: u8) \<noteq> 0" by (metis unat_low_byte unat_0)
    ultimately show ?thesis using "1.prems" by (subst (1 2) scriptnum_loop.simps, subst (1 2) scriptnum_loop.simps) simp
  qed
qed

lemma high_bit_u8: "(b :: u8) AND 0x80 = 0 \<Longrightarrow> b AND 0x7f = b"
proof -
  assume h: "b AND 0x80 = 0"
  have "b = b AND (0x7f OR 0x80)"
  proof -
    have "(0x7f OR 0x80 :: u8) = - 1" by code_simp
    then show ?thesis by (simp only: bit.conj_one_right)
  qed
  also have "\<dots> = b AND 0x7f" by (simp only: bit.conj_disj_distrib h) simp
  finally show ?thesis by simp
qed

lemma push_number_data:
  assumes "data \<noteq> []" "length data \<le> 5" "scriptnum_minimal data"
    and "\<not> (length data = 1 \<and> (data ! 0 \<le> 16 \<or> data ! 0 = 0x81))"
  shows "push_number ((of_nat (length data) :: u8) # data @ r) = Some (scriptnum_value data, r)"
proof -
  let ?o = "of_nat (length data) :: u8"
  have u: "unat ?o = length data" using assms(2) by (simp add: unat_of_nat)
  have "?o \<noteq> 0" using u assms(1) by (metis length_0_conv unat_0)
  moreover have "\<not> 0x51 \<le> ?o" "?o \<le> 5" using u assms(2) by (simp_all add: word_le_nat_alt)
  ultimately show ?thesis using u assms(3,4) by (simp add: push_number_def)
qed

lemma scriptnum_loop_positive:
  assumes "last (scriptnum_loop v) AND 0x80 = 0" and "16 < unat v"
  shows "scriptnum_minimal (scriptnum_loop v) \<and> scriptnum_value (scriptnum_loop v) = uint v
     \<and> \<not> (length (scriptnum_loop v) = 1 \<and> (scriptnum_loop v ! 0 \<le> 16 \<or> scriptnum_loop v ! 0 = 0x81))"
proof -
  let ?t = "scriptnum_loop v"
  have v: "v > 0" using assms(2) by (simp add: word_less_nat_alt)
  have t: "?t \<noteq> []" "last ?t \<noteq> 0" using last_scriptnum_loop[OF v] by auto
  have val: "le_value ?t = unat v" by (rule le_value_scriptnum_loop)
  have "\<not> (length ?t = 1 \<and> (?t ! 0 \<le> 16 \<or> ?t ! 0 = 0x81))"
  proof
    assume a: "length ?t = 1 \<and> (?t ! 0 \<le> 16 \<or> ?t ! 0 = 0x81)"
    then obtain b where b: "?t = [b]" by (auto simp: length_Suc_conv)
    then have "unat b = unat v" using val by simp
    then have "\<not> b \<le> 16" using assms(2) by (simp add: word_le_nat_alt)
    moreover have "b \<noteq> 0x81" using assms(1) b by auto
    ultimately show False using a b by simp
  qed
  moreover have "scriptnum_minimal ?t" unfolding scriptnum_minimal_def high_bit_u8[OF assms(1)] using t by blast
  moreover have "scriptnum_value ?t = uint v" unfolding scriptnum_value_def using t assms(1) val by simp
  ultimately show ?thesis by blast
qed

lemma scriptnum_loop_padded:
  assumes "last (scriptnum_loop v) AND 0x80 \<noteq> 0" and "v > 0"
  shows "scriptnum_minimal (scriptnum_loop v @ [0]) \<and> scriptnum_value (scriptnum_loop v @ [0]) = uint v
     \<and> length (scriptnum_loop v @ [0]) \<noteq> 1"
  using last_scriptnum_loop[OF assms(2)] assms(1)
  by (simp add: scriptnum_minimal_def scriptnum_value_def nth_append last_conv_nth le_value_append
      le_value_scriptnum_loop)

lemma push_number_small:
  assumes "v \<noteq> 0" and "v \<le> (16 :: u32)"
  shows "push_number ((0x50 + ucast v) # r) = Some (uint v, r)"
proof -
  let ?o = "0x50 + ucast v :: u8"
  have b: "unat v \<le> 16" "unat v \<noteq> 0" using assms by (simp_all add: word_le_nat_alt unat_eq_zero)
  have u: "unat ?o = 0x50 + unat v"
    using b by (subst unat_plus_nowrap) (simp_all add: unat_ucast_small)
  have o: "0x51 \<le> ?o" "?o \<le> 0x60" using b unfolding word_le_nat_alt u by simp_all
  have "?o \<noteq> 0" using u unat_0 by (metis add_is_0 zero_neq_numeral)
  moreover have "uint ?o = 0x50 + uint v" by (simp only: uint_nat u of_nat_add of_nat_numeral)
  ultimately show ?thesis using o by (simp add: push_number_def)
qed

lemma push_number_encode_scriptnum: "push_number (encode_scriptnum v @ r) = Some (uint v, r)"
proof -
  consider (zero) "v = 0" | (small) "v \<noteq> 0" "v \<le> 16" | (big) "\<not> v \<le> 16" by blast
  then show ?thesis
  proof cases
    case zero
    then show ?thesis by (simp add: encode_scriptnum_def push_number_def)
  next
    case small
    then show ?thesis using push_number_small[OF small] by (simp add: encode_scriptnum_def)
  next
    case big
    let ?t = "scriptnum_loop v"
    have v: "v > 0" "unat v > 16" "v \<noteq> 0" using big by (auto simp: word_le_nat_alt word_less_nat_alt)
    have t: "?t \<noteq> []" using last_scriptnum_loop[OF v(1)] by auto
    have l: "length ?t \<le> 4" using length_scriptnum_loop[of v 4] unsigned_less[of v, where ?'a=nat] by simp
    show ?thesis
    proof (cases "last ?t AND 0x80 = 0")
      case True
      then have "encode_scriptnum v = of_nat (length ?t) # ?t" using big v by (simp add: encode_scriptnum_def Let_def)
      then show ?thesis using push_number_data[of ?t r] scriptnum_loop_positive[OF True v(2)] t l by simp
    next
      case False
      then have e: "encode_scriptnum v = of_nat (length (?t @ [0])) # ?t @ [0]"
        using big v by (simp add: encode_scriptnum_def Let_def)
      show ?thesis unfolding e append_Cons
        by (subst push_number_data) (use scriptnum_loop_padded[OF False v(1)] l in simp_all)
    qed
  qed
qed

lemma length_encode_scriptnum: "length (encode_scriptnum v) \<le> 6"
proof -
  have "length (scriptnum_loop v) \<le> 4" using length_scriptnum_loop[of v 4] unsigned_less[of v, where ?'a=nat] by simp
  then show ?thesis by (simp add: encode_scriptnum_def Let_def)
qed

definition dec_scriptnum :: "bytes \<Rightarrow> (u32 \<times> bytes) option" where
  "dec_scriptnum bs = map_option (\<lambda>(n, r). (of_int n, r)) (push_number bs)"

interpretation scriptnum_codec: codec encode_scriptnum dec_scriptnum "\<lambda>_. True"
  by unfold_locales (simp add: dec_scriptnum_def push_number_encode_scriptnum)

text \<open>Lock times mean what the builder was given.  For every 32-bit value the push emitted
  by \<open>encode_scriptnum\<close> is accepted by the interpreter under the minimal-push rule, reads
  back exactly that value as a non-negative number leaving the rest of the script, and
  takes at most six bytes.\<close>

lemma encode_scriptnum_pushes:
  "push_number (encode_scriptnum v @ r) = Some (uint v, r) \<and> length (encode_scriptnum v) \<le> 6"
  by (simp add: push_number_encode_scriptnum length_encode_scriptnum)

section \<open>What the cryptographic library provides\<close>

text \<open>Digests and serialised x-only keys are 32 bytes.\<close>

definition secp_lengths :: "('pk, 'xo, 'ca) secp \<Rightarrow> bool" where
  "secp_lengths E \<longleftrightarrow> (\<forall>x. length (sha256 E x) = 32) \<and> (\<forall>k. length (xonly_serialize E k) = 32)"

text \<open>Tweaking an aggregation cache gives the same key as tweaking the aggregate x-only key.\<close>

definition secp_musig_tweak :: "('pk, 'xo, 'ca) secp \<Rightarrow> bool" where
  "secp_musig_tweak E \<longleftrightarrow>
     (\<forall>pks agg ca tw. musig_pubkey_agg E pks = Some (agg, ca) \<longrightarrow>
        musig_pubkey_xonly_tweak_add E ca tw = xonly_tweak_add E agg tw)"

text \<open>A small concrete library on which both hold, to evaluate the model.\<close>

definition sample_secp :: "(bytes, bytes, bytes) secp" where
  "sample_secp =
     \<lparr>sha256 = (\<lambda>x. replicate 32 (of_nat (length x))),
      xonly_serialize = (\<lambda>k. take 32 (k @ replicate 32 0)),
      xonly_from_pubkey = (\<lambda>p. Some (p, odd (length p))),
      xonly_tweak_add = (\<lambda>k t. Some (map2 (+) k t)),
      musig_pubkey_agg = (\<lambda>ps. if ps = [] then None else Some (hd ps, hd ps)),
      musig_pubkey_xonly_tweak_add = (\<lambda>k t. Some (map2 (+) k t))\<rparr>"

lemma sample_secp_lengths [simp]: "secp_lengths sample_secp"
  by (auto simp: secp_lengths_def sample_secp_def min_def)

lemma sample_secp_musig_tweak [simp]: "secp_musig_tweak sample_secp"
  by (simp add: secp_musig_tweak_def sample_secp_def)

lemma length_sha256_tagged [simp]: "secp_lengths E \<Longrightarrow> length (sha256_tagged (sha256 E) tag x) = 32"
  by (simp add: secp_lengths_def sha256_tagged_def Let_def)

lemma length_xonly [simp]: "secp_lengths E \<Longrightarrow> length (xonly_serialize E k) = 32"
  by (simp add: secp_lengths_def)

lemma length_leaf_hash [simp]:
  "secp_lengths E \<Longrightarrow> length (leaf_hash (tapscript_compute_leaf_hash E s)) = 32"
  by (simp add: tapscript_compute_leaf_hash_def)

section \<open>Script leaves\<close>

definition TAPSCRIPT_MAX_SCRIPT :: nat where
  "TAPSCRIPT_MAX_SCRIPT = 128"

lemmas leaf_builder_defs =
  tapscript_build_hashlock_def tapscript_build_cltv_timeout_def tapscript_build_csv_delay_def
  tapscript_build_revocation_checksig_def tapscript_build_htlc_offered_success_def
  tapscript_build_htlc_offered_timeout_def tapscript_build_htlc_received_success_def
  tapscript_build_htlc_received_timeout_def tapscript_build_ctv_def

lemma leaf_script_compute [simp]: "leaf_script (tapscript_compute_leaf_hash E s) = s"
  by (simp add: tapscript_compute_leaf_hash_def)

text \<open>Every script builder stays inside the fixed script array of a leaf (128 bytes), for
  all lock times, delays, hashes and keys.\<close>

lemma leaf_scripts_fit:
  assumes "secp_lengths E"
  shows "list_all (\<lambda>leaf. length (leaf_script leaf) \<le> TAPSCRIPT_MAX_SCRIPT)
           [tapscript_build_hashlock E h, tapscript_build_cltv_timeout E cltv k,
            tapscript_build_csv_delay E csv k, tapscript_build_revocation_checksig E k,
            tapscript_build_htlc_offered_success E h k, tapscript_build_htlc_offered_timeout E cltv csv k,
            tapscript_build_htlc_received_success E h csv k, tapscript_build_htlc_received_timeout E cltv k,
            tapscript_build_ctv E h]"
proof -
  have n: "length (encode_scriptnum cltv) \<le> 6" "length (encode_scriptnum csv) \<le> 6"
    by (rule length_encode_scriptnum)+
  have "min (length h) 32 \<le> 32" by (rule min.cobounded2)
  with n show ?thesis using assms by (simp add: leaf_builder_defs TAPSCRIPT_MAX_SCRIPT_def min_le_iff_disj)
qed

text \<open>The HTLC timeout script commits to both lock times and to the key.\<close>

lemma htlc_offered_timeout_script_inj:
  assumes "secp_lengths E"
    and "leaf_script (tapscript_build_htlc_offered_timeout E c d k) = leaf_script (tapscript_build_htlc_offered_timeout E c' d' k')"
  shows "c = c' \<and> d = d' \<and> xonly_serialize E k = xonly_serialize E k'"
proof -
  let ?r = "\<lambda>d k. [0xb1, 0x75] @ encode_scriptnum d @ [0xb2, 0x75, 0x20] @ xonly_serialize E k @ [0xac]"
  have "encode_scriptnum c @ ?r d k = encode_scriptnum c' @ ?r d' k'"
    using assms(2) by (simp add: tapscript_build_htlc_offered_timeout_def)
  from scriptnum_codec.enc_prefix_inj[OF _ _ this] have c: "c = c'" and r: "?r d k = ?r d' k'" by simp_all
  from r have "encode_scriptnum d @ [0xb2, 0x75, 0x20] @ xonly_serialize E k @ [0xac]
      = encode_scriptnum d' @ [0xb2, 0x75, 0x20] @ xonly_serialize E k' @ [0xac]" by simp
  from scriptnum_codec.enc_prefix_inj[OF _ _ this] c show ?thesis by simp
qed

section \<open>Script trees\<close>

lemma memcmp_le_total: "memcmp_le a b \<or> memcmp_le b a"
  by (induction a b rule: memcmp_le.induct) auto

lemma memcmp_le_antisym: "length a = length b \<Longrightarrow> memcmp_le a b \<Longrightarrow> memcmp_le b a \<Longrightarrow> a = b"
  by (induction a b rule: memcmp_le.induct) (auto split: if_splits)

lemma tap_branch_commute: "length a = length b \<Longrightarrow> tap_branch E a b = tap_branch E b a"
  using memcmp_le_total[of a b] memcmp_le_antisym[of a b] by (auto simp: tap_branch_def)

lemma length_tap_branch [simp]: "secp_lengths E \<Longrightarrow> length (tap_branch E a b) = 32"
  by (simp add: tap_branch_def)

text \<open>The specification, from BIPs 340 and 341: tagged hashes, and the hash of a branch, whose children are in
  lexicographic order.  A leaf hash and the sibling hashes on its way up give the root.\<close>

definition tagged_hash :: "(bytes \<Rightarrow> bytes) \<Rightarrow> string \<Rightarrow> bytes \<Rightarrow> bytes" where
  "tagged_hash sha tag m = sha (sha (ascii_bytes tag) @ sha (ascii_bytes tag) @ m)"

definition bip341_branch :: "('pk, 'xo, 'ca) secp \<Rightarrow> bytes \<Rightarrow> bytes \<Rightarrow> bytes" where
  "bip341_branch E a b = tagged_hash (sha256 E) ''TapBranch'' (if ord_class.lexordp a b then a @ b else b @ a)"

definition merkle_fold :: "('pk, 'xo, 'ca) secp \<Rightarrow> bytes \<Rightarrow> bytes list \<Rightarrow> bytes" where
  "merkle_fold E h path = foldl (bip341_branch E) h path"

lemma tagged_hash [simp]: "tagged_hash sha tag m = sha256_tagged sha tag m"
  by (simp add: tagged_hash_def sha256_tagged_def Let_def)

lemma memcmp_le_lexordp: "length a = length b \<Longrightarrow> memcmp_le a b \<longleftrightarrow> ord_class.lexordp a b \<or> a = b"
  by (induction a b rule: memcmp_le.induct) auto

lemma tap_branch_bip341: "length a = length b \<Longrightarrow> tap_branch E a b = bip341_branch E a b"
  by (auto simp: tap_branch_def bip341_branch_def memcmp_le_lexordp)

lemma length_merkle_root:
  "secp_lengths E \<Longrightarrow> list_all (\<lambda>l. length (leaf_hash l) = 32) leaves \<Longrightarrow>
   tapscript_merkle_root E leaves = Some root \<Longrightarrow> length root = 32"
  by (subst (asm) tapscript_merkle_root.simps)
    (auto simp: Let_def list_all_length split: if_splits option.splits)

lemma merkle_root_total: "leaves \<noteq> [] \<Longrightarrow> \<exists>root. tapscript_merkle_root E leaves = Some root"
proof (induction E leaves rule: tapscript_merkle_root.induct)
  case (1 E leaves)
  show ?case
  proof (cases "length leaves \<le> 2")
    case True
    then have "length leaves = 1 \<or> length leaves = 2" using "1.prems" by (simp add: le_Suc_eq numeral_2_eq_2)
    then show ?thesis using "1.prems" by (subst tapscript_merkle_root.simps) auto
  next
    case False
    let ?m = "length leaves div 2"
    have "take ?m leaves \<noteq> []" "drop ?m leaves \<noteq> []" using False by auto
    then show ?thesis using 1 False by (subst tapscript_merkle_root.simps) (fastforce simp: Let_def)
  qed
qed

text \<open>Halving keeps the depth logarithmic.\<close>

lemma merkle_depth_step:
  assumes "2 ^ d < 2 * m" and "2 * m \<le> n + 1" and "2 < (n :: nat)"
  shows "2 ^ Suc d < 2 * n"
proof (cases d)
  case 0
  then show ?thesis using assms(3) by simp
next
  case (Suc e)
  have "2 * 2 ^ e < 2 * m" using assms(1) Suc by simp
  then have "2 ^ e + 1 \<le> m" by simp
  then have "2 * 2 ^ e + 1 \<le> n" using assms(2) by simp
  then show ?thesis using Suc by simp
qed

lemma merkle_path_exists:
  assumes "secp_lengths E"
  shows "list_all (\<lambda>l. length (leaf_hash l) = 32) leaves \<Longrightarrow> i < length leaves \<Longrightarrow>
    \<exists>path. list_all (\<lambda>h. length h = 32) path \<and> 2 ^ length path < 2 * length leaves \<and>
      tapscript_merkle_root E leaves = Some (merkle_fold E (leaf_hash (leaves ! i)) path)"
  using assms
proof (induction E leaves arbitrary: i rule: tapscript_merkle_root.induct)
  case (1 E leaves)
  let ?n = "length leaves" and ?L = "\<lambda>j. leaf_hash (leaves ! j)"
  consider "?n = 1" | "?n = 2" | "2 < ?n" using "1.prems"(2) by linarith
  then show ?case
  proof cases
    assume "?n = 1"
    then show ?thesis using "1.prems"(2)
      by (intro exI[of _ "[]"], subst tapscript_merkle_root.simps) (auto simp: merkle_fold_def)
  next
    assume n: "?n = 2"
    then have e: "length (?L 0) = length (?L 1)" using "1.prems"(1) by (simp add: list_all_length)
    have r: "tapscript_merkle_root E leaves = Some (tap_branch E (?L 0) (?L 1))"
      using n by (subst tapscript_merkle_root.simps) auto
    from n "1.prems"(2) have "i = 0 \<or> i = 1" by auto
    then show ?thesis using r tap_branch_commute[OF e, of E] tap_branch_bip341[OF e, of E] tap_branch_bip341[OF e[symmetric], of E] "1.prems"(1) n
      by (intro exI[of _ "[?L (1 - i)]"]) (auto simp: merkle_fold_def list_all_length)
  next
    assume n: "2 < ?n"
    let ?m = "?n div 2" let ?T = "take ?m leaves" and ?D = "drop ?m leaves"
    have c: "leaves \<noteq> []" "?n \<noteq> 1" "?n \<noteq> 2" using n by auto
    have h: "list_all (\<lambda>l. length (leaf_hash l) = 32) ?T" "list_all (\<lambda>l. length (leaf_hash l) = 32) ?D"
      using "1.prems"(1) by (auto simp: list_all_iff dest: in_set_takeD in_set_dropD)
    have ne: "?T \<noteq> []" "?D \<noteq> []" using n by auto
    obtain l where l: "tapscript_merkle_root E ?T = Some l" using merkle_root_total[OF ne(1)] by auto
    obtain r where r: "tapscript_merkle_root E ?D = Some r" using merkle_root_total[OF ne(2)] by auto
    have len: "length l = 32" "length r = 32" using length_merkle_root[OF "1.prems"(3)] h l r by auto
    have root: "tapscript_merkle_root E leaves = Some (tap_branch E l r)"
      using c l r by (subst tapscript_merkle_root.simps) (simp add: Let_def)
    show ?thesis
    proof (cases "i < ?m")
      case True
      from "1.IH"(1)[OF c refl h(1) _ "1.prems"(3), of i] True obtain p where
        p: "list_all (\<lambda>h. length h = 32) p" "2 ^ length p < 2 * length ?T" "l = merkle_fold E (?L i) p"
        using l by auto
      have "2 ^ Suc (length p) < 2 * ?n" using merkle_depth_step[of "length p" "length ?T" ?n] p(2) n by simp
      then show ?thesis using p root len by (intro exI[of _ "p @ [r]"]) (simp add: merkle_fold_def tap_branch_bip341)
    next
      case False
      have "i - ?m < length ?D" using False "1.prems"(2) by simp
      from "1.IH"(2)[OF c refl l h(2) this "1.prems"(3)] False "1.prems"(2) obtain p where
        p: "list_all (\<lambda>h. length h = 32) p" "2 ^ length p < 2 * length ?D" "r = merkle_fold E (?L i) p"
        using r by auto
      have "2 ^ Suc (length p) < 2 * ?n" using merkle_depth_step[of "length p" "length ?D" ?n] p(2) n by simp
      then show ?thesis using p root len tap_branch_commute[of r l E]
        by (intro exI[of _ "p @ [l]"]) (simp add: merkle_fold_def tap_branch_bip341)
    qed
  qed
qed

text \<open>The leaf hash of BIP-341.\<close>

definition bip341_leaf :: "('pk, 'xo, 'ca) secp \<Rightarrow> bytes \<Rightarrow> bytes" where
  "bip341_leaf E script =
     tagged_hash (sha256 E) ''TapLeaf'' ([0xc0] @ compact_size (of_nat (length script)) @ script)"

lemma leaf_hash_bip341:
  "length script < 253 \<Longrightarrow> leaf_hash (tapscript_compute_leaf_hash E script) = bip341_leaf E script"
  by (simp add: tapscript_compute_leaf_hash_def bip341_leaf_def TAPSCRIPT_LEAF_VERSION_def compact_size_small)

text \<open>C31: The balanced tree authenticates every leaf.  For any non-empty list of scripts shorter than 253 bytes,
  \<open>tapscript_merkle_root\<close> succeeds, and each script has a merkle path of 32-byte siblings of
  at most logarithmic length from its BIP-341 leaf hash to the root, by the branch hashes of BIP-341.\<close>

theorem tapscript_merkle_root_authenticates:
  assumes "secp_lengths E" and "list_all (\<lambda>s. length s < 253) scripts" and "i < length scripts"
  shows "\<exists>path. list_all (\<lambda>h. length h = 32) path \<and> 2 ^ length path < 2 * length scripts \<and>
    tapscript_merkle_root E (map (tapscript_compute_leaf_hash E) scripts)
    = Some (merkle_fold E (bip341_leaf E (scripts ! i)) path)"
  using merkle_path_exists[OF assms(1), of "map (tapscript_compute_leaf_hash E) scripts" i] assms
  by (simp add: list_all_length leaf_hash_bip341)

theorem tapscript_merkle_root_authenticates_witness:
  "\<exists>path. list_all (\<lambda>h. length h = 32) path \<and> 2 ^ length path < 2 * length [[1], [2], [3 :: u8]] \<and>
    tapscript_merkle_root sample_secp (map (tapscript_compute_leaf_hash sample_secp) [[1], [2], [3]])
    = Some (merkle_fold sample_secp (bip341_leaf sample_secp ([[1], [2], [3]] ! 2)) path)"
  by (rule tapscript_merkle_root_authenticates) simp_all

text \<open>The consensus check of a script-path spend (BIP-341): \<open>cb\<close> opens the output \<open>spk\<close> to \<open>script\<close>.\<close>

definition merkle_path_of :: "bytes \<Rightarrow> bytes list" where
  "merkle_path_of bs = map (\<lambda>j. take 32 (drop (32 * j) bs)) [0..<length bs div 32]"

definition script_path_opens :: "('pk, 'xo, 'ca) secp \<Rightarrow> bytes \<Rightarrow> bytes \<Rightarrow> bytes \<Rightarrow> bool" where
  "script_path_opens E spk script cb \<longleftrightarrow>
     33 \<le> length cb \<and> (length cb - 33) mod 32 = 0 \<and> cb ! 0 AND 0xfe = 0xc0 \<and>
     (\<exists>P Q q. xonly_serialize E P = take 32 (drop 1 cb)
        \<and> xonly_tweak_add E P (tagged_hash (sha256 E) ''TapTweak''
            (xonly_serialize E P @ merkle_fold E (bip341_leaf E script) (merkle_path_of (drop 33 cb)))) = Some Q
        \<and> xonly_from_pubkey E Q = Some (q, cb ! 0 AND 1 = 1)
        \<and> spk = [0x51, 0x20] @ xonly_serialize E q)"

lemma control_byte:
  "(TAPSCRIPT_LEAF_VERSION OR of_bool b) AND 0xfe = 0xc0"
  "((TAPSCRIPT_LEAF_VERSION OR of_bool b) AND 1 = 1) = b"
  by (cases b; simp add: TAPSCRIPT_LEAF_VERSION_def; fail)+

lemma merkle_path_of_simps [simp]:
  "merkle_path_of [] = []"
  "length h = 32 \<Longrightarrow> merkle_path_of h = [h]"
  by (simp_all add: merkle_path_of_def)

lemma one_leaf_opens:
  assumes "secp_lengths E" and "length script < 253"
    and "tapscript_tweak_pubkey E P (leaf_hash (tapscript_compute_leaf_hash E script)) = Some (q, par)"
  shows "script_path_opens E (build_p2tr_script_pubkey E q) script (tapscript_build_control_block E par P)"
  using assms control_byte[of par]
  by (auto simp: script_path_opens_def tapscript_build_control_block_def build_p2tr_script_pubkey_def
      tapscript_tweak_pubkey_def Let_def merkle_fold_def leaf_hash_bip341[symmetric] split: option.splits
      intro!: exI[of _ P])

lemma two_leaf_opens:
  assumes "secp_lengths E" and "length script < 253" and "length (leaf_hash sib) = 32"
    and "tapscript_tweak_pubkey E P (tap_branch E (bip341_leaf E script) (leaf_hash sib)) = Some (q, par)"
  shows "script_path_opens E (build_p2tr_script_pubkey E q) script (tapscript_build_control_block_2leaf E par P sib)"
  using assms control_byte[of par] tap_branch_bip341[of "bip341_leaf E script" "leaf_hash sib" E]
  by (auto simp: script_path_opens_def tapscript_build_control_block_2leaf_def bip341_leaf_def build_p2tr_script_pubkey_def
      tapscript_tweak_pubkey_def Let_def merkle_fold_def split: option.splits intro!: exI[of _ P])

lemma two_leaf_both_open:
  assumes "secp_lengths E" and "length s0 < 253" and "length s1 < 253"
    and "tapscript_merkle_root E [tapscript_compute_leaf_hash E s0, tapscript_compute_leaf_hash E s1] = Some root"
    and "tapscript_tweak_pubkey E P root = Some (q, par)"
  shows "script_path_opens E (build_p2tr_script_pubkey E q) s0
           (tapscript_build_control_block_2leaf E par P (tapscript_compute_leaf_hash E s1))
       \<and> script_path_opens E (build_p2tr_script_pubkey E q) s1
           (tapscript_build_control_block_2leaf E par P (tapscript_compute_leaf_hash E s0))"
proof -
  let ?h0 = "bip341_leaf E s0" and ?h1 = "bip341_leaf E s1"
  have l32: "length ?h0 = 32" "length ?h1 = 32" using assms(1) by (simp_all add: bip341_leaf_def)
  then have l: "length ?h0 = length ?h1" by simp
  have r: "root = tap_branch E ?h0 ?h1"
    using assms(4) by (subst (asm) tapscript_merkle_root.simps) (simp add: leaf_hash_bip341 assms(2,3))
  have "root = tap_branch E ?h1 ?h0" using r tap_branch_commute[OF l, of E] by simp
  with r show ?thesis
    using two_leaf_opens[OF assms(1,2), of "tapscript_compute_leaf_hash E s1" P q par]
      two_leaf_opens[OF assms(1,3), of "tapscript_compute_leaf_hash E s0" P q par] assms l32
    by (simp add: leaf_hash_bip341)
qed

section \<open>Signature hash, builders and finalisers\<close>

definition bip342_msg :: "(bytes \<Rightarrow> bytes) \<Rightarrow> tx \<Rightarrow> u32 \<Rightarrow> (bytes \<times> u64) list \<Rightarrow> bytes \<Rightarrow> bytes" where
  "bip342_msg sha t idx prevs leaf_h =
     [0, 0] @ le_bytes 4 (tx_version t) @ le_bytes 4 (tx_locktime t)
     @ sha (concat (map (\<lambda>i. prev_txid i @ le_bytes 4 (prev_vout i)) (tx_ins t)))
     @ sha (concat (map (\<lambda>(spk, amt). le_bytes 8 amt) prevs))
     @ sha (concat (map (\<lambda>(spk, amt). compact_size (of_nat (length spk)) @ spk) prevs))
     @ sha (concat (map (\<lambda>i. le_bytes 4 (nsequence i)) (tx_ins t)))
     @ sha (concat (map ser_output (tx_outs t)))
     @ [2] @ le_bytes 4 idx @ leaf_h @ [0] @ replicate 4 0xff"

lemma tapscript_sighash_msg:
  assumes "valid_input i" and "length outs < 253" and "length spk < 253"
  shows "compute_tapscript_sighash sha (ser_tx (one_input_tx v i outs lt)) idx spk amt (nsequence i) leaf =
         sha256_tagged sha ''TapSighash'' (bip342_msg sha (one_input_tx v i outs lt) idx [(spk, amt)] (leaf_hash leaf))"
proof -
  have l: "length (prev_txid i) = 32" using assms(1) by (simp add: valid_input_def)
  have f: "write_u32_le 0xFFFFFFFF = replicate 4 0xff" by code_simp
  show ?thesis
    unfolding compute_tapscript_sighash_def Let_def bip342_msg_def ser_tx_tail f unfolding ser_tx_one_input
    using assms(2,3) l by (simp add: compact_size_small bytes_simps)
qed



text \<open>The second lock-time builder hides allocation failure.  It does the same writes as
  \<open>build_unsigned_tx_with_locktime\<close>, but it reports success and hands out an id also in
  every case where that one stops with an error, although the buffer is then truncated.\<close>

lemma build_unsigned_tx_locktime_hides_oom:
  "build_unsigned_tx_locktime alloc sha out w txid vout nseq lt outs =
     (case build_unsigned_tx_with_locktime alloc sha out w txid vout nseq lt outs of
        (ok, b, i) \<Rightarrow> (True, b, if ok then i else if w then Some (txid_of sha (buf_data b)) else None))"
  by (simp add: build_unsigned_tx_locktime_def build_unsigned_tx_with_locktime_def Let_def)

lemma build_unsigned_tx_locktime_built:
  assumes "length txid = 32" and "\<And>n. alloc n"
  shows "build_unsigned_tx_locktime alloc sha out w txid vout nseq lt outs =
    built alloc sha out w (one_input_tx 2 \<lparr>prev_txid = txid, prev_vout = vout, nsequence = nseq\<rparr> outs lt)"
proof -
  let ?b = "buf_writes alloc (tx_chunks (one_input_tx 2 \<lparr>prev_txid = txid, prev_vout = vout, nsequence = nseq\<rparr> outs lt)) (tx_buf_reset out)"
  have "build_unsigned_tx_locktime alloc sha out w txid vout nseq lt outs =
      (True, ?b, if w then Some (txid_of sha (buf_data ?b)) else None)"
    using assms(1) by (simp add: build_unsigned_tx_locktime_def Let_def tx_chunks_def bytes_simps
      write_bytes_append input_chunks_def buf_writes_append)
  moreover have "\<not> oom ?b" using assms(2) by (simp add: buf_writes_total)
  ultimately show ?thesis by (simp add: built_def Let_def)
qed

text \<open>Witness items are length-prefixed.\<close>

definition item_chunks :: "bytes \<Rightarrow> bytes list" where
  "item_chunks w = varint_chunks (of_nat (length w)) @ [w]"

lemma write_item:
  "tx_buf_write_bytes alloc w (length w) (tx_buf_write_varint alloc (of_nat (length w)) b) = buf_writes alloc (item_chunks w) b"
  by (simp add: write_varint_chunks write_bytes_append item_chunks_def buf_writes_append)

lemma write_sig_item:
  "length sig = 64 \<Longrightarrow> tx_buf_write_bytes alloc sig 64 (tx_buf_write_varint alloc 64 b) = buf_writes alloc (item_chunks sig) b"
  using write_item[of alloc sig b] by simp

definition stack_chunks :: "tx \<Rightarrow> bytes list \<Rightarrow> bytes list" where
  "stack_chunks t items = [le_bytes 4 (tx_version t), [0], [1], tx_body t] @ varint_chunks (of_nat (length items))
     @ concat (map item_chunks items) @ [le_bytes 4 (tx_locktime t)]"

lemma concat_stack_chunks: "concat (stack_chunks t items) = ser_segwit t [items]"
  by (simp add: stack_chunks_def ser_segwit_def tx_body_def item_chunks_def concat_concat_map)

lemma finalize_script_path_chunks:
  assumes "length sig = 64"
  shows "finalize_script_path_tx alloc out (ser_tx t) sig script cb
           = buf_writes alloc (stack_chunks t [sig, script, cb]) (tx_buf_reset out)"
    and "finalize_script_path_tx_preimage alloc out (ser_tx t) sig pre script cb
           = buf_writes alloc (stack_chunks t [sig, pre, script, cb]) (tx_buf_reset out)"
  by (simp_all add: finalize_script_path_tx_def finalize_script_path_tx_preimage_def Let_def write_tx_parts
      write_u8_append write_sig_item[OF assms] write_item stack_chunks_def buf_writes_append
      write_varint_chunks[of alloc 3] write_varint_chunks[of alloc 4])

text \<open>The script-path finalisers append the right witness stack: unless memory runs out, the
  buffer holds the segwit serialisation of the transaction with the stack [signature,
  script, control block], respectively [signature, preimage, script, control block]; when
  the allocator grants every request, memory does not run out.\<close>

lemma finalize_script_path_segwit:
  fixes alloc out t sig script cb pre
  defines "plain \<equiv> finalize_script_path_tx alloc out (ser_tx t) sig script cb"
    and "claim \<equiv> finalize_script_path_tx_preimage alloc out (ser_tx t) sig pre script cb"
  assumes "length sig = 64"
  shows "(\<not> oom plain \<longrightarrow> buf_data plain = ser_segwit t [[sig, script, cb]]) \<and>
         (\<not> oom claim \<longrightarrow> buf_data claim = ser_segwit t [[sig, pre, script, cb]]) \<and>
         ((\<forall>n. alloc n) \<longrightarrow> \<not> oom plain \<and> \<not> oom claim)"
  unfolding plain_def claim_def finalize_script_path_chunks[OF assms(3)]
  by (simp add: writes_result buf_writes_total concat_stack_chunks)

section \<open>The ANYONECANPAY signature hash\<close>

lemma rd_varint_compact:
  assumes "n \<le> 65535"
  shows "rd_varint (compact_size (of_nat n) @ r) = Some (of_nat n, length (compact_size (of_nat n)))"
proof (cases "n < 253")
  case True
  then have "(of_nat n :: u8) < 0xfd" by (simp add: word_less_nat_alt unat_of_nat)
  moreover have "(ucast (of_nat n :: u8) :: u64) = of_nat n"
    using True by (simp add: word_unat_eq_iff unat_ucast_up unat_of_nat)
  ultimately show ?thesis using True by (simp add: compact_size_small rd_varint_def)
next
  case False
  define v where "v = (of_nat n :: u64)"
  have v: "unat v = n" using assms by (simp add: v_def unat_of_nat)
  define a b where "a = (ucast (v AND 255) :: u8)" and "b = (ucast (drop_bit 8 v AND 255) :: u8)"
  have ab: "unat a = n mod 256" "unat b = n div 256"
    using assms le_byte_value[of 0 v] le_byte_value[of 8 v] by (simp_all add: a_def b_def v)
  have pb: "unat (push_bit 8 (ucast b :: u64)) = n div 256 * 256"
    using assms ab(2) by (simp add: push_bit_eq_mult unat_mult_nowrap unat_ucast_up)
  have "(ucast a :: u64) AND push_bit 8 (ucast b) = 0"
    by (rule bit_word_eqI) (auto simp: bit_simps dest: bit_imp_le_length)
  then have "ucast a OR push_bit 8 (ucast b) = (ucast a :: u64) + push_bit 8 (ucast b)"
    by (rule disjunctive_add_eq_or[symmetric])
  moreover have "unat ((ucast a :: u64) + push_bit 8 (ucast b)) = n"
    using ab(1) pb assms by (subst unat_plus_nowrap) (simp_all add: unat_ucast_up)
  ultimately have "ucast a OR push_bit 8 (ucast b) = v" using v by (simp add: word_unat_eq_iff)
  moreover have "compact_size v = [0xfd, a, b]"
    using compact_size_medium[of n] False assms by (simp add: v_def le_bytes_2 a_def b_def)
  ultimately show ?thesis unfolding v_def[symmetric] by (simp add: rd_varint_def)
qed

definition small_output :: "tx_output \<Rightarrow> bool" where
  "small_output q \<longleftrightarrow> length (script_pubkey q) \<le> 65535"

lemma acp_outputs_ser:
  "list_all small_output outs \<Longrightarrow> acp_outputs (length outs) (concat (map ser_output outs) @ r) = Some r"
proof (induction outs)
  case (Cons q outs)
  have "unat (of_nat (length (script_pubkey q)) :: u64) = length (script_pubkey q)"
    using Cons.prems by (simp add: small_output_def unat_of_nat)
  with Cons show ?case
    by (simp add: ser_output_def rd_varint_compact small_output_def Let_def)
qed simp

lemma acp_inputs_ser:
  "list_all valid_input ins \<Longrightarrow>
   acp_inputs (length ins) i idx op (concat (map ser_input ins) @ r) =
   Parsed (if i \<le> unat idx \<and> unat idx < i + length ins
           then Some (prev_txid (ins ! (unat idx - i)) @ le_bytes 4 (prev_vout (ins ! (unat idx - i)))) else op, r)"
proof (induction ins arbitrary: i op)
  case (Cons x ins)
  have z: "rd_varint ([0] @ s) = Some (0, 1)" for s by (simp add: rd_varint_def)
  let ?p = "prev_txid x @ le_bytes 4 (prev_vout x)" and ?s = "le_bytes 4 (nsequence x) @ concat (map ser_input ins) @ r"
  have e: "concat (map ser_input (x # ins)) @ r = ?p @ [0] @ ?s" by (simp add: ser_input_def)
  have l: "length ?p = 36" using Cons.prems by (simp add: valid_input_def)
  have t: "take 36 (?p @ [0] @ ?s) = ?p" and d: "drop 36 (?p @ [0] @ ?s) = [0] @ ?s" using l by simp_all
  have "acp_inputs (length (x # ins)) i idx op (?p @ [0] @ ?s) =
     acp_inputs (length ins) (i + 1) idx (if i = unat idx then Some ?p else op) (concat (map ser_input ins) @ r)"
    using l unfolding list.size add_Suc_right add_0_right acp_inputs.simps Let_def t d z by simp
  also have "\<dots> = Parsed (if i + 1 \<le> unat idx \<and> unat idx < i + 1 + length ins
       then Some (prev_txid (ins ! (unat idx - (i + 1))) @ le_bytes 4 (prev_vout (ins ! (unat idx - (i + 1)))))
       else if i = unat idx then Some ?p else op, r)"
    using Cons by simp
  finally have F: "acp_inputs (length (x # ins)) i idx op (?p @ [0] @ ?s) = \<dots>" .
  show ?case unfolding e F
    by (cases "i < unat idx") (auto simp: nth_Cons' Suc_diff_Suc)
qed auto

definition bip341_acp_msg :: "(bytes \<Rightarrow> bytes) \<Rightarrow> tx \<Rightarrow> tx_input \<Rightarrow> bytes \<Rightarrow> u64 \<Rightarrow> bytes" where
  "bip341_acp_msg sha t i spk amt =
     [0, 0x81] @ le_bytes 4 (tx_version t) @ le_bytes 4 (tx_locktime t)
     @ sha (concat (map ser_output (tx_outs t))) @ [0]
     @ prev_txid i @ le_bytes 4 (prev_vout i) @ le_bytes 8 amt
     @ compact_size (of_nat (length spk)) @ spk @ le_bytes 4 (nsequence i)"

lemma acp_sighash_ser:
  assumes "list_all valid_input (tx_ins t)" and "list_all small_output (tx_outs t)"
    and "length (tx_ins t) \<le> 65535" and "length (tx_outs t) \<le> 65535"
    and "idx < length (tx_ins t)" and "spk \<noteq> []" and "length spk < 253"
  shows "compute_keypath_sighash_anyonecanpay alloc sha (ser_tx t) (of_nat idx) spk amt (nsequence (tx_ins t ! idx)) =
     (if alloc (92 + length spk) then Parsed (sha256_tagged sha ''TapSighash'' (bip341_acp_msg sha t (tx_ins t ! idx) spk amt)) else Malformed)"
proof -
  let ?tx = "ser_tx t" and ?ci = "compact_size (of_nat (length (tx_ins t)))" and ?co = "compact_size (of_nat (length (tx_outs t)))"
  define I Q L where "I = concat (map ser_input (tx_ins t))" and "Q = concat (map ser_output (tx_outs t))"
    and "L = le_bytes 4 (tx_locktime t)"
  have d4: "drop 4 ?tx = ?ci @ I @ ?co @ Q @ L" and ver: "take 4 ?tx = le_bytes 4 (tx_version t)"
    by (simp_all add: ser_tx_def I_def Q_def L_def)
  have n: "unat (of_nat (length (tx_ins t)) :: u64) = length (tx_ins t)" "unat (of_nat (length (tx_outs t)) :: u64) = length (tx_outs t)"
    "unat (of_nat idx :: u32) = idx" using assms(3-5) by (simp_all add: unat_of_nat)
  have r1: "rd_varint (drop 4 ?tx) = Some (of_nat (length (tx_ins t)), length ?ci)"
    unfolding d4 by (rule rd_varint_compact[OF assms(3)])
  have i: "acp_inputs (length (tx_ins t)) 0 (of_nat idx) None (drop (length ?ci) (drop 4 ?tx)) =
      Parsed (Some (prev_txid (tx_ins t ! idx) @ le_bytes 4 (prev_vout (tx_ins t ! idx))), ?co @ Q @ L)"
    unfolding d4 I_def using acp_inputs_ser[OF assms(1), of 0 "of_nat idx" None] assms(5) n(3) by simp
  have r2: "rd_varint (?co @ Q @ L) = Some (of_nat (length (tx_outs t)), length ?co)"
    by (rule rd_varint_compact[OF assms(4)])
  have o: "acp_outputs (length (tx_outs t)) (Q @ L) = Some L" unfolding Q_def by (rule acp_outputs_ser[OF assms(2)])
  have len: "\<not> length ?tx < 8" "\<not> (spk = [] \<or> length spk > 10000)"
    using ser_tx_parts(4)[of t] assms(6,7) by simp_all
  have q: "drop (length ?co) (?co @ Q @ L) = Q @ L" "take (length (Q @ L) - length L) (Q @ L) = Q" by simp_all
  show ?thesis
    unfolding compute_keypath_sighash_anyonecanpay_def Let_def if_not_P[OF len(1)] if_not_P[OF len(2)]
      r1 option.case prod.case n i parsed.case r2 q o ver ser_tx_tail bip341_acp_msg_def
    using assms(7) by (simp add: compact_size_small bytes_simps Q_def)
qed

text \<open>C33: On the transactions the program builds, with at most 65535 inputs and outputs and scripts shorter than 253 bytes, the walk over the serialised bytes is safe and
  finds the right pieces: \<open>compute_keypath_sighash_anyonecanpay\<close> succeeds for every input
  index and hashes the BIP-341 message for SIGHASH_ALL with ANYONECANPAY, unless its one allocation fails.\<close>

theorem compute_keypath_sighash_anyonecanpay_bip341:
  assumes "list_all valid_input (tx_ins t)" and "list_all small_output (tx_outs t)"
    and "length (tx_ins t) \<le> 65535" and "length (tx_outs t) \<le> 65535"
    and "idx < length (tx_ins t)" and "spk \<noteq> []" and "length spk < 253"
  shows "compute_keypath_sighash_anyonecanpay alloc sha (ser_tx t) (of_nat idx) spk amt (nsequence (tx_ins t ! idx)) =
     (if alloc (92 + length spk) then Parsed (sha256_tagged sha ''TapSighash'' (bip341_acp_msg sha t (tx_ins t ! idx) spk amt)) else Malformed)"
  using assms by (rule acp_sighash_ser)

theorem compute_keypath_sighash_anyonecanpay_bip341_witness:
  "\<exists>d. compute_keypath_sighash_anyonecanpay (\<lambda>_. True) (\<lambda>x. x)
     (ser_tx (one_input_tx 3 \<lparr>prev_txid = replicate 32 1, prev_vout = 0, nsequence = 5\<rparr>
       [\<lparr>amount_sats = 240, script_pubkey = [0x51, 0x02, 0x4e, 0x73]\<rparr>] 0)) (of_nat 0) [0x51] 7 5 = Parsed d"
  using compute_keypath_sighash_anyonecanpay_bip341
    [of "one_input_tx 3 \<lparr>prev_txid = replicate 32 1, prev_vout = 0, nsequence = 5\<rparr>
       [\<lparr>amount_sats = 240, script_pubkey = [0x51, 0x02, 0x4e, 0x73]\<rparr>] 0" 0 "[0x51]" "\<lambda>_. True" "\<lambda>x. x" 7]
  by (simp add: valid_input_def small_output_def)

text \<open>A scriptSig length larger than the rest of the buffer takes the walk past its end.\<close>

lemma anyonecanpay_overrun:
  "compute_keypath_sighash_anyonecanpay alloc sha ([2, 0, 0, 0, 1] @ replicate 36 7 @ [0xfd, 0xff, 0xff]) 0 [0x51] amt nseq = Overrun"
proof -
  let ?p = "replicate 36 7 @ [0xfd, 0xff, 0xff] :: bytes"
  have "rd_varint [0xfd, 0xff, 0xff] = Some (0xffff, 3)" by code_simp
  then have a: "acp_inputs (Suc 0) 0 0 None ?p = Overrun" by (simp add: Let_def)
  have d: "drop 4 ([2, 0, 0, 0, 1] @ ?p) = 1 # ?p" by simp
  have r: "rd_varint (1 # ?p) = Some (1, 1)" by (simp add: rd_varint_def)
  have s: "drop 1 (1 # ?p) = ?p" "unat (1 :: u64) = Suc 0" by simp_all
  have l: "\<not> length ([2, 0, 0, 0, 1] @ ?p) < 8" "\<not> ([0x51 :: u8] = [] \<or> length [0x51 :: u8] > 10000)" by simp_all
  show ?thesis unfolding compute_keypath_sighash_anyonecanpay_def Let_def if_not_P[OF l(1)] if_not_P[OF l(2)]
      d r option.case prod.case s a parsed.case ..
qed

end
