(* ===== verification/CTV_Factory.thy ===== *)
theory CTV_Factory
  imports Tapscript
begin

text \<open>
  The single-layer covenant factory, \<^verbatim>\<open>src/ctv_factory.c\<close> (first half): one funding output
  whose taproot tree holds an OP_CHECKTEMPLATEVERIFY leaf committing to the distribution
  transaction (one output per user and a P2A anchor) and optionally an LSP sweep leaf.

  The C struct is the record \<open>ctv_factory\<close>; the fixed arrays are lists.  A function that
  fills the struct returns \<open>None\<close> where the C one returns 0, after which the struct is
  not used.  The writers into caller-provided buffers return an \<open>out_result\<close>: a failure,
  the size that is missing, or the bytes written.
\<close>

section \<open>Model\<close>

definition CTV_FACTORY_MAX_USERS_SINGLE_LAYER :: nat where
  "CTV_FACTORY_MAX_USERS_SINGLE_LAYER = 200"

definition CTV_FACTORY_ANCHOR_SATS :: u64 where
  "CTV_FACTORY_ANCHOR_SATS = 240"

definition CTV_FACTORY_ANCHOR_SPK :: bytes where
  "CTV_FACTORY_ANCHOR_SPK = [0x51, 0x02, 0x4e, 0x73]"

record ('pk, 'xo, 'ca) ctv_factory =
  n_users :: u32
  slot_deposit_sats :: u64
  recovery_offset_blocks :: u32
  activation_offset_blocks :: u32
  lsp_pubkey :: 'pk
  user_pubkeys :: "'pk list"
  total_funding_sats :: u64
  recovery_cltv_absolute :: u32
  activation_cltv_absolute :: u32
  keyagg :: "('xo, 'ca) musig_keyagg"
  dist_tx_th :: bytes
  funding_spk :: bytes
  user_keyagg :: "('xo, 'ca) musig_keyagg list"
  user_spks :: "bytes list"

definition w_u32_le :: "u32 \<Rightarrow> bytes" where
  "w_u32_le v =
     [ucast (v AND 0xff), ucast (drop_bit 8 v AND 0xff),
      ucast (drop_bit 16 v AND 0xff), ucast (drop_bit 24 v AND 0xff)]"

definition w_u64_le :: "u64 \<Rightarrow> bytes" where
  "w_u64_le v = map (\<lambda>i. ucast (drop_bit (i * 8) v AND 0xff)) [0..<8]"

definition build_user_leaf_spk_2of2 ::
  "('pk, 'xo, 'ca) secp \<Rightarrow> 'pk \<Rightarrow> 'pk \<Rightarrow> u32 \<Rightarrow> (('xo, 'ca) musig_keyagg \<times> bytes) option" where
  "build_user_leaf_spk_2of2 E lsp_pk user_pk activation_cltv =
     (case musig_aggregate_keys E [lsp_pk, user_pk] of None \<Rightarrow> None
      | Some ka \<Rightarrow>
          if activation_cltv = 0 then Some (ka, build_p2tr_script_pubkey E (agg_pubkey ka))
          else
            (case xonly_from_pubkey E lsp_pk of None \<Rightarrow> None
             | Some (lsp_xonly, _) \<Rightarrow>
                 let timeout_leaf = tapscript_build_cltv_timeout E activation_cltv lsp_xonly in
                 (case tapscript_tweak_pubkey E (agg_pubkey ka) (leaf_hash timeout_leaf) of None \<Rightarrow> None
                  | Some (tweaked, parity) \<Rightarrow> Some (ka, [0x51, 0x20] @ xonly_serialize E tweaked))))"

definition serialize_output :: "u64 \<Rightarrow> bytes \<Rightarrow> u8 \<Rightarrow> bytes" where
  "serialize_output amount spk spk_len = w_u64_le amount @ [spk_len] @ take (unat spk_len) spk"

text \<open>The output loop over the users followed by the anchor, as it stands in
  \<^verbatim>\<open>serialize_outputs_concat\<close> and again in the two transaction builders.\<close>

definition dist_outputs_bytes :: "('pk, 'xo, 'ca) ctv_factory \<Rightarrow> bytes" where
  "dist_outputs_bytes f =
     concat (map (\<lambda>i. serialize_output (slot_deposit_sats f) (user_spks f ! i) 34) [0..<unat (n_users f)])
     @ serialize_output CTV_FACTORY_ANCHOR_SATS CTV_FACTORY_ANCHOR_SPK 4"

definition serialize_outputs_concat :: "('pk, 'xo, 'ca) ctv_factory \<Rightarrow> nat \<Rightarrow> bytes option" where
  "serialize_outputs_concat f dest_cap =
     (let need = unat (n_users f) * 43 + 13
      in if need > dest_cap then None else Some (dist_outputs_bytes f))"

definition compute_dist_tx_th :: "('pk, 'xo, 'ca) secp \<Rightarrow> ('pk, 'xo, 'ca) ctv_factory \<Rightarrow> bytes option" where
  "compute_dist_tx_th E f =
     (let sequences_hash = sha256 E (w_u32_le 0xFFFFFFFE) in
      case serialize_outputs_concat f (CTV_FACTORY_MAX_USERS_SINGLE_LAYER * 43 + 13) of None \<Rightarrow> None
      | Some outputs \<Rightarrow>
          Some (ctv_template_hash (sha256 E) 2 0 1 sequences_hash (n_users f + 1) (sha256 E outputs) 0))"

text \<open>The LSP sweep leaf, when the factory has one: \<open>None\<close> is the error.\<close>

definition build_optional_sweep_leaf ::
  "('pk, 'xo, 'ca) secp \<Rightarrow> 'pk \<Rightarrow> u32 \<Rightarrow> u32 \<Rightarrow> tapscript_leaf option option" where
  "build_optional_sweep_leaf E lsp_pk recovery_offset recovery_cltv =
     (if recovery_offset = 0 then Some None
      else case xonly_from_pubkey E lsp_pk of None \<Rightarrow> None
           | Some (lsp_xonly, _) \<Rightarrow> Some (Some (tapscript_build_cltv_timeout E recovery_cltv lsp_xonly)))"

text \<open>The absolute height of a timeout given as an offset, 0 when there is none.\<close>

definition absolute_cltv :: "u32 \<Rightarrow> u32 \<Rightarrow> u32" where
  "absolute_cltv funding_block_height offset = (if offset = 0 then 0 else funding_block_height + offset)"

definition ctv_factory_build ::
  "('pk, 'xo, 'ca) secp \<Rightarrow> ('pk, 'xo, 'ca) ctv_factory \<Rightarrow> u32 \<Rightarrow> ('pk, 'xo, 'ca) ctv_factory option" where
  "ctv_factory_build E f funding_block_height =
     (if n_users f = 0 then None
      else if unat (n_users f) > CTV_FACTORY_MAX_USERS_SINGLE_LAYER then None
      else if slot_deposit_sats f = 0 then None
      else
        let f = f\<lparr>total_funding_sats := ucast (n_users f) * slot_deposit_sats f + CTV_FACTORY_ANCHOR_SATS\<rparr>;
            f = f\<lparr>recovery_cltv_absolute := absolute_cltv funding_block_height (recovery_offset_blocks f)\<rparr>;
            f = f\<lparr>activation_cltv_absolute := absolute_cltv funding_block_height (activation_offset_blocks f)\<rparr>
        in case musig_aggregate_keys E (lsp_pubkey f # take (unat (n_users f)) (user_pubkeys f)) of None \<Rightarrow> None
           | Some ka \<Rightarrow>
             (case those (map (\<lambda>i. build_user_leaf_spk_2of2 E (lsp_pubkey f) (user_pubkeys f ! i)
                                     (activation_cltv_absolute f)) [0..<unat (n_users f)]) of None \<Rightarrow> None
              | Some leaves \<Rightarrow>
                let f = f\<lparr>keyagg := ka, user_keyagg := map fst leaves, user_spks := map snd leaves\<rparr>
                in case compute_dist_tx_th E f of None \<Rightarrow> None
                   | Some th \<Rightarrow>
                     let f = f\<lparr>dist_tx_th := th\<rparr>
                     in case build_optional_sweep_leaf E (lsp_pubkey f) (recovery_offset_blocks f)
                               (recovery_cltv_absolute f) of None \<Rightarrow> None
                        | Some sweep \<Rightarrow>
                          (case build_factory_funding_spk E (keyagg f) (Some (dist_tx_th f)) sweep of None \<Rightarrow> None
                           | Some spk \<Rightarrow> Some (f\<lparr>funding_spk := spk\<rparr>))))"

definition ctv_factory_verify_dist_tx_th :: "('pk, 'xo, 'ca) secp \<Rightarrow> ('pk, 'xo, 'ca) ctv_factory \<Rightarrow> bytes option" where
  "ctv_factory_verify_dist_tx_th E f = compute_dist_tx_th E f"

datatype out_result = Failed | Need nat | Wrote bytes

text \<open>The output count, one byte or 0xfd and two bytes.\<close>

definition out_count_bytes :: "nat \<Rightarrow> bytes" where
  "out_count_bytes n_outputs =
     (if n_outputs \<le> 0xfc then [of_nat n_outputs]
      else [0xfd, ucast ((of_nat n_outputs :: u64) AND 0xff), ucast (drop_bit 8 (of_nat n_outputs :: u64) AND 0xff)])"

definition ctv_factory_build_dist_tx ::
  "('pk, 'xo, 'ca) ctv_factory \<Rightarrow> bytes \<Rightarrow> u32 \<Rightarrow> nat \<Rightarrow> out_result" where
  "ctv_factory_build_dist_tx f funding_txid funding_vout tx_cap =
     (let n_outputs = unat (n_users f) + 1;
          out_count_varint_len = (if n_outputs \<le> 0xfc then 1 else 3);
          outputs_bytes = unat (n_users f) * 43 + 13;
          need = 4 + 1 + 36 + 1 + 4 + out_count_varint_len + outputs_bytes + 4
      in if tx_cap < need then Need need
         else Wrote (w_u32_le 2 @ [0x01] @ take 32 funding_txid @ w_u32_le funding_vout @ [0x00]
                @ w_u32_le 0xFFFFFFFE @ out_count_bytes n_outputs @ dist_outputs_bytes f @ w_u32_le 0))"

definition build_ctv_path_witness ::
  "('pk, 'xo, 'ca) secp \<Rightarrow> ('xo, 'ca) musig_keyagg \<Rightarrow> bytes \<Rightarrow> tapscript_leaf option \<Rightarrow> nat \<Rightarrow> out_result" where
  "build_ctv_path_witness E ka ctv_th sweep_leaf witness_cap =
     (let ctv_leaf = tapscript_build_ctv E ctv_th;
          merkle_root = (case sweep_leaf of Some sweep \<Rightarrow> tapscript_merkle_root E [ctv_leaf, sweep]
                         | None \<Rightarrow> Some (leaf_hash ctv_leaf))
      in case merkle_root of None \<Rightarrow> Failed
         | Some root \<Rightarrow>
           (case tapscript_tweak_pubkey E (agg_pubkey ka) root of None \<Rightarrow> Failed
            | Some (tweaked, parity) \<Rightarrow>
                let cb = (case sweep_leaf of
                            Some sweep \<Rightarrow> tapscript_build_control_block_2leaf E parity (agg_pubkey ka) sweep
                          | None \<Rightarrow> tapscript_build_control_block E parity (agg_pubkey ka));
                    need = 1 + 1 + 34 + 1 + length cb
                in if witness_cap < need then Need need
                   else Wrote ([0x02, 0x22] @ take 34 (leaf_script ctv_leaf) @ [of_nat (length cb)] @ cb)))"

definition ctv_factory_build_funding_witness ::
  "('pk, 'xo, 'ca) secp \<Rightarrow> ('pk, 'xo, 'ca) ctv_factory \<Rightarrow> nat \<Rightarrow> out_result" where
  "ctv_factory_build_funding_witness E f witness_cap =
     (case build_optional_sweep_leaf E (lsp_pubkey f) (recovery_offset_blocks f) (recovery_cltv_absolute f) of
        None \<Rightarrow> Failed
      | Some sweep \<Rightarrow> build_ctv_path_witness E (keyagg f) (dist_tx_th f) sweep witness_cap)"

definition ctv_factory_build_dist_tx_segwit ::
  "('pk, 'xo, 'ca) secp \<Rightarrow> ('pk, 'xo, 'ca) ctv_factory \<Rightarrow> bytes \<Rightarrow> u32 \<Rightarrow> nat \<Rightarrow> out_result" where
  "ctv_factory_build_dist_tx_segwit E f funding_txid funding_vout tx_cap =
     (case ctv_factory_build_funding_witness E f 128 of
        Wrote witness \<Rightarrow>
          let n_outputs = unat (n_users f) + 1;
              out_count_varint_len = (if n_outputs \<le> 0xfc then 1 else 3);
              outputs_bytes = unat (n_users f) * 43 + 13;
              need = 4 + 2 + 1 + 36 + 1 + 4 + out_count_varint_len + outputs_bytes + length witness + 4
          in if tx_cap < need then Need need
             else Wrote (w_u32_le 2 @ [0x00, 0x01] @ [0x01] @ take 32 funding_txid @ w_u32_le funding_vout @ [0x00]
                    @ w_u32_le 0xFFFFFFFE @ out_count_bytes n_outputs @ dist_outputs_bytes f @ witness @ w_u32_le 0)
      | _ \<Rightarrow> Failed)"

section \<open>The byte writers\<close>

lemma ctv_writers [bytes_simps]:
  "w_u32_le v = le_bytes 4 v" "ctv_write_u32_le v = le_bytes 4 v" "w_u64_le w = le_bytes 8 w"
  by (simp_all add: w_u32_le_def ctv_write_u32_le_def le_bytes_4 w_u64_le_def le_bytes_def[of 8] mult.commute)

lemma serialize_output_ser:
  "length spk < 253 \<Longrightarrow> n = of_nat (length spk) \<Longrightarrow>
   serialize_output amt spk n = ser_output \<lparr>amount_sats = amt, script_pubkey = spk\<rparr>"
  by (simp add: serialize_output_def ser_output_def compact_size_small bytes_simps unat_of_nat)

lemma out_count_bytes_compact: "n \<le> 65535 \<Longrightarrow> out_count_bytes n = compact_size (of_nat n)"
  by (cases "n \<le> 0xfc") (simp_all add: out_count_bytes_def compact_size_small compact_size_medium le_bytes_2)

lemma length_out_count_bytes [simp]: "length (out_count_bytes n) = (if n \<le> 0xfc then 1 else 3)"
  by (simp add: out_count_bytes_def)

section \<open>Specification: the distribution transaction and its template\<close>

text \<open>The template hash of BIP-119, for inputs without scriptSig.\<close>

definition bip119_hash :: "(bytes \<Rightarrow> bytes) \<Rightarrow> tx \<Rightarrow> u32 \<Rightarrow> bytes" where
  "bip119_hash sha t idx =
     sha (le_bytes 4 (tx_version t) @ le_bytes 4 (tx_locktime t)
          @ le_bytes 4 (of_nat (length (tx_ins t)) :: u32)
          @ sha (concat (map (\<lambda>i. le_bytes 4 (nsequence i)) (tx_ins t)))
          @ le_bytes 4 (of_nat (length (tx_outs t)) :: u32)
          @ sha (concat (map ser_output (tx_outs t)))
          @ le_bytes 4 idx)"

abbreviation anchor_output :: tx_output where
  "anchor_output \<equiv> \<lparr>amount_sats = CTV_FACTORY_ANCHOR_SATS, script_pubkey = CTV_FACTORY_ANCHOR_SPK\<rparr>"

text \<open>A covenant transaction: one input, the given outputs, and the anchor last.\<close>

definition covenant_tx :: "bytes \<Rightarrow> u32 \<Rightarrow> tx_output list \<Rightarrow> tx" where
  "covenant_tx txid vout outs =
     one_input_tx 2 \<lparr>prev_txid = txid, prev_vout = vout, nsequence = 0xFFFFFFFE\<rparr> (outs @ [anchor_output]) 0"

definition dist_tx :: "('pk, 'xo, 'ca) ctv_factory \<Rightarrow> bytes \<Rightarrow> u32 \<Rightarrow> tx" where
  "dist_tx f txid vout =
     covenant_tx txid vout (map (\<lambda>spk. \<lparr>amount_sats = slot_deposit_sats f, script_pubkey = spk\<rparr>) (user_spks f))"

lemma anchor_ser: "serialize_output CTV_FACTORY_ANCHOR_SATS CTV_FACTORY_ANCHOR_SPK 4 = ser_output anchor_output"
  by (rule serialize_output_ser) (simp_all add: CTV_FACTORY_ANCHOR_SPK_def)

lemma length_anchor_ser [simp]: "length (ser_output anchor_output) = 13"
  by (simp add: ser_output_def CTV_FACTORY_ANCHOR_SPK_def compact_size_def)

lemma covenant_th:
  assumes "length outs + 1 < 2 ^ 32" and "\<And>x. length (sha x) = 32"
  shows "ctv_template_hash sha 2 0 1 (sha (w_u32_le 0xFFFFFFFE)) (of_nat (length outs) + 1)
           (sha (concat (map ser_output outs) @ ser_output anchor_output)) 0
         = bip119_hash sha (covenant_tx txid vout outs) 0"
  by (simp add: ctv_template_hash_def bip119_hash_def covenant_tx_def assms bytes_simps add.commute)

section \<open>The built factory\<close>

text \<open>Well-formed user outputs: one 34-byte script per user.\<close>

definition spks_ok :: "('pk, 'xo, 'ca) ctv_factory \<Rightarrow> bool" where
  "spks_ok f \<longleftrightarrow> length (user_spks f) = unat (n_users f) \<and> list_all (\<lambda>s. length s = 34) (user_spks f)"

lemma dist_outputs_bytes_ser:
  assumes "spks_ok f"
  shows "dist_outputs_bytes f =
    concat (map ser_output (map (\<lambda>spk. \<lparr>amount_sats = slot_deposit_sats f, script_pubkey = spk\<rparr>) (user_spks f)))
    @ ser_output anchor_output"
proof -
  let ?g = "\<lambda>spk. serialize_output (slot_deposit_sats f) spk 34"
  have "map (\<lambda>i. ?g (user_spks f ! i)) [0..<unat (n_users f)] = map ?g (user_spks f)"
    using assms map_upt_nth[of ?g "user_spks f"] by (simp add: spks_ok_def)
  also have "\<dots> = map (\<lambda>spk. ser_output \<lparr>amount_sats = slot_deposit_sats f, script_pubkey = spk\<rparr>) (user_spks f)"
    using assms by (intro map_cong refl serialize_output_ser) (auto simp: spks_ok_def list_all_iff)
  finally show ?thesis by (simp add: dist_outputs_bytes_def anchor_ser comp_def)
qed

lemma those_map_Some:
  "those (map g xs) = Some ys \<Longrightarrow> length ys = length xs \<and> (\<forall>i<length xs. g (xs ! i) = Some (ys ! i))"
proof (induction xs arbitrary: ys)
  case (Cons x xs)
  then obtain y ys' where "g x = Some y" "those (map g xs) = Some ys'" "ys = y # ys'"
    by (auto split: option.splits)
  with Cons.IH[of ys'] show ?case by (auto simp: nth_Cons split: nat.splits)
qed simp

lemma length_user_leaf_spk:
  "secp_lengths E \<Longrightarrow> build_user_leaf_spk_2of2 E lsp u cltv = Some (ka, spk) \<Longrightarrow> length spk = 34"
  by (auto simp: build_user_leaf_spk_2of2_def build_p2tr_script_pubkey_def Let_def split: option.splits if_splits)

text \<open>What a successful build leaves in the struct.\<close>

lemma ctv_factory_build_facts:
  assumes "ctv_factory_build E f h = Some f'"
  shows "n_users f' = n_users f" "slot_deposit_sats f' = slot_deposit_sats f" "lsp_pubkey f' = lsp_pubkey f"
    and "user_pubkeys f' = user_pubkeys f" "recovery_offset_blocks f' = recovery_offset_blocks f"
    and "0 < unat (n_users f)" "unat (n_users f) \<le> 200"
    and "total_funding_sats f' = ucast (n_users f) * slot_deposit_sats f + 240"
    and "recovery_cltv_absolute f' = absolute_cltv h (recovery_offset_blocks f)"
    and "activation_cltv_absolute f' = absolute_cltv h (activation_offset_blocks f)"
    and "musig_aggregate_keys E (lsp_pubkey f # take (unat (n_users f)) (user_pubkeys f)) = Some (keyagg f')"
    and "those (map (\<lambda>i. build_user_leaf_spk_2of2 E (lsp_pubkey f) (user_pubkeys f ! i) (activation_cltv_absolute f'))
           [0..<unat (n_users f)]) = Some (zip (user_keyagg f') (user_spks f'))"
    and "length (user_spks f') = length (user_keyagg f')"
    and "compute_dist_tx_th E f' = Some (dist_tx_th f')"
    and "\<exists>sweep. build_optional_sweep_leaf E (lsp_pubkey f) (recovery_offset_blocks f) (recovery_cltv_absolute f') = Some sweep
           \<and> build_factory_funding_spk E (keyagg f') (Some (dist_tx_th f')) sweep = Some (funding_spk f')"
  using assms
  by (auto simp: ctv_factory_build_def Let_def CTV_FACTORY_MAX_USERS_SINGLE_LAYER_def CTV_FACTORY_ANCHOR_SATS_def
      compute_dist_tx_th_def serialize_outputs_concat_def dist_outputs_bytes_def zip_map_fst_snd unat_gt_0
      split: option.splits if_splits)

lemma built_user_leaf:
  assumes "ctv_factory_build E f h = Some f'" and "i < unat (n_users f)"
  shows "build_user_leaf_spk_2of2 E (lsp_pubkey f) (user_pubkeys f ! i) (activation_cltv_absolute f')
         = Some (user_keyagg f' ! i, user_spks f' ! i)"
proof -
  note F = ctv_factory_build_facts[OF assms(1)]
  have z: "length (zip (user_keyagg f') (user_spks f')) = unat (n_users f)"
    using those_map_Some[OF F(12)] by simp
  have "build_user_leaf_spk_2of2 E (lsp_pubkey f) (user_pubkeys f ! i) (activation_cltv_absolute f')
      = Some (zip (user_keyagg f') (user_spks f') ! i)"
    using those_map_Some[OF F(12)] assms(2) by simp
  then show ?thesis using z F(13) assms(2) by simp
qed

lemma built_spks_ok:
  assumes "secp_lengths E" and "ctv_factory_build E f h = Some f'"
  shows "spks_ok f'"
proof -
  note F = ctv_factory_build_facts[OF assms(2)]
  have "length (user_spks f') = unat (n_users f')" using those_map_Some[OF F(12)] F(1,13) by simp
  then show ?thesis
    using length_user_leaf_spk[OF assms(1) built_user_leaf[OF assms(2)]] F(1)
    by (simp add: spks_ok_def list_all_length)
qed

lemma built_dist_tx_th:
  assumes "secp_lengths E" and "ctv_factory_build E f h = Some f'"
  shows "dist_tx_th f' = bip119_hash (sha256 E) (dist_tx f' txid vout) 0"
proof -
  note F = ctv_factory_build_facts[OF assms(2)] and ok = built_spks_ok[OF assms]
  let ?outs = "map (\<lambda>spk. \<lparr>amount_sats = slot_deposit_sats f', script_pubkey = spk\<rparr>) (user_spks f')"
  have n: "n_users f' = of_nat (length ?outs)" "length ?outs + 1 < 2 ^ 32"
    using ok F(1,7) by (simp_all add: spks_ok_def)
  have sha: "\<And>x. length (sha256 E x) = 32" using assms(1) by (simp add: secp_lengths_def)
  have "dist_tx_th f' = ctv_template_hash (sha256 E) 2 0 1 (sha256 E (w_u32_le 0xFFFFFFFE)) (of_nat (length ?outs) + 1)
      (sha256 E (concat (map ser_output ?outs) @ ser_output anchor_output)) 0"
    using F(14) unfolding compute_dist_tx_th_def Let_def serialize_outputs_concat_def dist_outputs_bytes_ser[OF ok] n(1)
    by (simp split: if_splits)
  then show ?thesis unfolding dist_tx_def covenant_th[where sha = "sha256 E", OF n(2) sha, of txid vout] .
qed

lemma built_body:
  assumes "spks_ok f" and "unat (n_users f) \<le> 200" and "length txid = 32"
  shows "[0x01] @ take 32 txid @ w_u32_le vout @ [0x00] @ w_u32_le 0xFFFFFFFE
           @ out_count_bytes (unat (n_users f) + 1) @ dist_outputs_bytes f = tx_body (dist_tx f txid vout)"
    and "length (tx_body (dist_tx f txid vout)) = 46 + 1 + (unat (n_users f) * 43 + 13) - 4"
proof -
  let ?outs = "map (\<lambda>spk. \<lparr>amount_sats = slot_deposit_sats f, script_pubkey = spk\<rparr>) (user_spks f)"
  have l: "length (user_spks f) = unat (n_users f)" "\<forall>s\<in>set (user_spks f). length s = 34"
    using assms(1) by (simp_all add: spks_ok_def list_all_iff)
  have c: "compact_size (1 + of_nat (length (user_spks f))) = out_count_bytes (unat (n_users f) + 1)"
    using assms(2) l(1) out_count_bytes_compact[of "unat (n_users f) + 1"] by simp
  show b: "[0x01] @ take 32 txid @ w_u32_le vout @ [0x00] @ w_u32_le 0xFFFFFFFE
           @ out_count_bytes (unat (n_users f) + 1) @ dist_outputs_bytes f = tx_body (dist_tx f txid vout)"
    using assms(3) c
    by (simp add: dist_tx_def covenant_tx_def tx_body_def ser_input_def dist_outputs_bytes_ser[OF assms(1)]
        bytes_simps compact_size_small[of 1, simplified])
  have "\<forall>s\<in>set (user_spks f). length (ser_output \<lparr>amount_sats = slot_deposit_sats f, script_pubkey = s\<rparr>) = 43"
    using l(2) by (simp add: ser_output_def compact_size_small[of 34, simplified])
  then have "length (concat (map ser_output ?outs)) = unat (n_users f) * 43"
    using l(1) by (simp add: length_concat comp_def sum_list_triv cong: map_cong)
  then show "length (tx_body (dist_tx f txid vout)) = 46 + 1 + (unat (n_users f) * 43 + 13) - 4"
    unfolding b[symmetric] using assms(2,3) by (simp add: dist_outputs_bytes_ser[OF assms(1)] bytes_simps)
qed

text \<open>A two-user factory on the sample library, with both timeouts.\<close>

definition sample_factory :: "(bytes, bytes, bytes) ctv_factory" where
  "sample_factory =
     \<lparr>n_users = 2, slot_deposit_sats = 50000, recovery_offset_blocks = 4320, activation_offset_blocks = 144,
      lsp_pubkey = replicate 32 1, user_pubkeys = [replicate 32 2, replicate 32 3],
      total_funding_sats = 0, recovery_cltv_absolute = 0, activation_cltv_absolute = 0,
      keyagg = \<lparr>agg_pubkey = [], cache = []\<rparr>, dist_tx_th = [], funding_spk = [], user_keyagg = [], user_spks = []\<rparr>"

lemma sample_factory_builds: "\<exists>f'. ctv_factory_build sample_secp sample_factory 800000 = Some f'"
  by (simp add: ctv_factory_build_def sample_factory_def sample_secp_def Let_def musig_aggregate_keys_def
      CTV_FACTORY_MAX_USERS_SINGLE_LAYER_def build_user_leaf_spk_2of2_def tapscript_tweak_pubkey_def
      compute_dist_tx_th_def serialize_outputs_concat_def build_optional_sweep_leaf_def upt_rec
      build_factory_funding_spk_def tapscript_merkle_root.simps)

lemma ser_dist_tx:
  "ser_tx (dist_tx f txid vout) = w_u32_le 2 @ tx_body (dist_tx f txid vout) @ w_u32_le 0"
  by (simp add: ser_tx_body dist_tx_def covenant_tx_def bytes_simps)

lemma length_dist_tx:
  assumes "spks_ok f" and "unat (n_users f) \<le> 200" and "length txid = 32"
  shows "length (ser_tx (dist_tx f txid vout)) = 4 + 1 + 36 + 1 + 4 + 1 + (unat (n_users f) * 43 + 13) + 4"
  unfolding ser_dist_tx using built_body(2)[OF assms, of vout] by (simp add: bytes_simps)

text \<open>The unsigned distribution transaction.  For every built factory,
  \<open>ctv_factory_build_dist_tx\<close> writes exactly the serialisation of the intended transaction
  when the caller's buffer is large enough, and otherwise reports its exact length.\<close>

lemma ctv_factory_build_dist_tx_exact:
  assumes "secp_lengths E" and "ctv_factory_build E f h = Some f'" and "length txid = 32"
  shows "ctv_factory_build_dist_tx f' txid vout cap =
    (let tx = ser_tx (dist_tx f' txid vout) in if cap < length tx then Need (length tx) else Wrote tx)"
proof -
  note F = ctv_factory_build_facts[OF assms(2)] and ok = built_spks_ok[OF assms(1,2)]
  have n: "unat (n_users f') \<le> 200" using F(1,7) by simp
  show ?thesis unfolding Let_def length_dist_tx[OF ok n assms(3)] ctv_factory_build_dist_tx_def using n
    by (simp add: ser_dist_tx built_body(1)[OF ok n assms(3), symmetric])
qed

section \<open>The covenant escape path\<close>

lemma length_ctv_script: "secp_lengths E \<Longrightarrow> length th = 32 \<Longrightarrow> leaf_script (tapscript_build_ctv E th) = [0x20] @ th @ [0xb3]"
  by (simp add: tapscript_build_ctv_def)

text \<open>The witness the program assembles opens the funding output it built.\<close>

lemma ctv_path_witness_opens:
  assumes E: "secp_lengths E" "secp_musig_tweak E"
    and ka: "musig_aggregate_keys E pks = Some ka" and th: "length th = 32"
    and sweep: "\<And>s. sweep = Some s \<Longrightarrow> length (leaf_hash s) = 32"
    and spk: "build_factory_funding_spk E ka (Some th) sweep = Some spk"
    and cap: "102 \<le> cap"
  shows "\<exists>cb. length cb \<le> 65 \<and> script_path_opens E spk ([0x20] @ th @ [0xb3]) cb \<and>
    build_ctv_path_witness E ka th sweep cap = Wrote ([0x02, 0x22] @ ([0x20] @ th @ [0xb3]) @ [of_nat (length cb)] @ cb)"
proof -
  let ?P = "agg_pubkey ka" and ?s = "[0x20] @ th @ [0xb3]"
  let ?leaf = "tapscript_compute_leaf_hash E ?s"
  have leaf: "tapscript_build_ctv E th = ?leaf" using th by (simp add: tapscript_build_ctv_def)
  have agg: "musig_pubkey_agg E pks = Some (?P, cache ka)"
    using ka by (auto simp: musig_aggregate_keys_def split: option.splits prod.splits)
  have tw: "musig_pubkey_xonly_tweak_add E (cache ka) t = xonly_tweak_add E ?P t" for t
    using E(2) agg unfolding secp_musig_tweak_def by blast
  define root where "root = (case sweep of Some s \<Rightarrow> tap_branch E (leaf_hash ?leaf) (leaf_hash s) | None \<Rightarrow> leaf_hash ?leaf)"
  have r32: "length root = 32" using E(1) by (simp add: root_def split: option.splits)
  have mr: "tapscript_merkle_root E [?leaf, s] = Some (tap_branch E (leaf_hash ?leaf) (leaf_hash s))" for s
    by (subst tapscript_merkle_root.simps) simp
  obtain q par where q: "tapscript_tweak_pubkey E ?P root = Some (q, par)" and pq: "spk = build_p2tr_script_pubkey E q"
    using spk r32 unfolding build_factory_funding_spk_def tapscript_tweak_pubkey_def Let_def tw root_def
    by (auto simp: mr[simplified] leaf split: option.splits)
  have l: "length ?s < 253" using th by simp
  define cb where "cb = (case sweep of Some s \<Rightarrow> tapscript_build_control_block_2leaf E par ?P s
      | None \<Rightarrow> tapscript_build_control_block E par ?P)"
  have lc: "length cb \<le> 65" using E(1) sweep by (simp add: cb_def tapscript_build_control_block_2leaf_def
      tapscript_build_control_block_def split: option.splits)
  have "script_path_opens E spk ?s cb"
  proof (cases sweep)
    case None
    then show ?thesis using one_leaf_opens[OF E(1) l] q pq by (simp add: cb_def root_def)
  next
    case (Some s)
    then show ?thesis using two_leaf_opens[OF E(1) l sweep[OF Some]] q pq leaf_hash_bip341[OF l, of E]
      by (simp add: cb_def root_def)
  qed
  moreover have "build_ctv_path_witness E ka th sweep cap = Wrote ([0x02, 0x22] @ ?s @ [of_nat (length cb)] @ cb)"
    using q lc cap th unfolding build_ctv_path_witness_def Let_def leaf
    by (cases sweep) (simp_all add: mr[simplified] root_def cb_def)
  ultimately show ?thesis using lc by blast
qed

lemma sweep_leaf_hash_length:
  "secp_lengths E \<Longrightarrow> build_optional_sweep_leaf E lsp off cltv = Some (Some s) \<Longrightarrow> length (leaf_hash s) = 32"
  by (auto simp: build_optional_sweep_leaf_def tapscript_build_cltv_timeout_def split: if_splits option.splits)

lemma built_funding_witness:
  assumes "secp_lengths E" and "secp_musig_tweak E" and "ctv_factory_build E f h = Some f'"
  shows "\<exists>cb. length cb \<le> 65 \<and> script_path_opens E (funding_spk f') ([0x20] @ dist_tx_th f' @ [0xb3]) cb \<and>
    ctv_factory_build_funding_witness E f' 128
    = Wrote ([0x02, 0x22] @ ([0x20] @ dist_tx_th f' @ [0xb3]) @ [of_nat (length cb)] @ cb)"
proof -
  note F = ctv_factory_build_facts[OF assms(3)]
  obtain sweep where s: "build_optional_sweep_leaf E (lsp_pubkey f) (recovery_offset_blocks f) (recovery_cltv_absolute f') = Some sweep"
    and spk: "build_factory_funding_spk E (keyagg f') (Some (dist_tx_th f')) sweep = Some (funding_spk f')"
    using F(15) by blast
  have th: "length (dist_tx_th f') = 32"
    using built_dist_tx_th[OF assms(1,3), of "[]" 0] assms(1) by (simp add: bip119_hash_def secp_lengths_def)
  have "length (leaf_hash l) = 32" if "sweep = Some l" for l
    using sweep_leaf_hash_length[OF assms(1)] s that by blast
  from ctv_path_witness_opens[OF assms(1,2) F(11) th this spk, of 128] show ?thesis
    unfolding ctv_factory_build_funding_witness_def F(3,5) s by simp
qed

text \<open>C1: The escape path works.  Once \<open>ctv_factory_build\<close> succeeds, any holder of the factory
  data can spend the funding output without a signature: the segwit distribution
  transaction that \<open>ctv_factory_build_dist_tx_segwit\<close> writes, for any funding outpoint, is
  the intended transaction with a two-item witness whose control block opens the funding
  output to the covenant script, and that script demands exactly the BIP-119 template
  hash of this very transaction.\<close>

theorem ctv_factory_escape_path:
  fixes f' txid vout
  defines "t \<equiv> dist_tx f' txid vout"
  assumes "secp_lengths E" and "secp_musig_tweak E"
    and "ctv_factory_build E f h = Some f'" and "length txid = 32" and "9000 \<le> cap"
  shows "\<exists>cb. ctv_factory_build_dist_tx_segwit E f' txid vout cap =
                Wrote (ser_segwit t [[[0x20] @ bip119_hash (sha256 E) t 0 @ [0xb3], cb]])
            \<and> script_path_opens E (funding_spk f') ([0x20] @ bip119_hash (sha256 E) t 0 @ [0xb3]) cb"
proof -
  note F = ctv_factory_build_facts[OF assms(4)] and ok = built_spks_ok[OF assms(2,4)]
  have n: "unat (n_users f') \<le> 200" using F(1,7) by simp
  have th: "bip119_hash (sha256 E) t 0 = dist_tx_th f'" unfolding t_def using built_dist_tx_th[OF assms(2,4)] by simp
  have th32: "length (dist_tx_th f') = 32" using assms(2) by (simp add: th[symmetric] bip119_hash_def secp_lengths_def)
  let ?s = "[0x20] @ dist_tx_th f' @ [0xb3]"
  obtain cb where cb: "length cb \<le> 65" "script_path_opens E (funding_spk f') ?s cb"
    "ctv_factory_build_funding_witness E f' 128 = Wrote ([0x02, 0x22] @ ?s @ [of_nat (length cb)] @ cb)"
    using built_funding_witness[OF assms(2-4)] by blast
  have w: "[0x02, 0x22] @ ?s @ [of_nat (length cb)] @ cb
      = compact_size (of_nat (length [?s, cb])) @ concat (map (\<lambda>w. compact_size (of_nat (length w)) @ w) [?s, cb])"
    using cb(1) th32 compact_size_small[of 34] compact_size_small[of 2] compact_size_small[of "length cb"] by simp
  have "ser_segwit t [[?s, cb]] = w_u32_le 2 @ [0x00, 0x01] @ tx_body t @ ([0x02, 0x22] @ ?s @ [of_nat (length cb)] @ cb) @ w_u32_le 0"
    unfolding w by (simp add: ser_segwit_def t_def tx_body_def dist_tx_def covenant_tx_def bytes_simps)
  then have "ctv_factory_build_dist_tx_segwit E f' txid vout cap = Wrote (ser_segwit t [[?s, cb]])"
    unfolding ctv_factory_build_dist_tx_segwit_def cb(3) using n cb(1) th32 assms(6)
    by (simp add: t_def built_body(1)[OF ok n assms(5), symmetric])
  with cb(2) show ?thesis unfolding th by blast
qed

theorem ctv_factory_escape_path_witness:
  "\<exists>f' cb. ctv_factory_build sample_secp sample_factory 800000 = Some f'
     \<and> script_path_opens sample_secp (funding_spk f')
         ([0x20] @ bip119_hash (sha256 sample_secp) (dist_tx f' (replicate 32 1) 0) 0 @ [0xb3]) cb"
proof -
  obtain f' where f': "ctv_factory_build sample_secp sample_factory 800000 = Some f'"
    using sample_factory_builds by auto
  from ctv_factory_escape_path[OF _ _ f', of "replicate 32 1" 9000 0] f' show ?thesis by auto
qed

text \<open>What \<open>ctv_factory_build_dist_tx\<close> writes, read back by the decoder of transactions.\<close>

lemma valid_dist_tx:
  assumes "spks_ok f" and "unat (n_users f) \<le> 200" and "length txid = 32"
  shows "valid_tx (dist_tx f txid vout)"
  using assms
  by (simp add: valid_tx_def dist_tx_def covenant_tx_def valid_input_def valid_output_def spks_ok_def list_all_iff
      CTV_FACTORY_ANCHOR_SPK_def)

lemma written_dist_tx:
  assumes "secp_lengths E" and "ctv_factory_build E f h = Some f'" and "length txid = 32" and "8664 \<le> cap"
  shows "\<exists>bs. ctv_factory_build_dist_tx f' txid vout cap = Wrote bs \<and> dec_tx bs = Some (dist_tx f' txid vout, [])
    \<and> serialize_outputs_concat f' (200 * 43 + 13) = Some (concat (map ser_output (tx_outs (dist_tx f' txid vout))))"
proof -
  note F = ctv_factory_build_facts[OF assms(2)] and ok = built_spks_ok[OF assms(1,2)]
  have n: "unat (n_users f') \<le> 200" using F(1,7) by simp
  have "ctv_factory_build_dist_tx f' txid vout cap = Wrote (ser_tx (dist_tx f' txid vout))"
    unfolding ctv_factory_build_dist_tx_exact[OF assms(1-3)] Let_def using length_dist_tx[OF ok n assms(3), of vout] n assms(4) by simp
  moreover have "dec_tx (ser_tx (dist_tx f' txid vout)) = Some (dist_tx f' txid vout, [])"
    using tx_codec.dec_enc[OF valid_dist_tx[OF ok n assms(3)], of vout "[]"] by simp
  moreover have "serialize_outputs_concat f' (200 * 43 + 13) = Some (concat (map ser_output (tx_outs (dist_tx f' txid vout))))"
    using n by (simp add: serialize_outputs_concat_def dist_outputs_bytes_ser[OF ok] dist_tx_def covenant_tx_def)
  ultimately show ?thesis by blast
qed

text \<open>C14: Nothing is lost and nothing is minted.  For a deposit of at most the money supply, the bytes that
  \<open>ctv_factory_build_dist_tx\<close> writes into a large enough buffer are those of a transaction whose outputs, the
  240-satoshi anchor included, add up to \<open>total_funding_sats\<close>, which is the sum of the deposits and the anchor
  without wrap-around; and the outputs \<open>serialize_outputs_concat\<close> feeds into the template hash
  are the same.  So the transaction pays no fee.\<close>

theorem ctv_factory_value_conserved:
  assumes "secp_lengths E" and "ctv_factory_build E f h = Some f'" and "slot_deposit_sats f \<le> 2100000000000000"
    and "length txid = 32" and "8664 \<le> cap"
  shows "\<exists>bs t. ctv_factory_build_dist_tx f' txid vout cap = Wrote bs \<and> dec_tx bs = Some (t, [])
    \<and> (\<Sum>q\<leftarrow>tx_outs t. unat (amount_sats q)) = unat (total_funding_sats f')
    \<and> unat (total_funding_sats f') = unat (n_users f) * unat (slot_deposit_sats f) + 240
    \<and> serialize_outputs_concat f' (200 * 43 + 13) = Some (concat (map ser_output (tx_outs t)))"
proof -
  note F = ctv_factory_build_facts[OF assms(2)] and ok = built_spks_ok[OF assms(1,2)]
  let ?n = "unat (n_users f)" and ?s = "unat (slot_deposit_sats f)"
  have b: "?n \<le> 200" "?s \<le> 2100000000000000" using F(7) assms(3) by (simp_all add: word_le_nat_alt)
  then have p: "?n * ?s \<le> 200 * 2100000000000000" by (rule mult_le_mono)
  have "unat (ucast (n_users f) * slot_deposit_sats f :: u64) = ?n * ?s"
    using p by (subst unat_mult_nowrap) (simp_all add: unat_ucast_up)
  then have t: "unat (total_funding_sats f') = ?n * ?s + 240"
    using p unfolding F(8) by (subst unat_plus_nowrap) simp_all
  have "(\<Sum>q\<leftarrow>tx_outs (dist_tx f' txid vout). unat (amount_sats q)) = ?n * ?s + 240"
    using ok F(1,2) by (simp add: dist_tx_def covenant_tx_def comp_def sum_list_triv spks_ok_def CTV_FACTORY_ANCHOR_SATS_def)
  with t written_dist_tx[OF assms(1,2,4,5), of vout] show ?thesis by auto
qed

theorem ctv_factory_value_conserved_witness:
  "\<exists>f' bs t. ctv_factory_build sample_secp sample_factory 800000 = Some f' \<and> unat (total_funding_sats f') = 100240
     \<and> ctv_factory_build_dist_tx f' (replicate 32 1) 0 9000 = Wrote bs \<and> dec_tx bs = Some (t, [])
     \<and> (\<Sum>q\<leftarrow>tx_outs t. unat (amount_sats q)) = 100240"
proof -
  obtain f' where f': "ctv_factory_build sample_secp sample_factory 800000 = Some f'"
    using sample_factory_builds by auto
  from ctv_factory_value_conserved[OF _ f', of "replicate 32 1" 9000 0] f' show ?thesis by (auto simp: sample_factory_def)
qed

text \<open>The control block and script with which the LSP reclaims an inactive user's output.\<close>

lemma user_leaf_timeout_opens:
  assumes "secp_lengths E" and "build_user_leaf_spk_2of2 E lsp u cltv = Some (ka, spk)" and "cltv \<noteq> 0"
    and "xonly_from_pubkey E lsp = Some (x, par)"
  shows "\<exists>par. script_path_opens E spk (leaf_script (tapscript_build_cltv_timeout E cltv x))
           (tapscript_build_control_block E par (agg_pubkey ka))"
proof -
  let ?s = "encode_scriptnum cltv @ [0xb1, 0x75, 0x20] @ xonly_serialize E x @ [0xac]"
  have l: "length ?s < 253" using assms(1) length_encode_scriptnum[of cltv] by simp
  obtain q p where "tapscript_tweak_pubkey E (agg_pubkey ka) (leaf_hash (tapscript_compute_leaf_hash E ?s)) = Some (q, p)"
    and "spk = build_p2tr_script_pubkey E q"
    using assms(2-4) by (auto simp: build_user_leaf_spk_2of2_def tapscript_build_cltv_timeout_def
        build_p2tr_script_pubkey_def Let_def split: option.splits)
  with one_leaf_opens[OF assms(1) l] show ?thesis by (auto simp: tapscript_build_cltv_timeout_def)
qed


lemma sample_secp_keys:
  "musig_pubkey_agg sample_secp ps = (if ps = [] then None else Some (hd ps, hd ps))"
  "xonly_from_pubkey sample_secp p = Some (p, odd (length p))"
  by (simp_all add: sample_secp_def)


end
