(* ===== verification/CTV_Hier.thy ===== *)
theory CTV_Hier
  imports CTV_Factory
begin

text \<open>
  The hierarchical covenant factory, \<^verbatim>\<open>src/ctv_factory.c\<close> (second half): a uniform tree of
  covenant transactions of the given fanout and depth, built bottom-up, with the funding
  output committing to the root, and the resolver that computes the outpoint of a user's
  leaf before anything is broadcast.

  The struct is the record \<open>ctv_hier_factory\<close> (fields it shares with the single-layer
  struct carry the prefix \<open>h_\<close>).  \<open>depth_remaining\<close> is a natural number: the code only
  decrements it while it is positive.  Temporary arrays are assumed to be allocated.
\<close>

section \<open>Model\<close>

definition CTV_HIER_FACTORY_MAX_USERS :: u64 where
  "CTV_HIER_FACTORY_MAX_USERS = 65536"

definition CTV_HIER_FACTORY_MAX_FANOUT :: u8 where
  "CTV_HIER_FACTORY_MAX_FANOUT = 16"

definition CTV_HIER_FACTORY_MAX_DEPTH :: u8 where
  "CTV_HIER_FACTORY_MAX_DEPTH = 8"

record ('pk, 'xo, 'ca) ctv_hier_factory =
  depth :: u8
  fanout :: u8
  h_n_users :: u32
  h_slot_deposit_sats :: u64
  h_recovery_offset_blocks :: u32
  h_activation_offset_blocks :: u32
  h_lsp_pubkey :: 'pk
  h_user_pubkeys :: "'pk list"
  n_internal_nodes :: u32
  h_total_funding_sats :: u64
  h_recovery_cltv_absolute :: u32
  h_activation_cltv_absolute :: u32
  root_th :: bytes
  root_keyagg :: "('xo, 'ca) musig_keyagg"
  h_funding_spk :: bytes

text \<open>The outputs buffer of one layer: the children in order and the anchor.\<close>

definition layer_outputs_bytes :: "(u64 \<times> bytes) list \<Rightarrow> bytes" where
  "layer_outputs_bytes children =
     concat (map (\<lambda>(amt, spk). serialize_output amt spk 34) children)
     @ serialize_output CTV_FACTORY_ANCHOR_SATS CTV_FACTORY_ANCHOR_SPK 4"

text \<open>The common end of \<^verbatim>\<open>hier_build_subtree\<close>, from the children's amounts and scripts.\<close>

definition hier_finish_subtree ::
  "('pk, 'xo, 'ca) secp \<Rightarrow> u8 \<Rightarrow> ('xo, 'ca) musig_keyagg \<Rightarrow> (u64 \<times> bytes) list
   \<Rightarrow> (bytes \<times> ('xo, 'ca) musig_keyagg \<times> bytes \<times> u64) option" where
  "hier_finish_subtree E fan ka children =
     (let total_amount = foldl (\<lambda>t (amt, spk). t + amt) 0 children + CTV_FACTORY_ANCHOR_SATS;
          outputs_hash = sha256 E (layer_outputs_bytes children);
          sequences_hash = sha256 E (w_u32_le 0xFFFFFFFE);
          th = ctv_template_hash (sha256 E) 2 0 1 sequences_hash (ucast fan + 1) outputs_hash 0
      in case build_factory_funding_spk E ka (Some th) None of None \<Rightarrow> None
         | Some spk \<Rightarrow> Some (th, ka, spk, total_amount))"

fun hier_build_subtree ::
  "('pk, 'xo, 'ca) secp \<Rightarrow> 'pk \<Rightarrow> 'pk list \<Rightarrow> u32 \<Rightarrow> u8 \<Rightarrow> nat \<Rightarrow> u64 \<Rightarrow> u32
   \<Rightarrow> (bytes \<times> ('xo, 'ca) musig_keyagg \<times> bytes \<times> u64) option" where
  "hier_build_subtree E lsp_pk users n fan 0 slot cltv =
     (case musig_aggregate_keys E (lsp_pk # take (unat n) users) of None \<Rightarrow> None
      | Some ka \<Rightarrow>
          (case those (map (\<lambda>i. build_user_leaf_spk_2of2 E lsp_pk (users ! i) cltv) [0..<unat fan]) of None \<Rightarrow> None
           | Some leaves \<Rightarrow> hier_finish_subtree E fan ka (map (\<lambda>(_, spk). (slot, spk)) leaves)))"
| "hier_build_subtree E lsp_pk users n fan (Suc d) slot cltv =
     (case musig_aggregate_keys E (lsp_pk # take (unat n) users) of None \<Rightarrow> None
      | Some ka \<Rightarrow>
          let users_per_child = n div ucast fan in
          (case those (map (\<lambda>i. hier_build_subtree E lsp_pk (drop (i * unat users_per_child) users)
                                  users_per_child fan d slot cltv) [0..<unat fan]) of None \<Rightarrow> None
           | Some subs \<Rightarrow> hier_finish_subtree E fan ka (map (\<lambda>(_, _, spk, amt). (amt, spk)) subs)))"

text \<open>The loop that computes \<^verbatim>\<open>fanout ^ depth\<close> and rejects more than the maximum.\<close>

fun expected_n_loop :: "nat \<Rightarrow> u64 \<Rightarrow> u64 \<Rightarrow> u64 option" where
  "expected_n_loop 0 fan expected_n = Some expected_n"
| "expected_n_loop (Suc i) fan expected_n =
     (let expected_n = expected_n * fan
      in if expected_n > CTV_HIER_FACTORY_MAX_USERS then None else expected_n_loop i fan expected_n)"

definition ctv_hier_factory_build ::
  "('pk, 'xo, 'ca) secp \<Rightarrow> ('pk, 'xo, 'ca) ctv_hier_factory \<Rightarrow> u32 \<Rightarrow> ('pk, 'xo, 'ca) ctv_hier_factory option" where
  "ctv_hier_factory_build E f funding_block_height =
     (if depth f = 0 \<or> depth f > CTV_HIER_FACTORY_MAX_DEPTH then None
      else if fanout f < 2 \<or> fanout f > CTV_HIER_FACTORY_MAX_FANOUT then None
      else if h_slot_deposit_sats f = 0 then None
      else case expected_n_loop (unat (depth f)) (ucast (fanout f)) 1 of None \<Rightarrow> None
      | Some expected_n \<Rightarrow>
          if ucast (h_n_users f) \<noteq> expected_n then None
          else
            let f = f\<lparr>n_internal_nodes := ucast ((expected_n - 1) div (ucast (fanout f) - 1))\<rparr>;
                f = f\<lparr>h_total_funding_sats := ucast (h_n_users f) * h_slot_deposit_sats f
                       + ucast (n_internal_nodes f) * CTV_FACTORY_ANCHOR_SATS\<rparr>;
                f = f\<lparr>h_recovery_cltv_absolute := absolute_cltv funding_block_height (h_recovery_offset_blocks f)\<rparr>;
                f = f\<lparr>h_activation_cltv_absolute := absolute_cltv funding_block_height (h_activation_offset_blocks f)\<rparr>
            in case hier_build_subtree E (h_lsp_pubkey f) (h_user_pubkeys f) (h_n_users f) (fanout f)
                      (unat (depth f) - 1) (h_slot_deposit_sats f) (h_activation_cltv_absolute f) of None \<Rightarrow> None
               | Some (th, ka, _, _) \<Rightarrow>
                   let f = f\<lparr>root_th := th, root_keyagg := ka\<rparr> in
                   (case build_optional_sweep_leaf E (h_lsp_pubkey f) (h_recovery_offset_blocks f)
                           (h_recovery_cltv_absolute f) of None \<Rightarrow> None
                    | Some sweep \<Rightarrow>
                        (case build_factory_funding_spk E (root_keyagg f) (Some (root_th f)) sweep of None \<Rightarrow> None
                         | Some spk \<Rightarrow> Some (f\<lparr>h_funding_spk := spk\<rparr>))))"

definition ctv_hier_factory_build_funding_witness ::
  "('pk, 'xo, 'ca) secp \<Rightarrow> ('pk, 'xo, 'ca) ctv_hier_factory \<Rightarrow> nat \<Rightarrow> out_result" where
  "ctv_hier_factory_build_funding_witness E f witness_cap =
     (case build_optional_sweep_leaf E (h_lsp_pubkey f) (h_recovery_offset_blocks f) (h_recovery_cltv_absolute f) of
        None \<Rightarrow> Failed
      | Some sweep \<Rightarrow> build_ctv_path_witness E (root_keyagg f) (root_th f) sweep witness_cap)"

definition compute_layer_txid :: "(bytes \<Rightarrow> bytes) \<Rightarrow> bytes \<Rightarrow> u32 \<Rightarrow> u8 \<Rightarrow> bytes \<Rightarrow> bytes" where
  "compute_layer_txid sha parent_txid parent_vout fan outputs_concat =
     (let n_outputs = unat fan + 1;
          buf = w_u32_le 2 @ [0x01] @ take 32 parent_txid @ w_u32_le parent_vout @ [0x00] @ w_u32_le 0xFFFFFFFE
                @ out_count_bytes n_outputs @ outputs_concat @ w_u32_le 0
      in sha (sha buf))"

definition hier_compute_subtree_spk ::
  "('pk, 'xo, 'ca) secp \<Rightarrow> 'pk \<Rightarrow> 'pk list \<Rightarrow> u32 \<Rightarrow> u8 \<Rightarrow> nat \<Rightarrow> u64 \<Rightarrow> u32 \<Rightarrow> (bytes \<times> u64) option" where
  "hier_compute_subtree_spk E lsp_pk users n fan d slot cltv =
     (case hier_build_subtree E lsp_pk users n fan d slot cltv of None \<Rightarrow> None
      | Some (_, _, spk, amt) \<Rightarrow> Some (spk, amt))"

text \<open>The base-\<open>fanout\<close> digits of the user index, most significant first, without the last.\<close>

fun path_loop :: "nat \<Rightarrow> u32 \<Rightarrow> u32 \<Rightarrow> u32 \<Rightarrow> u32 list" where
  "path_loop 0 fan idx users_per_subtree = []"
| "path_loop (Suc i) fan idx users_per_subtree =
     (let users_per_subtree = users_per_subtree div fan
      in idx div users_per_subtree # path_loop i fan (idx mod users_per_subtree) users_per_subtree)"

text \<open>The children of one layer of the walk, and the walk from the root to the leaf layer.\<close>

definition walk_children ::
  "('pk, 'xo, 'ca) secp \<Rightarrow> ('pk, 'xo, 'ca) ctv_hier_factory \<Rightarrow> nat \<Rightarrow> 'pk list \<Rightarrow> u32 \<Rightarrow> (u64 \<times> bytes) list option" where
  "walk_children E f depth_remaining subtree_users subtree_n =
     (let users_per_child = subtree_n div ucast (fanout f) in
      those (map (\<lambda>i.
        if depth_remaining = 0 then
          (case build_user_leaf_spk_2of2 E (h_lsp_pubkey f) (subtree_users ! i) (h_activation_cltv_absolute f) of None \<Rightarrow> None
           | Some (_, spk) \<Rightarrow> Some (h_slot_deposit_sats f, spk))
        else
          (case hier_compute_subtree_spk E (h_lsp_pubkey f) (drop (i * unat users_per_child) subtree_users)
                  users_per_child (fanout f) (depth_remaining - 1) (h_slot_deposit_sats f) (h_activation_cltv_absolute f) of
             None \<Rightarrow> None
           | Some (spk, amt) \<Rightarrow> Some (amt, spk))) [0..<unat (fanout f)]))"

fun leaf_walk ::
  "('pk, 'xo, 'ca) secp \<Rightarrow> ('pk, 'xo, 'ca) ctv_hier_factory \<Rightarrow> nat \<Rightarrow> u32 list \<Rightarrow> bytes \<Rightarrow> u32 \<Rightarrow> 'pk list \<Rightarrow> u32 \<Rightarrow> bytes option" where
  "leaf_walk E f 0 path current_txid current_vout subtree_users subtree_n =
     (case walk_children E f 0 subtree_users subtree_n of None \<Rightarrow> None
      | Some children \<Rightarrow>
          Some (compute_layer_txid (sha256 E) current_txid current_vout (fanout f) (layer_outputs_bytes children)))"
| "leaf_walk E f (Suc d) path current_txid current_vout subtree_users subtree_n =
     (case walk_children E f (Suc d) subtree_users subtree_n of None \<Rightarrow> None
      | Some children \<Rightarrow>
          let layer_txid = compute_layer_txid (sha256 E) current_txid current_vout (fanout f) (layer_outputs_bytes children);
              users_per_child = subtree_n div ucast (fanout f)
          in leaf_walk E f d (tl path) layer_txid (hd path)
               (drop (unat (hd path) * unat users_per_child) subtree_users) users_per_child)"

definition ctv_hier_factory_compute_leaf_outpoint ::
  "('pk, 'xo, 'ca) secp \<Rightarrow> ('pk, 'xo, 'ca) ctv_hier_factory \<Rightarrow> u32 \<Rightarrow> bytes \<Rightarrow> u32 \<Rightarrow> (bytes \<times> u32) option" where
  "ctv_hier_factory_compute_leaf_outpoint E f user_index funding_txid funding_vout =
     (if user_index \<ge> h_n_users f then None
      else
        let path = path_loop (unat (depth f) - 1) (ucast (fanout f)) user_index (h_n_users f);
            leaf_vout = user_index mod ucast (fanout f)
        in case leaf_walk E f (unat (depth f) - 1) path (take 32 funding_txid) funding_vout
                  (h_user_pubkeys f) (h_n_users f) of None \<Rightarrow> None
           | Some txid \<Rightarrow> Some (txid, leaf_vout))"

section \<open>One layer\<close>

abbreviation layer_outs :: "(u64 \<times> bytes) list \<Rightarrow> tx_output list" where
  "layer_outs children \<equiv> map (\<lambda>(amt, spk). \<lparr>amount_sats = amt, script_pubkey = spk\<rparr>) children"

definition layer_ok :: "u8 \<Rightarrow> (u64 \<times> bytes) list \<Rightarrow> bool" where
  "layer_ok fan children \<longleftrightarrow> length children = unat fan \<and> list_all (\<lambda>(amt, spk). length spk = 34) children"

lemma layer_outputs_ser:
  assumes "list_all (\<lambda>(amt, spk). length spk = 34) children"
  shows "layer_outputs_bytes children = concat (map ser_output (layer_outs children)) @ ser_output anchor_output"
proof -
  have "map (\<lambda>(amt, spk). serialize_output amt spk 34) children = map ser_output (layer_outs children)"
    using assms by (auto simp: list_all_iff intro!: serialize_output_ser)
  then show ?thesis by (simp only: layer_outputs_bytes_def anchor_ser)
qed

lemma layer_th:
  assumes "secp_lengths E" and "layer_ok fan children"
  shows "ctv_template_hash (sha256 E) 2 0 1 (sha256 E (w_u32_le 0xFFFFFFFE)) (ucast fan + 1)
           (sha256 E (layer_outputs_bytes children)) 0
         = bip119_hash (sha256 E) (covenant_tx txid vout (layer_outs children)) 0"
proof -
  have "unat fan < 256" by (rule unat_u8_less)
  then have n: "length (layer_outs children) + 1 < 2 ^ 32" and u: "(ucast fan :: u32) = of_nat (length (layer_outs children))"
    using assms(2) by (simp_all add: layer_ok_def del: unat_u8_less)
  have sha: "\<And>x. length (sha256 E x) = 32" using assms(1) by (simp add: secp_lengths_def)
  have o: "layer_outputs_bytes children = concat (map ser_output (layer_outs children)) @ ser_output anchor_output"
    using assms(2) layer_outputs_ser by (simp add: layer_ok_def)
  show ?thesis unfolding u o by (rule covenant_th[OF n sha])
qed

text \<open>The id of a layer's transaction, in the internal byte order.\<close>

definition tx_hash :: "(bytes \<Rightarrow> bytes) \<Rightarrow> tx \<Rightarrow> bytes" where
  "tx_hash sha t = sha (sha (ser_tx t))"

lemma compute_layer_txid_hash:
  assumes "layer_ok fan children" and "length txid = 32"
  shows "compute_layer_txid sha txid vout fan (layer_outputs_bytes children)
         = tx_hash sha (covenant_tx txid vout (layer_outs children))"
proof -
  have l: "length children = unat fan" and p: "list_all (\<lambda>(amt, spk). length spk = 34) children"
    using assms(1) by (simp_all add: layer_ok_def)
  have "unat fan < 256" by (rule unat_u8_less)
  then have c: "compact_size (1 + of_nat (length children)) = out_count_bytes (unat fan + 1)"
    using l out_count_bytes_compact[of "unat fan + 1"] by (simp del: unat_u8_less)
  show ?thesis using assms(2) c
    by (simp add: compute_layer_txid_def tx_hash_def covenant_tx_def ser_tx_def ser_input_def
        layer_outputs_ser[OF p] bytes_simps compact_size_small[of 1, simplified])
qed

text \<open>An output that can be spent, without any signature, by the transaction with this template.\<close>

definition covenant_commits :: "('pk, 'xo, 'ca) secp \<Rightarrow> bytes \<Rightarrow> bytes \<Rightarrow> bool" where
  "covenant_commits E spk th \<longleftrightarrow> (\<exists>cb. script_path_opens E spk ([0x20] @ th @ [0xb3]) cb)"

lemma funding_spk_commits:
  assumes "secp_lengths E" and "secp_musig_tweak E" and "musig_aggregate_keys E pks = Some ka"
    and "length th = 32" and "\<And>s. sweep = Some s \<Longrightarrow> length (leaf_hash s) = 32"
    and "build_factory_funding_spk E ka (Some th) sweep = Some spk"
  shows "covenant_commits E spk th"
  using ctv_path_witness_opens[OF assms(1-4) assms(5,6), of 102] by (auto simp: covenant_commits_def)

lemma length_funding_spk:
  "secp_lengths E \<Longrightarrow> build_factory_funding_spk E ka th sweep = Some spk \<Longrightarrow> length spk = 34"
  by (auto simp: build_factory_funding_spk_def build_p2tr_script_pubkey_def Let_def split: option.splits)

lemma foldl_amounts: "foldl (\<lambda>t (amt, spk). t + amt) a children = a + sum_list (map fst (children :: (u64 \<times> bytes) list))"
  by (induction children arbitrary: a) (auto simp: add.assoc)

lemma hier_finish_facts:
  assumes "secp_lengths E" and "layer_ok fan children"
    and "hier_finish_subtree E fan ka children = Some (th, ka', spk, amt)"
  shows "ka' = ka" and "th = bip119_hash (sha256 E) (covenant_tx txid vout (layer_outs children)) 0"
    and "build_factory_funding_spk E ka (Some th) None = Some spk"
    and "amt = sum_list (map fst children) + 240" and "length th = 32" and "length spk = 34"
proof -
  show "ka' = ka" and t: "th = bip119_hash (sha256 E) (covenant_tx txid vout (layer_outs children)) 0"
    and s: "build_factory_funding_spk E ka (Some th) None = Some spk" and "amt = sum_list (map fst children) + 240"
    using assms(3) unfolding hier_finish_subtree_def Let_def layer_th[OF assms(1,2), of txid vout]
    by (auto simp: foldl_amounts CTV_FACTORY_ANCHOR_SATS_def split: option.splits)
  show "length th = 32" using assms(1) t by (simp add: bip119_hash_def secp_lengths_def)
  show "length spk = 34" using length_funding_spk[OF assms(1) s] .
qed

section \<open>The tree\<close>

lemma those_map_Some_conv:
  "those (map g xs) = Some ys \<longleftrightarrow> length ys = length xs \<and> (\<forall>i<length xs. g (xs ! i) = Some (ys ! i))"
proof (induction xs arbitrary: ys)
  case (Cons x xs)
  show ?case
  proof (cases ys)
    case (Cons y ys')
    show ?thesis unfolding Cons using Cons.IH[of ys'] by (auto simp: nth_Cons All_less_Suc2 split: option.splits nat.splits)
  qed (auto split: option.splits)
qed auto

text \<open>The children of a subtree: the users' outputs at the last layer, smaller subtrees above.\<close>

definition child_ok ::
  "('pk, 'xo, 'ca) secp \<Rightarrow> ('pk, 'xo, 'ca) ctv_hier_factory \<Rightarrow> 'pk list \<Rightarrow> u32 \<Rightarrow> nat \<Rightarrow> nat \<Rightarrow> u64 \<times> bytes \<Rightarrow> bool" where
  "child_ok E f users upc d i child \<longleftrightarrow>
     (case d of
        0 \<Rightarrow> fst child = h_slot_deposit_sats f \<and>
             (\<exists>ka. build_user_leaf_spk_2of2 E (h_lsp_pubkey f) (users ! i) (h_activation_cltv_absolute f) = Some (ka, snd child))
      | Suc d' \<Rightarrow> \<exists>th ka. hier_build_subtree E (h_lsp_pubkey f) (drop (i * unat upc) users) upc (fanout f) d'
             (h_slot_deposit_sats f) (h_activation_cltv_absolute f) = Some (th, ka, snd child, fst child))"

lemma hier_subtree_children:
  assumes "hier_build_subtree E (h_lsp_pubkey f) users n (fanout f) d (h_slot_deposit_sats f)
             (h_activation_cltv_absolute f) = Some r"
  shows "\<exists>ka children. musig_aggregate_keys E (h_lsp_pubkey f # take (unat n) users) = Some ka
    \<and> walk_children E f d users n = Some children \<and> hier_finish_subtree E (fanout f) ka children = Some r
    \<and> length children = unat (fanout f)
    \<and> (\<forall>i<unat (fanout f). child_ok E f users (n div ucast (fanout f)) d i (children ! i))"
proof (cases d)
  case 0
  with assms obtain ka leaves where ka: "musig_aggregate_keys E (h_lsp_pubkey f # take (unat n) users) = Some ka"
    and l: "those (map (\<lambda>i. build_user_leaf_spk_2of2 E (h_lsp_pubkey f) (users ! i) (h_activation_cltv_absolute f)) [0..<unat (fanout f)]) = Some leaves"
    and r: "hier_finish_subtree E (fanout f) ka (map (\<lambda>(_, spk). (h_slot_deposit_sats f, spk)) leaves) = Some r"
    by (auto split: option.splits)
  have "walk_children E f d users n = Some (map (\<lambda>(_, spk). (h_slot_deposit_sats f, spk)) leaves)"
    using those_map_Some[OF l] 0 by (auto simp: walk_children_def those_map_Some_conv case_prod_unfold)
  then show ?thesis using ka r 0 those_map_Some[OF l]
    by (intro exI[of _ ka] exI[of _ "map (\<lambda>(_, spk). (h_slot_deposit_sats f, spk)) leaves"])
      (auto simp: child_ok_def split: prod.splits)
next
  case (Suc d')
  let ?u = "n div ucast (fanout f)"
  let ?g = "\<lambda>i. hier_build_subtree E (h_lsp_pubkey f) (drop (i * unat ?u) users) ?u (fanout f) d' (h_slot_deposit_sats f) (h_activation_cltv_absolute f)"
  let ?h = "\<lambda>(_, _, spk, amt). (amt, spk)"
  from Suc assms obtain ka subs where ka: "musig_aggregate_keys E (h_lsp_pubkey f # take (unat n) users) = Some ka"
    and l: "those (map ?g [0..<unat (fanout f)]) = Some subs"
    and r: "hier_finish_subtree E (fanout f) ka (map ?h subs) = Some r"
    by (auto simp: Let_def split: option.splits)
  have "walk_children E f d users n = Some (map ?h subs)"
    using those_map_Some[OF l] Suc
    by (auto simp: walk_children_def those_map_Some_conv hier_compute_subtree_spk_def Let_def case_prod_unfold)
  then show ?thesis using ka r Suc those_map_Some[OF l]
    by (intro exI[of _ ka] exI[of _ "map ?h subs"]) (auto simp: child_ok_def split: prod.splits)
qed

lemma subtree_spk_length:
  assumes "secp_lengths E" and "hier_build_subtree E lsp users n fan d slot cltv = Some (th, ka, spk, amt)"
  shows "length spk = 34"
  using assms
  by (cases d) (auto simp: hier_finish_subtree_def Let_def split: option.splits dest!: length_funding_spk[OF assms(1)])

lemma child_layer_ok:
  assumes "secp_lengths E" and "length children = unat (fanout f)"
    and "\<forall>i<unat (fanout f). child_ok E f users upc d i (children ! i)"
  shows "layer_ok (fanout f) children"
proof -
  have "length (snd (children ! i)) = 34" if "i < unat (fanout f)" for i
    using assms(3) that length_user_leaf_spk[OF assms(1)] subtree_spk_length[OF assms(1)]
    by (cases d) (fastforce simp: child_ok_def)+
  then show ?thesis using assms(2) by (simp add: layer_ok_def list_all_length case_prod_unfold)
qed

text \<open>Everything a successful subtree build tells about its top layer.\<close>

lemma hier_subtree_layer:
  assumes "secp_lengths E" and "secp_musig_tweak E"
    and "hier_build_subtree E (h_lsp_pubkey f) users n (fanout f) d (h_slot_deposit_sats f)
             (h_activation_cltv_absolute f) = Some (th, ka, spk, amt)"
  obtains children where "walk_children E f d users n = Some children" "layer_ok (fanout f) children"
    and "\<And>i. i < unat (fanout f) \<Longrightarrow> child_ok E f users (n div ucast (fanout f)) d i (children ! i)"
    and "\<And>txid vout. th = bip119_hash (sha256 E) (covenant_tx txid vout (layer_outs children)) 0"
    and "amt = sum_list (map fst children) + 240" and "length th = 32"
    and "musig_aggregate_keys E (h_lsp_pubkey f # take (unat n) users) = Some ka"
    and "covenant_commits E spk th"
proof -
  from hier_subtree_children[OF assms(3)] obtain ka0 children where
    c: "musig_aggregate_keys E (h_lsp_pubkey f # take (unat n) users) = Some ka0" "walk_children E f d users n = Some children"
      "hier_finish_subtree E (fanout f) ka0 children = Some (th, ka, spk, amt)" "length children = unat (fanout f)"
      "\<forall>i<unat (fanout f). child_ok E f users (n div ucast (fanout f)) d i (children ! i)" by blast
  have ok: "layer_ok (fanout f) children" by (rule child_layer_ok[OF assms(1) c(4,5)])
  note F = hier_finish_facts[OF assms(1) ok c(3)]
  have ka: "musig_aggregate_keys E (h_lsp_pubkey f # take (unat n) users) = Some ka" using c(1) F(1) by simp
  have "covenant_commits E spk th"
    by (rule funding_spk_commits[OF assms(1,2) ka F(5), of None]) (use F(1,3) in auto)
  with that c(2,5) ok F(2,4,5) ka show thesis by blast
qed

section \<open>Amounts\<close>

fun node_count :: "nat \<Rightarrow> nat \<Rightarrow> nat" where
  "node_count k 0 = 1"
| "node_count k (Suc d) = 1 + k * node_count k d"

lemma node_count_closed: "node_count k d * (k - 1) = k ^ Suc d - 1"
proof (induction d)
  case (Suc d)
  show ?case
  proof (cases k)
    case (Suc m)
    have "node_count k (Suc d) * (k - 1) = (k - 1) + k * (node_count k d * (k - 1))" by (simp add: algebra_simps)
    also have "\<dots> = (k - 1) + k * (k ^ Suc d - 1)" by (simp only: Suc.IH)
    also have "k * (k ^ Suc d - 1) = k ^ Suc (Suc d) - k" by (simp add: diff_mult_distrib2)
    also have "(k - 1) + (k ^ Suc (Suc d) - k) = k ^ Suc (Suc d) - 1"
      using self_le_power[of k "Suc (Suc d)"] Suc by linarith
    finally show ?thesis .
  qed simp
qed simp

lemma node_count_div:
  assumes "2 \<le> k"
  shows "node_count k d = (k ^ Suc d - 1) div (k - 1)" and "node_count k d \<le> k ^ Suc d"
proof -
  have "0 < k - 1" using assms by simp
  then show "node_count k d = (k ^ Suc d - 1) div (k - 1)"
    by (simp only: node_count_closed[symmetric] nonzero_mult_div_cancel_right less_numeral_extra(3) neq0_conv simp_thms)
  have "node_count k d * 1 \<le> node_count k d * (k - 1)" using assms by (intro mult_le_mono2) simp
  then show "node_count k d \<le> k ^ Suc d" unfolding node_count_closed by linarith
qed

lemma sum_list_const: "\<forall>x\<in>set xs. g x = (c :: u64) \<Longrightarrow> sum_list (map g xs) = of_nat (length xs) * c"
  by (induction xs) (simp_all add: algebra_simps)

lemma hier_subtree_amount:
  fixes E :: "('pk, 'xo, 'ca) secp" and f :: "('pk, 'xo, 'ca) ctv_hier_factory"
  assumes "secp_lengths E" and "secp_musig_tweak E"
  shows "hier_build_subtree E (h_lsp_pubkey f) users n (fanout f) d (h_slot_deposit_sats f)
           (h_activation_cltv_absolute f) = Some (th, ka, spk, amt) \<Longrightarrow>
    amt = of_nat (unat (fanout f) ^ Suc d) * h_slot_deposit_sats f + of_nat (node_count (unat (fanout f)) d) * 240"
proof (induction d arbitrary: users n th ka spk amt)
  case 0
  from hier_subtree_layer[OF assms "0.prems"] obtain children where
    ok: "layer_ok (fanout f) children" and c: "\<And>i. i < unat (fanout f) \<Longrightarrow> child_ok E f users (n div ucast (fanout f)) 0 i (children ! i)"
    and a: "amt = sum_list (map fst children) + 240" by metis
  have "fst (children ! i) = h_slot_deposit_sats f" if "i < length children" for i
    using c[of i] ok that by (simp add: layer_ok_def child_ok_def)
  then have "\<forall>x\<in>set children. fst x = h_slot_deposit_sats f" by (metis in_set_conv_nth)
  from sum_list_const[OF this] show ?case using ok a by (simp add: layer_ok_def)
next
  case (Suc d)
  let ?c = "of_nat (unat (fanout f) ^ Suc d) * h_slot_deposit_sats f + of_nat (node_count (unat (fanout f)) d) * 240"
  from hier_subtree_layer[OF assms Suc.prems] obtain children where
    ok: "layer_ok (fanout f) children" and c: "\<And>i. i < unat (fanout f) \<Longrightarrow> child_ok E f users (n div ucast (fanout f)) (Suc d) i (children ! i)"
    and a: "amt = sum_list (map fst children) + 240" by metis
  have "fst (children ! i) = ?c" if "i < length children" for i
    using c[of i] ok that Suc.IH by (auto simp: layer_ok_def child_ok_def)
  then have "\<forall>x\<in>set children. fst x = ?c" by (metis in_set_conv_nth)
  from sum_list_const[OF this] show ?case using ok a by (simp add: layer_ok_def algebra_simps)
qed

section \<open>Spending down the tree\<close>

text \<open>The outpoint of \<open>lout\<close> materialises from the output \<open>spk\<close> at \<open>(txid, vout)\<close> by a chain of
  covenant transactions, each of which the output it spends commits to.\<close>

inductive ctv_chain ::
  "('pk, 'xo, 'ca) secp \<Rightarrow> bytes \<Rightarrow> bytes \<Rightarrow> u32 \<Rightarrow> bytes \<Rightarrow> u32 \<Rightarrow> tx_output \<Rightarrow> bool" for E where
  last: "covenant_commits E spk (bip119_hash (sha256 E) t 0) \<Longrightarrow> t = covenant_tx txid vout outs \<Longrightarrow>
     unat j < length outs \<Longrightarrow>
     ctv_chain E spk txid vout (tx_hash (sha256 E) t) j (outs ! unat j)"
| step: "covenant_commits E spk (bip119_hash (sha256 E) t 0) \<Longrightarrow> t = covenant_tx txid vout outs \<Longrightarrow>
     unat j < length outs \<Longrightarrow>
     ctv_chain E (script_pubkey (outs ! unat j)) (tx_hash (sha256 E) t) j ltxid lvout lout \<Longrightarrow>
     ctv_chain E spk txid vout ltxid lvout lout"

lemma users_per_child:
  assumes "unat n = k ^ Suc (Suc d)" and "k = unat (fan :: u8)" and "0 < k"
  shows "unat (n div ucast fan :: u32) = k ^ Suc d"
  using assms by (simp add: unat_div unat_ucast_up)

lemma index_split:
  assumes u: "unat (ups :: u32) = k ^ Suc d" and i: "unat idx < k ^ Suc (Suc d)" and k: "k = unat (fan :: u8)" "0 < k"
  shows "unat (idx div ups) < k" "unat (idx mod ups) < k ^ Suc d"
    and "unat (idx div ups) * unat ups + unat (idx mod ups) = unat idx"
    and "(idx mod ups) mod ucast fan = idx mod ucast fan"
proof -
  show "unat (idx div ups) < k"
    using i k(2) by (simp add: unat_div u less_mult_imp_div_less mult.commute)
  show "unat (idx mod ups) < k ^ Suc d" using k(2) by (simp add: unat_mod u)
  show "unat (idx div ups) * unat ups + unat (idx mod ups) = unat idx"
    by (simp add: unat_div unat_mod)
  have "k dvd k ^ Suc d" by simp
  then show "(idx mod ups) mod ucast fan = idx mod ucast fan"
    by (simp add: word_unat_eq_iff unat_mod u unat_ucast_up k(1)[symmetric] mod_mod_cancel)
qed

lemma leaf_walk_chain:
  fixes E :: "('pk, 'xo, 'ca) secp" and f :: "('pk, 'xo, 'ca) ctv_hier_factory"
  assumes E: "secp_lengths E" "secp_musig_tweak E" and k: "0 < unat (fanout f)"
  shows "hier_build_subtree E (h_lsp_pubkey f) users n (fanout f) d (h_slot_deposit_sats f)
           (h_activation_cltv_absolute f) = Some (th, ka, spk, amt) \<Longrightarrow>
    unat n = unat (fanout f) ^ Suc d \<Longrightarrow> unat idx < unat n \<Longrightarrow> unat n \<le> length users \<Longrightarrow>
    length txid = 32 \<Longrightarrow> covenant_commits E spk0 th \<Longrightarrow>
    \<exists>ltxid ka' lspk. leaf_walk E f d (path_loop d (ucast (fanout f)) idx n) txid vout users n = Some ltxid
      \<and> build_user_leaf_spk_2of2 E (h_lsp_pubkey f) (users ! unat idx) (h_activation_cltv_absolute f) = Some (ka', lspk)
      \<and> ctv_chain E spk0 txid vout ltxid (idx mod ucast (fanout f)) \<lparr>amount_sats = h_slot_deposit_sats f, script_pubkey = lspk\<rparr>"
proof (induction d arbitrary: users n th ka spk amt idx txid vout spk0)
  case 0
  from hier_subtree_layer[OF E "0.prems"(1)] obtain children where
    w: "walk_children E f 0 users n = Some children" and ok: "layer_ok (fanout f) children"
    and c: "\<And>i. i < unat (fanout f) \<Longrightarrow> child_ok E f users (n div ucast (fanout f)) 0 i (children ! i)"
    and th: "\<And>txid vout. th = bip119_hash (sha256 E) (covenant_tx txid vout (layer_outs children)) 0" by metis
  let ?t = "covenant_tx txid vout (layer_outs children)"
  have i: "unat idx < unat (fanout f)" using "0.prems"(2,3) by simp
  have m: "idx mod ucast (fanout f) = idx" using i by (simp add: word_unat_eq_iff unat_mod unat_ucast_up)
  from c[OF i] obtain ka' where leaf: "fst (children ! unat idx) = h_slot_deposit_sats f"
    "build_user_leaf_spk_2of2 E (h_lsp_pubkey f) (users ! unat idx) (h_activation_cltv_absolute f) = Some (ka', snd (children ! unat idx))"
    by (auto simp: child_ok_def)
  have il: "unat idx < length children" using i ok by (simp add: layer_ok_def)
  have "ctv_chain E spk0 txid vout (tx_hash (sha256 E) ?t) idx (layer_outs children ! unat idx)"
    by (rule ctv_chain.last) (use "0.prems"(6) th[of txid vout] il in auto)
  then show ?case using w leaf il m compute_layer_txid_hash[OF ok "0.prems"(5)]
    by (simp add: case_prod_unfold)
next
  case (Suc d)
  from hier_subtree_layer[OF E Suc.prems(1)] obtain children where
    w: "walk_children E f (Suc d) users n = Some children" and ok: "layer_ok (fanout f) children"
    and c: "\<And>i. i < unat (fanout f) \<Longrightarrow> child_ok E f users (n div ucast (fanout f)) (Suc d) i (children ! i)"
    and th: "\<And>txid vout. th = bip119_hash (sha256 E) (covenant_tx txid vout (layer_outs children)) 0" by metis
  let ?t = "covenant_tx txid vout (layer_outs children)" let ?h = "tx_hash (sha256 E) ?t"
  define ups where "ups = n div ucast (fanout f)"
  have u: "unat ups = unat (fanout f) ^ Suc d" unfolding ups_def using Suc.prems(2) refl k by (rule users_per_child)
  note I = index_split[OF u Suc.prems(3)[unfolded Suc.prems(2)] refl k]
  let ?j = "idx div ups"
  from c[OF I(1)] obtain th' ka' where sub: "hier_build_subtree E (h_lsp_pubkey f) (drop (unat ?j * unat ups) users) ups (fanout f) d
      (h_slot_deposit_sats f) (h_activation_cltv_absolute f) = Some (th', ka', snd (children ! unat ?j), fst (children ! unat ?j))"
    by (auto simp: child_ok_def ups_def)
  from hier_subtree_layer[OF E sub] have com: "covenant_commits E (snd (children ! unat ?j)) th'" by metis
  have h32: "length ?h = 32" using E(1) by (simp add: tx_hash_def secp_lengths_def)
  have "Suc (unat ?j) * unat ups \<le> unat (fanout f) * unat ups" using I(1) by (intro mult_le_mono1) simp
  also have "\<dots> \<le> length users" using Suc.prems(2,4) u by simp
  finally have b: "Suc (unat ?j) * unat ups \<le> length users" .
  then have len: "unat ups \<le> length (drop (unat ?j * unat ups) users)" by simp
  have nth: "drop (unat ?j * unat ups) users ! unat (idx mod ups) = users ! unat idx"
    using b I(3) by (subst nth_drop) (simp_all add: add.commute)
  have il: "unat ?j < length children" using I(1) ok by (simp add: layer_ok_def)
  from Suc.IH[OF sub u _ len h32 com, of "idx mod ups" ?j] I(2,4) u nth obtain ltxid ka'' lspk where
    r: "leaf_walk E f d (path_loop d (ucast (fanout f)) (idx mod ups) ups) ?h ?j (drop (unat ?j * unat ups) users) ups = Some ltxid"
      "build_user_leaf_spk_2of2 E (h_lsp_pubkey f) (users ! unat idx) (h_activation_cltv_absolute f) = Some (ka'', lspk)"
      "ctv_chain E (snd (children ! unat ?j)) ?h ?j ltxid (idx mod ucast (fanout f)) \<lparr>amount_sats = h_slot_deposit_sats f, script_pubkey = lspk\<rparr>"
    by auto
  have "ctv_chain E spk0 txid vout ltxid (idx mod ucast (fanout f)) \<lparr>amount_sats = h_slot_deposit_sats f, script_pubkey = lspk\<rparr>"
    by (rule ctv_chain.step[of _ _ ?t txid vout "layer_outs children" ?j])
      (use Suc.prems(6) th[of txid vout] il r(3) in \<open>auto simp: case_prod_unfold\<close>)
  then show ?case using w r(1,2) compute_layer_txid_hash[OF ok Suc.prems(5)]
    by (simp add: Let_def ups_def[symmetric])
qed

section \<open>The built hierarchical factory\<close>

lemma expected_n_loop_power:
  "expected_n_loop i fan acc = Some e \<Longrightarrow> unat acc \<le> 65536 \<Longrightarrow> unat fan \<le> 16 \<Longrightarrow>
   unat e = unat acc * unat fan ^ i \<and> unat e \<le> 65536"
proof (induction i arbitrary: acc)
  case (Suc i)
  have "unat acc * unat fan \<le> 65536 * 16" using Suc.prems(2,3) by (rule mult_le_mono)
  then have m: "unat (acc * fan) = unat acc * unat fan" by (intro unat_mult_nowrap) simp
  have "unat (acc * fan) \<le> 65536" and r: "expected_n_loop i fan (acc * fan) = Some e"
    using Suc.prems(1) by (auto simp: Let_def CTV_HIER_FACTORY_MAX_USERS_def word_le_nat_alt not_less split: if_splits)
  from Suc.IH[OF r this(1) Suc.prems(3)] show ?case by (simp add: m)
qed simp

lemma ctv_hier_factory_build_facts:
  assumes "ctv_hier_factory_build E f h = Some f'"
  shows "depth f' = depth f" "fanout f' = fanout f" "h_n_users f' = h_n_users f" "h_lsp_pubkey f' = h_lsp_pubkey f"
    and "h_slot_deposit_sats f' = h_slot_deposit_sats f" "h_user_pubkeys f' = h_user_pubkeys f"
    and "2 \<le> unat (fanout f)" "unat (fanout f) \<le> 16" "1 \<le> unat (depth f)"
    and "h_recovery_offset_blocks f' = h_recovery_offset_blocks f"
    and "\<exists>e. expected_n_loop (unat (depth f)) (ucast (fanout f)) 1 = Some e \<and> ucast (h_n_users f) = e
           \<and> n_internal_nodes f' = ucast ((e - 1) div (ucast (fanout f) - 1))"
    and "h_total_funding_sats f' = ucast (h_n_users f) * h_slot_deposit_sats f + ucast (n_internal_nodes f') * 240"
    and "\<exists>spk amt. hier_build_subtree E (h_lsp_pubkey f') (h_user_pubkeys f') (h_n_users f') (fanout f') (unat (depth f') - 1)
           (h_slot_deposit_sats f') (h_activation_cltv_absolute f') = Some (root_th f', root_keyagg f', spk, amt)"
    and "\<exists>sweep. build_optional_sweep_leaf E (h_lsp_pubkey f') (h_recovery_offset_blocks f') (h_recovery_cltv_absolute f') = Some sweep
           \<and> build_factory_funding_spk E (root_keyagg f') (Some (root_th f')) sweep = Some (h_funding_spk f')"
proof -
  let ?act = "absolute_cltv h (h_activation_offset_blocks f)" and ?rec = "absolute_cltv h (h_recovery_offset_blocks f)"
  obtain e th ka spk0 amt sweep spk where
    g: "\<not> (fanout f < 2 \<or> fanout f > 16)" "depth f \<noteq> 0"
    and e: "expected_n_loop (unat (depth f)) (ucast (fanout f)) 1 = Some e" "ucast (h_n_users f) = e"
    and r: "hier_build_subtree E (h_lsp_pubkey f) (h_user_pubkeys f) (h_n_users f) (fanout f) (unat (depth f) - 1)
           (h_slot_deposit_sats f) ?act = Some (th, ka, spk0, amt)"
    and s: "build_optional_sweep_leaf E (h_lsp_pubkey f) (h_recovery_offset_blocks f) ?rec = Some sweep"
      "build_factory_funding_spk E ka (Some th) sweep = Some spk"
    and f': "f' = f\<lparr>n_internal_nodes := ucast ((e - 1) div (ucast (fanout f) - 1)),
        h_total_funding_sats := ucast (h_n_users f) * h_slot_deposit_sats f
          + ucast (ucast ((e - 1) div (ucast (fanout f) - 1)) :: u32) * 240,
        h_recovery_cltv_absolute := ?rec, h_activation_cltv_absolute := ?act,
        root_th := th, root_keyagg := ka, h_funding_spk := spk\<rparr>"
    using assms by (auto simp: ctv_hier_factory_build_def Let_def CTV_FACTORY_ANCHOR_SATS_def
      CTV_HIER_FACTORY_MAX_FANOUT_def CTV_HIER_FACTORY_MAX_DEPTH_def split: option.splits if_split_asm prod.splits)
  show "2 \<le> unat (fanout f)" "unat (fanout f) \<le> 16" "1 \<le> unat (depth f)"
    using g by (simp_all add: word_le_nat_alt not_less unat_gt_0 Suc_le_eq)
  show "depth f' = depth f" "fanout f' = fanout f" "h_n_users f' = h_n_users f" "h_lsp_pubkey f' = h_lsp_pubkey f"
    "h_slot_deposit_sats f' = h_slot_deposit_sats f" "h_user_pubkeys f' = h_user_pubkeys f"
    "h_recovery_offset_blocks f' = h_recovery_offset_blocks f"
    "\<exists>e. expected_n_loop (unat (depth f)) (ucast (fanout f)) 1 = Some e \<and> ucast (h_n_users f) = e
           \<and> n_internal_nodes f' = ucast ((e - 1) div (ucast (fanout f) - 1))"
    "h_total_funding_sats f' = ucast (h_n_users f) * h_slot_deposit_sats f + ucast (n_internal_nodes f') * 240"
    "\<exists>spk amt. hier_build_subtree E (h_lsp_pubkey f') (h_user_pubkeys f') (h_n_users f') (fanout f') (unat (depth f') - 1)
           (h_slot_deposit_sats f') (h_activation_cltv_absolute f') = Some (root_th f', root_keyagg f', spk, amt)"
    "\<exists>sweep. build_optional_sweep_leaf E (h_lsp_pubkey f') (h_recovery_offset_blocks f') (h_recovery_cltv_absolute f') = Some sweep
           \<and> build_factory_funding_spk E (root_keyagg f') (Some (root_th f')) sweep = Some (h_funding_spk f')"
    using e r s by (simp_all add: f')
qed

lemma hier_user_count:
  assumes "ctv_hier_factory_build E f h = Some f'"
  shows "unat (h_n_users f) = unat (fanout f) ^ Suc (unat (depth f) - 1)" and "unat (h_n_users f) \<le> 65536"
    and "unat (n_internal_nodes f') = node_count (unat (fanout f)) (unat (depth f) - 1)"
proof -
  note F = ctv_hier_factory_build_facts[OF assms]
  obtain e where e: "expected_n_loop (unat (depth f)) (ucast (fanout f)) 1 = Some e" "ucast (h_n_users f) = e"
    "n_internal_nodes f' = ucast ((e - 1) div (ucast (fanout f) - 1))" using F(11) by blast
  have k: "unat (ucast (fanout f) :: u64) = unat (fanout f)" by (simp add: unat_ucast_up)
  have p: "unat e = unat (fanout f) ^ unat (depth f)" "unat e \<le> 65536"
    using expected_n_loop_power[OF e(1)] F(8) k by simp_all
  have n: "unat e = unat (h_n_users f)" by (simp add: e(2)[symmetric] unat_ucast_up)
  then show m: "unat (h_n_users f) = unat (fanout f) ^ Suc (unat (depth f) - 1)" and "unat (h_n_users f) \<le> 65536"
    using p F(9) by simp_all
  let ?k = "unat (fanout f)" and ?c = "node_count (unat (fanout f)) (unat (depth f) - 1)"
  have pos: "1 \<le> ?k ^ Suc (unat (depth f) - 1)" using F(7) by simp
  have s1: "unat (e - 1) = ?k ^ Suc (unat (depth f) - 1) - 1"
    using pos n m by (subst unat_minus_nowrap) (simp_all add: word_le_nat_alt)
  have s2: "unat (ucast (fanout f) - 1 :: u64) = ?k - 1"
    using F(7) k by (subst unat_minus_nowrap) (simp_all add: word_le_nat_alt)
  have "unat ((e - 1) div (ucast (fanout f) - 1)) = (?c * (?k - 1)) div (?k - 1)"
    by (simp only: unat_div s1 s2 node_count_closed)
  also have "\<dots> = ?c" using F(7) by simp
  finally have q: "unat ((e - 1) div (ucast (fanout f) - 1)) = ?c" .
  have "?c \<le> 65536" using node_count_div(2)[OF F(7), of "unat (depth f) - 1"] p(2) n m by linarith
  then have "?c < 2 ^ 32" by simp
  then show "unat (n_internal_nodes f') = ?c" unfolding e(3) by (subst unat_ucast_small) (simp_all add: q)
qed

text \<open>C13: The funding amount of the hierarchical factory is exactly what its root transaction
  distributes: \<open>total_funding_sats\<close> equals the amount that the recursive construction adds
  up, deposits of all leaves plus one 240-satoshi anchor for each of the
  \<open>(K^d - 1) / (K - 1)\<close> transactions, and neither wraps while the deposits stay within
  the money supply.\<close>

theorem ctv_hier_factory_value:
  assumes "secp_lengths E" and "secp_musig_tweak E" and "ctv_hier_factory_build E f h = Some f'"
    and "unat (h_n_users f) * unat (h_slot_deposit_sats f) \<le> 2100000000000000"
  shows "\<exists>spk. hier_build_subtree E (h_lsp_pubkey f) (h_user_pubkeys f) (h_n_users f) (fanout f) (unat (depth f) - 1)
           (h_slot_deposit_sats f) (h_activation_cltv_absolute f') = Some (root_th f', root_keyagg f', spk, h_total_funding_sats f')
       \<and> unat (h_total_funding_sats f') = unat (h_n_users f) * unat (h_slot_deposit_sats f)
           + 240 * ((unat (fanout f) ^ unat (depth f) - 1) div (unat (fanout f) - 1))"
proof -
  note F = ctv_hier_factory_build_facts[OF assms(3)] and N = hier_user_count[OF assms(3)]
  let ?k = "unat (fanout f)" and ?n = "unat (h_n_users f)" and ?s = "unat (h_slot_deposit_sats f)"
  let ?c = "node_count ?k (unat (depth f) - 1)"
  obtain spk amt where r: "hier_build_subtree E (h_lsp_pubkey f') (h_user_pubkeys f') (h_n_users f') (fanout f') (unat (depth f') - 1)
      (h_slot_deposit_sats f') (h_activation_cltv_absolute f') = Some (root_th f', root_keyagg f', spk, amt)" using F(13) by blast
  have u: "ucast (h_n_users f) = (of_nat ?n :: u64)" "ucast (n_internal_nodes f') = (of_nat ?c :: u64)"
    unfolding N(3)[symmetric] by simp_all
  have "amt = h_total_funding_sats f'"
    using hier_subtree_amount[OF assms(1,2) r] unfolding F(12) u by (simp only: F(1,2,5) N(1) mult.commute)
  moreover have "?c = (?k ^ unat (depth f) - 1) div (?k - 1)"
    using node_count_div(1)[OF F(7), of "unat (depth f) - 1"] F(9) by simp
  moreover have "unat (h_total_funding_sats f') = ?n * ?s + 240 * ?c"
  proof -
    have c: "?c \<le> 65536" using node_count_div(2)[OF F(7), of "unat (depth f) - 1"] N(1,2) by linarith
    have a: "unat (ucast (h_n_users f) * h_slot_deposit_sats f :: u64) = ?n * ?s"
      using assms(4) by (subst unat_mult_nowrap) (simp_all add: unat_ucast_up)
    have b: "unat (ucast (n_internal_nodes f') * 240 :: u64) = ?c * 240"
      using c by (subst unat_mult_nowrap) (simp_all add: unat_ucast_up N(3))
    show ?thesis unfolding F(12) using a b c assms(4) by (subst unat_plus_nowrap) simp_all
  qed
  ultimately show ?thesis using r by (simp add: F(1-6))
qed

text \<open>A binary tree of depth two over four users on the sample library.\<close>

definition sample_hier :: "(bytes, bytes, bytes) ctv_hier_factory" where
  "sample_hier =
     \<lparr>depth = 2, fanout = 2, h_n_users = 4, h_slot_deposit_sats = 50000, h_recovery_offset_blocks = 4320,
      h_activation_offset_blocks = 0, h_lsp_pubkey = replicate 32 1,
      h_user_pubkeys = [replicate 32 2, replicate 32 3, replicate 32 4, replicate 32 5],
      n_internal_nodes = 0, h_total_funding_sats = 0, h_recovery_cltv_absolute = 0, h_activation_cltv_absolute = 0,
      root_th = [], root_keyagg = \<lparr>agg_pubkey = [], cache = []\<rparr>, h_funding_spk = []\<rparr>"

lemma those_total: "(\<And>x. \<exists>y. g x = Some y) \<Longrightarrow> \<exists>ys. those (map g xs) = Some ys"
proof (induction xs)
  case (Cons x xs)
  then obtain y ys where "g x = Some y" "those (map g xs) = Some ys" by blast
  then show ?case by simp
qed simp

lemma sample_funding_spk: "\<exists>spk. build_factory_funding_spk sample_secp ka (Some th) sw = Some spk"
  using merkle_root_total[of "[tapscript_build_ctv sample_secp th, the sw]" sample_secp]
  by (auto simp: build_factory_funding_spk_def sample_secp_def Let_def split: option.splits)

lemma sample_finish: "\<exists>r. hier_finish_subtree sample_secp fan ka cs = Some r"
proof -
  obtain spk where "build_factory_funding_spk sample_secp ka (Some (ctv_template_hash (sha256 sample_secp) 2 0 1
      (sha256 sample_secp (w_u32_le 0xFFFFFFFE)) (ucast fan + 1) (sha256 sample_secp (layer_outputs_bytes cs)) 0)) None = Some spk"
    using sample_funding_spk by blast
  then show ?thesis by (simp add: hier_finish_subtree_def Let_def)
qed

lemma sample_agg: "musig_aggregate_keys sample_secp (p # ps) = Some \<lparr>agg_pubkey = p, cache = p\<rparr>"
  by (simp add: musig_aggregate_keys_def sample_secp_keys)

lemma sample_subtree: "\<exists>r. hier_build_subtree sample_secp l us n fan d s 0 = Some r"
proof (induction d arbitrary: us n)
  case 0
  have "\<exists>r. build_user_leaf_spk_2of2 sample_secp l (us ! i) 0 = Some r" for i
    by (simp add: build_user_leaf_spk_2of2_def sample_agg)
  from those_total[of "\<lambda>i. build_user_leaf_spk_2of2 sample_secp l (us ! i) 0", OF this] obtain ls where
    "those (map (\<lambda>i. build_user_leaf_spk_2of2 sample_secp l (us ! i) 0) [0..<unat fan]) = Some ls" by blast
  then show ?case using sample_finish by (simp add: sample_agg)
next
  case (Suc d)
  let ?u = "n div ucast fan"
  have "\<exists>r. hier_build_subtree sample_secp l (drop (i * unat ?u) us) ?u fan d s 0 = Some r" for i by (rule Suc.IH)
  from those_total[of "\<lambda>i. hier_build_subtree sample_secp l (drop (i * unat ?u) us) ?u fan d s 0", OF this] obtain ls where
    "those (map (\<lambda>i. hier_build_subtree sample_secp l (drop (i * unat ?u) us) ?u fan d s 0) [0..<unat fan]) = Some ls" by blast
  then show ?case using sample_finish by (simp add: sample_agg)
qed

lemma sample_hier_builds: "\<exists>f'. ctv_hier_factory_build sample_secp sample_hier 800000 = Some f'"
proof -
  have "expected_n_loop (Suc (Suc 0)) 2 1 = Some 4" by (simp add: CTV_HIER_FACTORY_MAX_USERS_def)
  then have n: "expected_n_loop 2 2 1 = Some 4" by (simp only: numeral_2_eq_2)
  obtain th ka sp am where r: "hier_build_subtree sample_secp (replicate 32 1)
      [replicate 32 2, replicate 32 3, replicate 32 4, replicate 32 5] 4 2 (Suc 0) 50000 0 = Some (th, ka, sp, am)"
    using sample_subtree by (metis prod_cases4)
  obtain sw where "build_optional_sweep_leaf sample_secp (replicate 32 1) 4320 804320 = Some sw"
    by (simp add: build_optional_sweep_leaf_def sample_secp_keys)
  then show ?thesis using sample_funding_spk[of ka th sw] r n
    by (auto simp: ctv_hier_factory_build_def sample_hier_def absolute_cltv_def CTV_HIER_FACTORY_MAX_DEPTH_def
        CTV_HIER_FACTORY_MAX_FANOUT_def simp del: hier_build_subtree.simps expected_n_loop.simps)
qed

theorem ctv_hier_factory_value_witness:
  "\<exists>f'. ctv_hier_factory_build sample_secp sample_hier 800000 = Some f' \<and> unat (h_total_funding_sats f') = 200720"
proof -
  obtain f' where f': "ctv_hier_factory_build sample_secp sample_hier 800000 = Some f'" using sample_hier_builds by auto
  from ctv_hier_factory_value[OF _ _ f'] f' show ?thesis by (auto simp: sample_hier_def)
qed

text \<open>C2: The resolver names the outpoint that will really exist.  For every user of a built
  hierarchical factory and every funding outpoint, \<open>ctv_hier_factory_compute_leaf_outpoint\<close>
  succeeds, and the outpoint it returns is reached from the funding output by a chain of
  transactions each of which the spent output commits to by its covenant leaf; the
  output there carries the slot deposit and the script of exactly this user.\<close>

theorem ctv_hier_leaf_outpoint_reachable:
  assumes "secp_lengths E" and "secp_musig_tweak E" and "ctv_hier_factory_build E f h = Some f'"
    and "unat (h_n_users f) \<le> length (h_user_pubkeys f)" and "idx < h_n_users f" and "length txid = 32"
  shows "\<exists>ltxid lvout ka lspk.
      ctv_hier_factory_compute_leaf_outpoint E f' idx txid vout = Some (ltxid, lvout)
    \<and> build_user_leaf_spk_2of2 E (h_lsp_pubkey f) (h_user_pubkeys f ! unat idx) (h_activation_cltv_absolute f') = Some (ka, lspk)
    \<and> ctv_chain E (h_funding_spk f') txid vout ltxid lvout
        \<lparr>amount_sats = h_slot_deposit_sats f, script_pubkey = lspk\<rparr>"
proof -
  note F = ctv_hier_factory_build_facts[OF assms(3)] and N = hier_user_count[OF assms(3)]
  obtain spk amt where r: "hier_build_subtree E (h_lsp_pubkey f') (h_user_pubkeys f') (h_n_users f') (fanout f') (unat (depth f') - 1)
      (h_slot_deposit_sats f') (h_activation_cltv_absolute f') = Some (root_th f', root_keyagg f', spk, amt)" using F(13) by blast
  obtain sweep where sw: "build_optional_sweep_leaf E (h_lsp_pubkey f') (h_recovery_offset_blocks f') (h_recovery_cltv_absolute f') = Some sweep"
    "build_factory_funding_spk E (root_keyagg f') (Some (root_th f')) sweep = Some (h_funding_spk f')" using F(14) by blast
  from hier_subtree_layer[OF assms(1,2) r] have th: "length (root_th f') = 32"
    and ka: "musig_aggregate_keys E (h_lsp_pubkey f' # take (unat (h_n_users f')) (h_user_pubkeys f')) = Some (root_keyagg f')" by metis+
  have sl: "length (leaf_hash l) = 32" if "sweep = Some l" for l
    using sweep_leaf_hash_length[OF assms(1)] sw(1) that by blast
  have com: "covenant_commits E (h_funding_spk f') (root_th f')"
    by (rule funding_spk_commits[OF assms(1,2) ka th sl sw(2)])
  have k: "0 < unat (fanout f')" using F(2,7) by simp
  have i: "unat idx < unat (h_n_users f')" using assms(5) F(3) by (simp add: word_less_nat_alt)
  have n: "unat (h_n_users f') = unat (fanout f') ^ Suc (unat (depth f') - 1)" using N(1) F(1-3) by simp
  from leaf_walk_chain[OF assms(1,2) k r n i _ assms(6) com, of vout] assms(4-6) F(3-6) show ?thesis
    by (auto simp: ctv_hier_factory_compute_leaf_outpoint_def Let_def)
qed

theorem ctv_hier_leaf_outpoint_reachable_witness:
  "\<exists>f' ltxid lvout. ctv_hier_factory_build sample_secp sample_hier 800000 = Some f'
     \<and> ctv_hier_factory_compute_leaf_outpoint sample_secp f' 3 (replicate 32 9) 0 = Some (ltxid, lvout)"
proof -
  obtain f' where f': "ctv_hier_factory_build sample_secp sample_hier 800000 = Some f'" using sample_hier_builds by auto
  from ctv_hier_leaf_outpoint_reachable[OF _ _ f', of 3 "replicate 32 9" 0] f' show ?thesis by (auto simp: sample_hier_def)
qed

end
