(* ===== verification/Channel_Keys.thy ===== *)
theory Channel_Keys
  imports Tapscript
begin

text \<open>
  Channel keys, \<^verbatim>\<open>src/channel.c\<close> (key derivation of BOLT 3): the keys of a commitment are
  derived from the parties' basepoints and the per-commitment point, and the matching
  secret keys from the secrets.  The group operations are libsecp256k1's, the record
  \<open>ec_ops\<close>; compressed serialisation is total, as documented there.
\<close>

section \<open>Model\<close>

record 'pk ec_ops =
  ec_pubkey_create :: "bytes \<Rightarrow> 'pk option"
  ec_pubkey_serialize :: "'pk \<Rightarrow> bytes"
  ec_pubkey_tweak_add :: "'pk \<Rightarrow> bytes \<Rightarrow> 'pk option"
  ec_pubkey_tweak_mul :: "'pk \<Rightarrow> bytes \<Rightarrow> 'pk option"
  ec_pubkey_combine :: "'pk \<Rightarrow> 'pk \<Rightarrow> 'pk option"
  ec_seckey_tweak_add :: "bytes \<Rightarrow> bytes \<Rightarrow> bytes option"
  ec_seckey_tweak_mul :: "bytes \<Rightarrow> bytes \<Rightarrow> bytes option"

definition channel_derive_pubkey :: "(bytes \<Rightarrow> bytes) \<Rightarrow> 'pk ec_ops \<Rightarrow> 'pk \<Rightarrow> 'pk \<Rightarrow> 'pk option" where
  "channel_derive_pubkey sha K basepoint per_commitment_point =
     (let tweak = sha (ec_pubkey_serialize K per_commitment_point @ ec_pubkey_serialize K basepoint)
      in ec_pubkey_tweak_add K basepoint tweak)"

definition channel_derive_revocation_pubkey :: "(bytes \<Rightarrow> bytes) \<Rightarrow> 'pk ec_ops \<Rightarrow> 'pk \<Rightarrow> 'pk \<Rightarrow> 'pk option" where
  "channel_derive_revocation_pubkey sha K revocation_basepoint per_commitment_point =
     (let rb_ser = ec_pubkey_serialize K revocation_basepoint;
          pcp_ser = ec_pubkey_serialize K per_commitment_point;
          h1 = sha (rb_ser @ pcp_ser);
          h2 = sha (pcp_ser @ rb_ser)
      in case ec_pubkey_tweak_mul K revocation_basepoint h1 of None \<Rightarrow> None
         | Some term1 \<Rightarrow>
           (case ec_pubkey_tweak_mul K per_commitment_point h2 of None \<Rightarrow> None
            | Some term2 \<Rightarrow> ec_pubkey_combine K term1 term2))"

definition channel_derive_privkey :: "(bytes \<Rightarrow> bytes) \<Rightarrow> 'pk ec_ops \<Rightarrow> bytes \<Rightarrow> 'pk \<Rightarrow> bytes option" where
  "channel_derive_privkey sha K base_secret32 per_commitment_point =
     (case ec_pubkey_create K base_secret32 of None \<Rightarrow> None
      | Some basepoint \<Rightarrow>
          let tweak = sha (ec_pubkey_serialize K per_commitment_point @ ec_pubkey_serialize K basepoint)
          in ec_seckey_tweak_add K base_secret32 tweak)"

definition channel_derive_revocation_privkey ::
  "(bytes \<Rightarrow> bytes) \<Rightarrow> 'pk ec_ops \<Rightarrow> bytes \<Rightarrow> bytes \<Rightarrow> 'pk \<Rightarrow> 'pk \<Rightarrow> bytes option" where
  "channel_derive_revocation_privkey sha K revocation_basepoint_secret32 per_commitment_secret32
       revocation_basepoint per_commitment_point =
     (let rb_ser = ec_pubkey_serialize K revocation_basepoint;
          pcp_ser = ec_pubkey_serialize K per_commitment_point;
          h1 = sha (rb_ser @ pcp_ser);
          h2 = sha (pcp_ser @ rb_ser)
      in case ec_seckey_tweak_mul K revocation_basepoint_secret32 h1 of None \<Rightarrow> None
         | Some term1 \<Rightarrow>
           (case ec_seckey_tweak_mul K per_commitment_secret32 h2 of None \<Rightarrow> None
            | Some term2 \<Rightarrow> ec_seckey_tweak_add K term1 term2))"

section \<open>Secret and public derivation agree\<close>

text \<open>The group law behind libsecp256k1's functions, on 32-byte scalars: creating a public key is
  a homomorphism from scalars under addition and multiplication, and the public
  operations are defined whenever the secret ones are.\<close>

definition ec_homomorphic :: "'pk ec_ops \<Rightarrow> bool" where
  "ec_homomorphic K \<longleftrightarrow>
     (\<forall>s t r P. length s = 32 \<longrightarrow> length t = 32 \<longrightarrow> ec_pubkey_create K s = Some P \<longrightarrow>
        (ec_seckey_tweak_add K s t = Some r \<longrightarrow> length r = 32 \<and> ec_pubkey_create K r = ec_pubkey_tweak_add K P t
            \<and> ec_pubkey_create K r \<noteq> None)
      \<and> (ec_seckey_tweak_mul K s t = Some r \<longrightarrow> length r = 32 \<and> ec_pubkey_create K r = ec_pubkey_tweak_mul K P t
            \<and> ec_pubkey_create K r \<noteq> None))
   \<and> (\<forall>s t r P Q. length s = 32 \<longrightarrow> length t = 32 \<longrightarrow> ec_pubkey_create K s = Some P \<longrightarrow> ec_pubkey_create K t = Some Q \<longrightarrow>
        ec_seckey_tweak_add K s t = Some r \<longrightarrow> ec_pubkey_create K r = ec_pubkey_combine K P Q)"

lemma ec_add:
  assumes "ec_homomorphic K" "length s = 32" "length t = 32" "ec_pubkey_create K s = Some P"
    and "ec_seckey_tweak_add K s t = Some r"
  shows "length r = 32" "ec_pubkey_create K r = ec_pubkey_tweak_add K P t" "\<exists>R. ec_pubkey_create K r = Some R"
  using assms unfolding ec_homomorphic_def by (metis option.exhaust_sel)+

lemma ec_mul:
  assumes "ec_homomorphic K" "length s = 32" "length t = 32" "ec_pubkey_create K s = Some P"
    and "ec_seckey_tweak_mul K s t = Some r"
  shows "length r = 32" "ec_pubkey_create K r = ec_pubkey_tweak_mul K P t" "\<exists>R. ec_pubkey_create K r = Some R"
  using assms unfolding ec_homomorphic_def by (metis option.exhaust_sel)+

lemma ec_sum:
  assumes "ec_homomorphic K" "length s = 32" "length t = 32"
    and "ec_pubkey_create K s = Some P" "ec_pubkey_create K t = Some Q" "ec_seckey_tweak_add K s t = Some r"
  shows "ec_pubkey_create K r = ec_pubkey_combine K P Q"
  using assms unfolding ec_homomorphic_def by blast

text \<open>A small model of the group on which the laws hold: keys are bytes.\<close>

definition sample_ec :: "u8 ec_ops" where
  "sample_ec =
     \<lparr>ec_pubkey_create = (\<lambda>s. Some (hd s)), ec_pubkey_serialize = (\<lambda>p. replicate 33 p),
      ec_pubkey_tweak_add = (\<lambda>p t. Some (p + hd t)), ec_pubkey_tweak_mul = (\<lambda>p t. Some (p * hd t)),
      ec_pubkey_combine = (\<lambda>p q. Some (p + q)),
      ec_seckey_tweak_add = (\<lambda>s t. Some (map2 (+) s t)), ec_seckey_tweak_mul = (\<lambda>s t. Some (map2 (*) s t))\<rparr>"

lemma hd_map2: "length s = 32 \<Longrightarrow> length t = 32 \<Longrightarrow> hd (map2 g s t) = g (hd s) (hd t)"
  by (cases s; cases t) auto

lemma sample_ec_homomorphic [simp]: "ec_homomorphic sample_ec"
  by (auto simp: ec_homomorphic_def sample_ec_def hd_map2)

lemma sample_ec_create: "ec_pubkey_create sample_ec s = Some (hd s)"
  by (simp add: sample_ec_def)

lemma revocation_key_pair:
  assumes "ec_homomorphic K" and "\<And>x. length (sha x) = 32"
    and "length rb_sec = 32" and "length pc_sec = 32"
    and "ec_pubkey_create K rb_sec = Some RB" and "ec_pubkey_create K pc_sec = Some PCP"
    and "channel_derive_revocation_privkey sha K rb_sec pc_sec RB PCP = Some k"
  shows "\<exists>R. ec_pubkey_create K k = Some R \<and> channel_derive_revocation_pubkey sha K RB PCP = Some R"
proof -
  let ?h1 = "sha (ec_pubkey_serialize K RB @ ec_pubkey_serialize K PCP)"
  let ?h2 = "sha (ec_pubkey_serialize K PCP @ ec_pubkey_serialize K RB)"
  obtain t1 t2 where t1: "ec_seckey_tweak_mul K rb_sec ?h1 = Some t1" and t2: "ec_seckey_tweak_mul K pc_sec ?h2 = Some t2"
    and k: "ec_seckey_tweak_add K t1 t2 = Some k"
    using assms(7) by (auto simp: channel_derive_revocation_privkey_def Let_def split: option.splits)
  note m1 = ec_mul[OF assms(1,3,2,5) t1] and m2 = ec_mul[OF assms(1,4,2,6) t2]
  obtain T1 T2 where T: "ec_pubkey_create K t1 = Some T1" "ec_pubkey_create K t2 = Some T2" using m1(3) m2(3) by blast
  obtain R where R: "ec_pubkey_create K k = Some R" using ec_add(3)[OF assms(1) m1(1) m2(1) T(1) k] by blast
  have "ec_pubkey_combine K T1 T2 = Some R" using ec_sum[OF assms(1) m1(1) m2(1) T k] R by simp
  then show ?thesis using R T m1(2) m2(2) by (simp add: channel_derive_revocation_pubkey_def Let_def)
qed

lemma derived_key_pair:
  assumes "ec_homomorphic K" and "\<And>x. length (sha x) = 32" and "length sec = 32"
    and "ec_pubkey_create K sec = Some B" and "channel_derive_privkey sha K sec PCP = Some k"
  shows "\<exists>P. ec_pubkey_create K k = Some P \<and> channel_derive_pubkey sha K B PCP = Some P"
proof -
  have k: "ec_seckey_tweak_add K sec (sha (ec_pubkey_serialize K PCP @ ec_pubkey_serialize K B)) = Some k"
    using assms(4,5) by (simp add: channel_derive_privkey_def Let_def)
  from ec_add[OF assms(1,3,2,4) k] show ?thesis by (auto simp: channel_derive_pubkey_def Let_def)
qed

end
