(* ===== verification/Channel.thy ===== *)
theory Channel
  imports Channel_Keys
begin

text \<open>
  The channel state machine, \<^verbatim>\<open>src/channel.c\<close>: balances, the HTLC array, the stores of
  per-commitment secrets and points, and the operations that change them, with the
  handlers of \<^verbatim>\<open>src/htlc_commit.c\<close> and \<^verbatim>\<open>src/lsp_channels.c\<close> that feed the revocation store.

  \<open>channel\<close> has the fields of \<^verbatim>\<open>channel_t\<close> these operations use.  Heap arrays are lists: the
  lengths of \<open>htlcs\<close> and \<open>ptlcs\<close> are \<^verbatim>\<open>n_htlcs\<close> and \<^verbatim>\<open>n_ptlcs\<close>; \<open>local_pcs\<close> and
  \<open>received_revocations\<close> have the length of their capacity, and an entry of the latter is
  \<open>None\<close> while its validity flag is 0.  A slot of the two-slot ring of remote points is
  \<open>None\<close> while its flag is 0.  \<open>alloc\<close> says which sizes \<^verbatim>\<open>realloc\<close> grants, \<open>rnd\<close> gives the bytes
  read from the random device for the secret of a commitment number (\<open>None\<close> when the
  read fails).  Log output and the database write-through are left out.
\<close>

section \<open>Model: state\<close>

datatype htlc_direction = HTLC_OFFERED | HTLC_RECEIVED

datatype htlc_state = HTLC_STATE_ACTIVE | HTLC_STATE_FULFILLED | HTLC_STATE_FAILED

record htlc =
  direction :: htlc_direction
  hstate :: htlc_state
  htlc_amount :: u64
  payment_hash :: bytes
  payment_preimage :: bytes
  cltv_expiry :: u32
  htlc_id :: u64
  fee_at_add :: u64

datatype ptlc_direction = PTLC_OFFERED | PTLC_RECEIVED

datatype ptlc_state = PTLC_STATE_ACTIVE | PTLC_STATE_SETTLED | PTLC_STATE_FAILED

record 'pk ptlc =
  ptlc_dir :: ptlc_direction
  pstate :: ptlc_state
  ptlc_amount :: u64
  payment_point :: 'pk
  ptlc_expiry :: u32

definition MAX_HTLCS :: nat where
  "MAX_HTLCS = 483"

definition DEFAULT_HTLCS_CAP :: nat where
  "DEFAULT_HTLCS_CAP = 64"

definition CHANNEL_DUST_LIMIT_SATS :: u64 where
  "CHANNEL_DUST_LIMIT_SATS = 546"

definition CHANNEL_RESERVE_SATS :: u64 where
  "CHANNEL_RESERVE_SATS = 5000"

record 'pk channel =
  chan_funding_txid :: bytes
  chan_funding_vout :: u32
  chan_funding_amount :: u64
  chan_funding_spk :: bytes
  local_payment_basepoint :: 'pk
  local_delayed_payment_basepoint :: 'pk
  local_revocation_basepoint :: 'pk
  local_htlc_basepoint :: 'pk
  local_revocation_basepoint_secret :: bytes
  local_htlc_basepoint_secret :: bytes
  remote_payment_basepoint :: 'pk
  remote_delayed_payment_basepoint :: 'pk
  remote_revocation_basepoint :: 'pk
  remote_htlc_basepoint :: 'pk
  commitment_number :: u64
  local_pcs :: "bytes list"
  n_local_pcs :: nat
  remote_pcp0 :: "(u64 \<times> 'pk) option"
  remote_pcp1 :: "(u64 \<times> 'pk) option"
  received_revocations :: "bytes option list"
  local_amount :: u64
  remote_amount :: u64
  htlcs :: "htlc list"
  htlcs_cap :: nat
  next_htlc_id :: u64
  ptlcs :: "'pk ptlc list"
  to_self_delay :: u32
  fee_rate_sat_per_kvb :: u64
  funder_is_local :: bool
  use_revocation_leaf :: bool
  last_htlc_check_height :: u32
  funding_pending_reorg :: bool

section \<open>Model: secrets and points\<close>

text \<open>The doubling loop of the two growth functions, from a positive capacity.  The sizes are natural numbers here and
  \<^verbatim>\<open>size_t\<close> in the code: the two agree as long as the new capacity times 32, the number of bytes asked for, stays below
  $2^{64}$, that is, for fewer than $2^{58}$ commitments.  The theory \<open>Growth\<close> has the loop on 64-bit words.\<close>

function grow_cap :: "nat \<Rightarrow> nat \<Rightarrow> nat" where
  "grow_cap new_cap needed = (if new_cap < needed \<and> 0 < new_cap then grow_cap (new_cap * 2) needed else new_cap)"
  by pat_completeness auto
termination by (relation "measure (\<lambda>(c, n). n - c)") auto

declare grow_cap.simps [simp del]

definition channel_ensure_pcs_cap :: "(nat \<Rightarrow> bool) \<Rightarrow> 'pk channel \<Rightarrow> nat \<Rightarrow> 'pk channel option" where
  "channel_ensure_pcs_cap alloc ch needed =
     (let cap = length (local_pcs ch) in
      if needed \<le> cap then Some ch
      else let new_cap = grow_cap (if cap \<noteq> 0 then cap * 2 else 512) needed in
        if alloc (new_cap * 32)
        then Some (ch\<lparr>local_pcs := local_pcs ch @ replicate (new_cap - cap) (replicate 32 0)\<rparr>)
        else None)"

definition channel_ensure_revocations_cap :: "(nat \<Rightarrow> bool) \<Rightarrow> 'pk channel \<Rightarrow> nat \<Rightarrow> 'pk channel option" where
  "channel_ensure_revocations_cap alloc ch needed =
     (let cap = length (received_revocations ch) in
      if needed \<le> cap then Some ch
      else let new_cap = grow_cap (if cap \<noteq> 0 then cap * 2 else 512) needed in
        if \<not> alloc (new_cap * 32) then None
        else if \<not> alloc new_cap then None
        else Some (ch\<lparr>received_revocations := received_revocations ch @ replicate (new_cap - cap) None\<rparr>))"

text \<open>The stores below grow the array for \<open>commitment_num + 1\<close> entries on 64 bits.  For the last number, $2^{64} - 1$, that is zero:
  nothing grows and the code writes outside the array; in the model the update of the list then has no effect.\<close>

definition channel_set_local_pcs :: "(nat \<Rightarrow> bool) \<Rightarrow> 'pk channel \<Rightarrow> u64 \<Rightarrow> bytes \<Rightarrow> 'pk channel" where
  "channel_set_local_pcs alloc ch commitment_num secret32 =
     (case channel_ensure_pcs_cap alloc ch (unat (commitment_num + 1)) of None \<Rightarrow> ch
      | Some ch \<Rightarrow>
          let ch = ch\<lparr>local_pcs := (local_pcs ch)[unat commitment_num := take 32 secret32]\<rparr>
          in if unat (commitment_num + 1) > n_local_pcs ch
             then ch\<lparr>n_local_pcs := unat (commitment_num + 1)\<rparr> else ch)"

definition channel_generate_local_pcs ::
  "(nat \<Rightarrow> bool) \<Rightarrow> (u64 \<Rightarrow> bytes option) \<Rightarrow> 'pk channel \<Rightarrow> u64 \<Rightarrow> bool \<times> 'pk channel" where
  "channel_generate_local_pcs alloc rnd ch commitment_num =
     (case channel_ensure_pcs_cap alloc ch (unat (commitment_num + 1)) of None \<Rightarrow> (False, ch)
      | Some ch \<Rightarrow>
          (case rnd commitment_num of None \<Rightarrow> (False, ch)
           | Some secret \<Rightarrow>
               let ch = ch\<lparr>local_pcs := (local_pcs ch)[unat commitment_num := secret]\<rparr>
               in (True, if unat (commitment_num + 1) > n_local_pcs ch
                         then ch\<lparr>n_local_pcs := unat (commitment_num + 1)\<rparr> else ch)))"

definition channel_get_local_pcs :: "'pk channel \<Rightarrow> u64 \<Rightarrow> bytes option" where
  "channel_get_local_pcs ch commitment_num =
     (if unat commitment_num \<ge> length (local_pcs ch) then None
      else if unat commitment_num \<ge> n_local_pcs ch then None
      else Some (local_pcs ch ! unat commitment_num))"

definition channel_set_remote_pcp :: "'pk channel \<Rightarrow> u64 \<Rightarrow> 'pk \<Rightarrow> 'pk channel" where
  "channel_set_remote_pcp ch commitment_num pcp =
     (case (remote_pcp0 ch, remote_pcp1 ch) of
        (Some (n0, p0), s1) \<Rightarrow>
          if n0 = commitment_num then ch\<lparr>remote_pcp0 := Some (commitment_num, pcp)\<rparr>
          else (case s1 of
                  Some (n1, p1) \<Rightarrow>
                    if n1 = commitment_num then ch\<lparr>remote_pcp1 := Some (commitment_num, pcp)\<rparr>
                    else if n0 \<le> n1 then ch\<lparr>remote_pcp0 := Some (commitment_num, pcp)\<rparr>
                    else ch\<lparr>remote_pcp1 := Some (commitment_num, pcp)\<rparr>
                | None \<Rightarrow> ch\<lparr>remote_pcp1 := Some (commitment_num, pcp)\<rparr>)
      | (None, Some (n1, p1)) \<Rightarrow>
          if n1 = commitment_num then ch\<lparr>remote_pcp1 := Some (commitment_num, pcp)\<rparr>
          else ch\<lparr>remote_pcp0 := Some (commitment_num, pcp)\<rparr>
      | (None, None) \<Rightarrow> ch\<lparr>remote_pcp0 := Some (commitment_num, pcp)\<rparr>)"

definition channel_get_received_revocation :: "'pk channel \<Rightarrow> u64 \<Rightarrow> bytes option" where
  "channel_get_received_revocation ch commitment_num =
     (if unat commitment_num \<ge> length (received_revocations ch) then None
      else received_revocations ch ! unat commitment_num)"

text \<open>The two slots are looked up in order; older points come from revealed secrets.\<close>

definition pcp_slot :: "(u64 \<times> 'pk) option \<Rightarrow> u64 \<Rightarrow> 'pk option" where
  "pcp_slot slot n = (case slot of Some (m, p) \<Rightarrow> if m = n then Some p else None | None \<Rightarrow> None)"

definition max_stored_pcp :: "'pk channel \<Rightarrow> u64" where
  "max_stored_pcp ch =
     (let m = (case remote_pcp0 ch of Some (n, _) \<Rightarrow> if n > 0 then n else 0 | None \<Rightarrow> 0)
      in case remote_pcp1 ch of Some (n, _) \<Rightarrow> if n > m then n else m | None \<Rightarrow> m)"

definition channel_get_remote_pcp :: "'pk ec_ops \<Rightarrow> 'pk channel \<Rightarrow> u64 \<Rightarrow> 'pk option" where
  "channel_get_remote_pcp K ch commitment_num =
     (case pcp_slot (remote_pcp0 ch) commitment_num of Some p \<Rightarrow> Some p
      | None \<Rightarrow>
        (case pcp_slot (remote_pcp1 ch) commitment_num of Some p \<Rightarrow> Some p
         | None \<Rightarrow>
             if commitment_num < max_stored_pcp ch then
               (case channel_get_received_revocation ch commitment_num of None \<Rightarrow> None
                | Some secret \<Rightarrow> ec_pubkey_create K secret)
             else None))"

definition channel_receive_revocation_flat ::
  "(nat \<Rightarrow> bool) \<Rightarrow> 'pk channel \<Rightarrow> u64 \<Rightarrow> bytes \<Rightarrow> bool \<times> 'pk channel" where
  "channel_receive_revocation_flat alloc ch commitment_num secret32 =
     (case channel_ensure_revocations_cap alloc ch (unat (commitment_num + 1)) of None \<Rightarrow> (False, ch)
      | Some ch \<Rightarrow>
          (True, ch\<lparr>received_revocations := (received_revocations ch)[unat commitment_num := Some (take 32 secret32)]\<rparr>))"

definition channel_receive_revocation ::
  "(nat \<Rightarrow> bool) \<Rightarrow> 'pk channel \<Rightarrow> u64 \<Rightarrow> bytes \<Rightarrow> bool \<times> 'pk channel" where
  "channel_receive_revocation alloc ch commitment_num secret32 =
     channel_receive_revocation_flat alloc ch commitment_num secret32"

definition channel_get_per_commitment_point :: "'pk ec_ops \<Rightarrow> 'pk channel \<Rightarrow> u64 \<Rightarrow> 'pk option" where
  "channel_get_per_commitment_point K ch commitment_num =
     (case channel_get_local_pcs ch commitment_num of None \<Rightarrow> None
      | Some secret \<Rightarrow> ec_pubkey_create K secret)"

definition channel_get_per_commitment_secret :: "'pk channel \<Rightarrow> u64 \<Rightarrow> bytes option" where
  "channel_get_per_commitment_secret ch commitment_num = channel_get_local_pcs ch commitment_num"

definition channel_get_revocation_secret :: "'pk channel \<Rightarrow> u64 \<Rightarrow> bytes option" where
  "channel_get_revocation_secret ch old_commitment_num = channel_get_per_commitment_secret ch old_commitment_num"

definition channel_set_fee_rate :: "'pk channel \<Rightarrow> u64 \<Rightarrow> 'pk channel" where
  "channel_set_fee_rate ch rate = ch\<lparr>fee_rate_sat_per_kvb := rate\<rparr>"

text \<open>The check some callers make before storing a revealed secret (\<^verbatim>\<open>src/lsp_channels.c\<close>).\<close>

definition verify_revocation_secret :: "'pk ec_ops \<Rightarrow> 'pk channel \<Rightarrow> u64 \<Rightarrow> bytes \<Rightarrow> bool" where
  "verify_revocation_secret K ch commitment_num secret32 =
     (case ec_pubkey_create K secret32 of None \<Rightarrow> False
      | Some derived \<Rightarrow>
          (case channel_get_remote_pcp K ch commitment_num of None \<Rightarrow> True
           | Some stored \<Rightarrow> ec_pubkey_serialize K derived = ec_pubkey_serialize K stored))"

text \<open>The revoke-and-ack message handler of \<^verbatim>\<open>src/htlc_commit.c\<close>, from its payload; \<open>pk_parse\<close> is
  libsecp256k1's parser of compressed keys.\<close>

definition dispatch_revoke_and_ack ::
  "(nat \<Rightarrow> bool) \<Rightarrow> (bytes \<Rightarrow> 'pk option) \<Rightarrow> 'pk channel \<Rightarrow> bytes \<Rightarrow> bool \<times> 'pk channel" where
  "dispatch_revoke_and_ack alloc pk_parse ch payload =
     (if length payload < 97 then (False, ch)
      else
        let peer_pcs = take 32 (drop 32 payload);
            next_pcp_wire = take 33 (drop 64 payload);
            ch = (if commitment_number ch > 0
                  then snd (channel_receive_revocation_flat alloc ch (commitment_number ch - 1) peer_pcs) else ch)
        in case pk_parse next_pcp_wire of None \<Rightarrow> (False, ch)
           | Some next_pcp \<Rightarrow> (True, channel_set_remote_pcp ch (commitment_number ch + 1) next_pcp))"

section \<open>Model: HTLC operations\<close>

text \<open>The read/write loop of \<^verbatim>\<open>channel_compact_htlcs\<close>: \<open>k\<close> reads left, the array in place.\<close>

fun compact_loop :: "nat \<Rightarrow> nat \<Rightarrow> nat \<Rightarrow> htlc list \<Rightarrow> htlc list \<times> nat" where
  "compact_loop 0 read write arr = (arr, write)"
| "compact_loop (Suc k) read write arr =
     (if hstate (arr ! read) = HTLC_STATE_ACTIVE
      then compact_loop k (read + 1) (write + 1) (if write \<noteq> read then arr[write := arr ! read] else arr)
      else compact_loop k (read + 1) write arr)"

definition channel_compact_htlcs :: "'pk channel \<Rightarrow> 'pk channel" where
  "channel_compact_htlcs ch =
     (let (arr, n) = compact_loop (length (htlcs ch)) 0 0 (htlcs ch) in ch\<lparr>htlcs := take n arr\<rparr>)"

text \<open>The end of every operation: the next commitment and its secret.\<close>

definition next_commitment :: "(nat \<Rightarrow> bool) \<Rightarrow> (u64 \<Rightarrow> bytes option) \<Rightarrow> 'pk channel \<Rightarrow> 'pk channel" where
  "next_commitment alloc rnd ch =
     (let ch = ch\<lparr>commitment_number := commitment_number ch + 1\<rparr>
      in snd (channel_generate_local_pcs alloc rnd ch (commitment_number ch + 1)))"

definition funder_credit :: "'pk channel \<Rightarrow> u64 \<Rightarrow> 'pk channel" where
  "funder_credit ch amt =
     (if funder_is_local ch then ch\<lparr>local_amount := local_amount ch + amt\<rparr>
      else ch\<lparr>remote_amount := remote_amount ch + amt\<rparr>)"

text \<open>Growing the HTLC array, up to the maximum; an \<^verbatim>\<open>htlc_t\<close> takes 104 bytes.\<close>

definition sizeof_htlc :: nat where
  "sizeof_htlc = 104"

definition grow_htlcs :: "(nat \<Rightarrow> bool) \<Rightarrow> 'pk channel \<Rightarrow> 'pk channel option" where
  "grow_htlcs alloc ch =
     (if length (htlcs ch) \<ge> htlcs_cap ch then
        let new_cap = (if htlcs_cap ch < DEFAULT_HTLCS_CAP then DEFAULT_HTLCS_CAP else htlcs_cap ch * 2);
            new_cap = (if new_cap > MAX_HTLCS then MAX_HTLCS else new_cap)
        in if alloc (new_cap * sizeof_htlc) then Some (ch\<lparr>htlcs_cap := new_cap\<rparr>) else None
      else Some ch)"

definition channel_add_htlc ::
  "(nat \<Rightarrow> bool) \<Rightarrow> (u64 \<Rightarrow> bytes option) \<Rightarrow> 'pk channel \<Rightarrow> htlc_direction \<Rightarrow> u64 \<Rightarrow> bytes \<Rightarrow> u32
   \<Rightarrow> u64 option \<times> 'pk channel" where
  "channel_add_htlc alloc rnd ch dir amount payment_hash32 expiry =
     (if funding_pending_reorg ch then (None, ch)
      else if length (htlcs ch) \<ge> MAX_HTLCS then (None, ch)
      else case grow_htlcs alloc ch of None \<Rightarrow> (None, ch)
      | Some ch \<Rightarrow>
        if amount < CHANNEL_DUST_LIMIT_SATS then (None, ch)
        else
          let bal = (if dir = HTLC_OFFERED then local_amount ch else remote_amount ch) in
          if amount > bal then (None, ch)
          else if bal - amount < CHANNEL_RESERVE_SATS then (None, ch)
          else
            let ch = (if dir = HTLC_OFFERED then ch\<lparr>local_amount := local_amount ch - amount\<rparr>
                      else ch\<lparr>remote_amount := remote_amount ch - amount\<rparr>);
                per_htlc_fee = (fee_rate_sat_per_kvb ch * 43 + 999) div 1000;
                funder_bal = (if funder_is_local ch then local_amount ch else remote_amount ch)
            in if funder_bal < per_htlc_fee
               then (None, if dir = HTLC_OFFERED then ch\<lparr>local_amount := local_amount ch + amount\<rparr>
                           else ch\<lparr>remote_amount := remote_amount ch + amount\<rparr>)
               else
                 let ch = funder_credit ch (- per_htlc_fee);
                     h = \<lparr>direction = dir, hstate = HTLC_STATE_ACTIVE, htlc_amount = amount,
                          payment_hash = take 32 payment_hash32, payment_preimage = replicate 32 0,
                          cltv_expiry = expiry, htlc_id = next_htlc_id ch, fee_at_add = per_htlc_fee\<rparr>;
                     ch = ch\<lparr>htlcs := htlcs ch @ [h], next_htlc_id := next_htlc_id ch + 1\<rparr>
                 in (Some (htlc_id h), next_commitment alloc rnd ch))"

text \<open>The search loop: the first active HTLC with this id.\<close>

fun find_htlc :: "u64 \<Rightarrow> htlc list \<Rightarrow> nat option" where
  "find_htlc i [] = None"
| "find_htlc i (h # hs) =
     (if htlc_id h = i \<and> hstate h = HTLC_STATE_ACTIVE then Some 0 else map_option Suc (find_htlc i hs))"

definition channel_fulfill_htlc ::
  "(nat \<Rightarrow> bool) \<Rightarrow> (u64 \<Rightarrow> bytes option) \<Rightarrow> (bytes \<Rightarrow> bytes) \<Rightarrow> 'pk channel \<Rightarrow> u64 \<Rightarrow> bytes \<Rightarrow> bool \<times> 'pk channel" where
  "channel_fulfill_htlc alloc rnd sha ch i preimage32 =
     (case find_htlc i (htlcs ch) of None \<Rightarrow> (False, ch)
      | Some k \<Rightarrow>
          let h = htlcs ch ! k in
          if sha (take 32 preimage32) \<noteq> payment_hash h then (False, ch)
          else
            let ch = (if direction h = HTLC_OFFERED then ch\<lparr>remote_amount := remote_amount ch + htlc_amount h\<rparr>
                      else ch\<lparr>local_amount := local_amount ch + htlc_amount h\<rparr>);
                ch = funder_credit ch (fee_at_add h);
                ch = ch\<lparr>htlcs := (htlcs ch)[k := h\<lparr>payment_preimage := take 32 preimage32, hstate := HTLC_STATE_FULFILLED\<rparr>]\<rparr>
            in (True, channel_compact_htlcs (next_commitment alloc rnd ch)))"

definition channel_fail_htlc ::
  "(nat \<Rightarrow> bool) \<Rightarrow> (u64 \<Rightarrow> bytes option) \<Rightarrow> 'pk channel \<Rightarrow> u64 \<Rightarrow> bool \<times> 'pk channel" where
  "channel_fail_htlc alloc rnd ch i =
     (case find_htlc i (htlcs ch) of None \<Rightarrow> (False, ch)
      | Some k \<Rightarrow>
          let h = htlcs ch ! k;
              ch = (if direction h = HTLC_OFFERED then ch\<lparr>local_amount := local_amount ch + htlc_amount h\<rparr>
                    else ch\<lparr>remote_amount := remote_amount ch + htlc_amount h\<rparr>);
              ch = funder_credit ch (fee_at_add h);
              ch = ch\<lparr>htlcs := (htlcs ch)[k := h\<lparr>hstate := HTLC_STATE_FAILED\<rparr>]\<rparr>
          in (True, channel_compact_htlcs (next_commitment alloc rnd ch)))"

text \<open>The timeout loop; the array shrinks under it, and every round has the next index, so the
  number of HTLCs at the start bounds the rounds (\<open>fuel\<close>).\<close>

fun timeout_loop ::
  "nat \<Rightarrow> (nat \<Rightarrow> bool) \<Rightarrow> (u64 \<Rightarrow> bytes option) \<Rightarrow> u32 \<Rightarrow> nat \<Rightarrow> nat \<Rightarrow> 'pk channel \<Rightarrow> nat \<times> 'pk channel" where
  "timeout_loop 0 alloc rnd height i failed ch = (failed, ch)"
| "timeout_loop (Suc fuel) alloc rnd height i failed ch =
     (if i < length (htlcs ch) then
        let h = htlcs ch ! i in
        if hstate h = HTLC_STATE_ACTIVE \<and> cltv_expiry h > 0 \<and> height \<ge> cltv_expiry h
        then timeout_loop fuel alloc rnd height (i + 1) (failed + 1) (snd (channel_fail_htlc alloc rnd ch (htlc_id h)))
        else timeout_loop fuel alloc rnd height (i + 1) failed ch
      else (failed, ch))"

definition channel_check_htlc_timeouts ::
  "(nat \<Rightarrow> bool) \<Rightarrow> (u64 \<Rightarrow> bytes option) \<Rightarrow> 'pk channel \<Rightarrow> u32 \<Rightarrow> nat \<times> 'pk channel" where
  "channel_check_htlc_timeouts alloc rnd ch current_height =
     (if current_height < last_htlc_check_height ch then (0, ch)
      else timeout_loop (length (htlcs ch)) alloc rnd current_height 0 0
             (ch\<lparr>last_htlc_check_height := current_height\<rparr>))"

definition channel_update ::
  "(nat \<Rightarrow> bool) \<Rightarrow> (u64 \<Rightarrow> bytes option) \<Rightarrow> 'pk channel \<Rightarrow> 64 word \<Rightarrow> bool \<times> 'pk channel" where
  "channel_update alloc rnd ch delta_sats =
     (if 0 <s delta_sats \<and> delta_sats > local_amount ch then (False, ch)
      else if delta_sats <s 0 \<and> - delta_sats > remote_amount ch then (False, ch)
      else (True, next_commitment alloc rnd
              (ch\<lparr>local_amount := local_amount ch - delta_sats, remote_amount := remote_amount ch + delta_sats\<rparr>)))"

definition channel_update_funding :: "'pk channel \<Rightarrow> bytes \<Rightarrow> u32 \<Rightarrow> u64 \<Rightarrow> bytes \<Rightarrow> 'pk channel" where
  "channel_update_funding ch txid vout amount spk =
     ch\<lparr>chan_funding_txid := take 32 txid, chan_funding_vout := vout, chan_funding_amount := amount,
        chan_funding_spk := spk\<rparr>"

section \<open>Compaction is a filter\<close>

lemma compact_loop_filter:
  "rd + k = length arr \<Longrightarrow> wr \<le> rd \<Longrightarrow>
   (case compact_loop k rd wr arr of (a, n) \<Rightarrow> take n a) =
     take wr arr @ filter (\<lambda>h. hstate h = HTLC_STATE_ACTIVE) (drop rd arr)"
proof (induction k arbitrary: rd wr arr)
  case (Suc k)
  have r: "rd < length arr" using Suc.prems(1) by simp
  have d: "drop rd arr = arr ! rd # drop (rd + 1) arr" using r by (simp add: Cons_nth_drop_Suc)
  show ?case
  proof (cases "hstate (arr ! rd) = HTLC_STATE_ACTIVE")
    case True
    define ar where "ar = (if wr \<noteq> rd then arr[wr := arr ! rd] else arr)"
    have t: "take (wr + 1) ar = take wr arr @ [arr ! rd]"
      using r Suc.prems(2) by (auto simp: ar_def take_Suc_conv_app_nth)
    have dr: "drop (rd + 1) ar = drop (rd + 1) arr" using Suc.prems(2) by (simp add: ar_def)
    have "compact_loop (Suc k) rd wr arr = compact_loop k (rd + 1) (wr + 1) ar"
      using True by (simp add: ar_def)
    moreover have "(case compact_loop k (rd + 1) (wr + 1) ar of (a, n) \<Rightarrow> take n a) =
        take (wr + 1) ar @ filter (\<lambda>h. hstate h = HTLC_STATE_ACTIVE) (drop (rd + 1) ar)"
      by (rule Suc.IH) (use Suc.prems in \<open>simp_all add: ar_def\<close>)
    ultimately show ?thesis
      unfolding t dr d using True by (simp only: filter.simps append_assoc append_Cons append_Nil if_True simp_thms)
  next
    case False
    with Suc.IH[of "rd + 1" arr wr] Suc.prems show ?thesis by (simp add: d)
  qed
qed simp

lemma channel_compact_filter [simp]:
  "channel_compact_htlcs ch = ch\<lparr>htlcs := filter (\<lambda>h. hstate h = HTLC_STATE_ACTIVE) (htlcs ch)\<rparr>"
  using compact_loop_filter[of 0 "length (htlcs ch)" "htlcs ch" 0]
  by (simp add: channel_compact_htlcs_def split: prod.splits)

section \<open>The secret stores\<close>

lemma grow_cap_ge: "0 < c \<Longrightarrow> needed \<le> grow_cap c needed \<and> c \<le> grow_cap c needed"
proof (induction c needed rule: grow_cap.induct)
  case (1 c needed)
  show ?case
  proof (cases "c < needed")
    case True
    with 1 show ?thesis by (subst (1 2) grow_cap.simps) auto
  next
    case False
    with "1.prems" show ?thesis by (subst (1 2) grow_cap.simps) auto
  qed
qed

lemma generate_fields [simp]:
  fixes ch :: "'pk channel" and alloc rnd n
  defines "ch' \<equiv> snd (channel_generate_local_pcs alloc rnd ch n)"
  shows "htlcs ch' = htlcs ch" "local_amount ch' = local_amount ch" "remote_amount ch' = remote_amount ch"
    "next_htlc_id ch' = next_htlc_id ch" "htlcs_cap ch' = htlcs_cap ch" "funder_is_local ch' = funder_is_local ch"
    "commitment_number ch' = commitment_number ch" "last_htlc_check_height ch' = last_htlc_check_height ch"
    "funding_pending_reorg ch' = funding_pending_reorg ch" "received_revocations ch' = received_revocations ch"
    "fee_rate_sat_per_kvb ch' = fee_rate_sat_per_kvb ch"
    "ptlcs ch' = ptlcs ch" "to_self_delay ch' = to_self_delay ch" "use_revocation_leaf ch' = use_revocation_leaf ch"
    "chan_funding_txid ch' = chan_funding_txid ch" "chan_funding_vout ch' = chan_funding_vout ch" "remote_pcp0 ch' = remote_pcp0 ch"
    "remote_pcp1 ch' = remote_pcp1 ch" "local_payment_basepoint ch' = local_payment_basepoint ch" "remote_payment_basepoint ch' = remote_payment_basepoint ch"
    "local_delayed_payment_basepoint ch' = local_delayed_payment_basepoint ch" "remote_delayed_payment_basepoint ch' = remote_delayed_payment_basepoint ch" "local_revocation_basepoint ch' = local_revocation_basepoint ch"
    "remote_revocation_basepoint ch' = remote_revocation_basepoint ch" "local_htlc_basepoint ch' = local_htlc_basepoint ch" "remote_htlc_basepoint ch' = remote_htlc_basepoint ch"
  by (auto simp: ch'_def channel_generate_local_pcs_def channel_ensure_pcs_cap_def Let_def split: option.splits)

lemma next_commitment_fields [simp]:
  fixes ch :: "'pk channel" and alloc rnd
  defines "ch' \<equiv> next_commitment alloc rnd ch"
  shows "htlcs ch' = htlcs ch" "local_amount ch' = local_amount ch" "remote_amount ch' = remote_amount ch"
    "next_htlc_id ch' = next_htlc_id ch" "htlcs_cap ch' = htlcs_cap ch" "funder_is_local ch' = funder_is_local ch"
    "commitment_number ch' = commitment_number ch + 1" "last_htlc_check_height ch' = last_htlc_check_height ch"
    "funding_pending_reorg ch' = funding_pending_reorg ch" "received_revocations ch' = received_revocations ch"
    "fee_rate_sat_per_kvb ch' = fee_rate_sat_per_kvb ch"
    "ptlcs ch' = ptlcs ch" "to_self_delay ch' = to_self_delay ch" "use_revocation_leaf ch' = use_revocation_leaf ch"
    "chan_funding_txid ch' = chan_funding_txid ch" "chan_funding_vout ch' = chan_funding_vout ch" "remote_pcp0 ch' = remote_pcp0 ch"
    "remote_pcp1 ch' = remote_pcp1 ch" "local_payment_basepoint ch' = local_payment_basepoint ch" "remote_payment_basepoint ch' = remote_payment_basepoint ch"
    "local_delayed_payment_basepoint ch' = local_delayed_payment_basepoint ch" "remote_delayed_payment_basepoint ch' = remote_delayed_payment_basepoint ch" "local_revocation_basepoint ch' = local_revocation_basepoint ch"
    "remote_revocation_basepoint ch' = remote_revocation_basepoint ch" "local_htlc_basepoint ch' = local_htlc_basepoint ch" "remote_htlc_basepoint ch' = remote_htlc_basepoint ch"
  by (simp_all add: ch'_def next_commitment_def Let_def)

section \<open>Balances\<close>

definition balances :: "'pk channel \<Rightarrow> nat" where
  "balances ch = unat (local_amount ch) + unat (remote_amount ch)"

definition htlc_value :: "htlc \<Rightarrow> nat" where
  "htlc_value h = unat (htlc_amount h) + unat (fee_at_add h)"

text \<open>All the money in the channel: both balances, the HTLCs in flight and the fees set aside.\<close>

definition wealth :: "'pk channel \<Rightarrow> nat" where
  "wealth ch = balances ch + (\<Sum>h\<leftarrow>htlcs ch. htlc_value h)"

lemma balances_next_commitment [simp]: "balances (next_commitment alloc rnd ch) = balances ch"
  by (simp add: balances_def)

lemma balances_htlcs [simp]: "balances (ch\<lparr>htlcs := hs\<rparr>) = balances ch"
  by (simp add: balances_def)

lemma balances_credit:
  assumes "balances ch + unat a < 2 ^ 64"
  shows "balances (ch\<lparr>local_amount := local_amount ch + a\<rparr>) = balances ch + unat a"
    and "balances (ch\<lparr>remote_amount := remote_amount ch + a\<rparr>) = balances ch + unat a"
    and "balances (funder_credit ch a) = balances ch + unat a"
  using assms by (simp_all add: balances_def funder_credit_def unat_plus_nowrap)

lemma balances_debit:
  "a \<le> local_amount ch \<Longrightarrow> balances (ch\<lparr>local_amount := local_amount ch - a\<rparr>) + unat a = balances ch"
  "a \<le> remote_amount ch \<Longrightarrow> balances (ch\<lparr>remote_amount := remote_amount ch - a\<rparr>) + unat a = balances ch"
  "a \<le> (if funder_is_local ch then local_amount ch else remote_amount ch) \<Longrightarrow>
     balances (funder_credit ch (- a)) + unat a = balances ch"
  by (auto simp: balances_def funder_credit_def unat_minus_nowrap word_le_nat_alt)

lemma funder_credit_fields [simp]:
  "htlcs (funder_credit ch a) = htlcs ch" "next_htlc_id (funder_credit ch a) = next_htlc_id ch"
  "htlcs_cap (funder_credit ch a) = htlcs_cap ch" "commitment_number (funder_credit ch a) = commitment_number ch"
  "last_htlc_check_height (funder_credit ch a) = last_htlc_check_height ch"
  by (simp_all add: funder_credit_def)

section \<open>The invariant\<close>

definition all_active :: "htlc list \<Rightarrow> bool" where
  "all_active hs \<longleftrightarrow> list_all (\<lambda>h. hstate h = HTLC_STATE_ACTIVE) hs"

text \<open>The channel holds \<open>T\<close> satoshis, all HTLCs are active with distinct ids below the next id and
  amounts above dust, the array is within its bounds, and at least \<open>n\<close> more ids can be given out.\<close>

definition chan_inv :: "nat \<Rightarrow> nat \<Rightarrow> 'pk channel \<Rightarrow> bool" where
  "chan_inv T n ch \<longleftrightarrow>
     wealth ch = T \<and> T < 2 ^ 64 \<and> all_active (htlcs ch) \<and> distinct (map htlc_id (htlcs ch))
     \<and> list_all (\<lambda>h. htlc_id h < next_htlc_id ch \<and> CHANNEL_DUST_LIMIT_SATS \<le> htlc_amount h) (htlcs ch)
     \<and> length (htlcs ch) \<le> MAX_HTLCS
     \<and> unat (next_htlc_id ch) + n < 2 ^ 64"

lemma chan_inv_weaken: "chan_inv T (Suc n) ch \<Longrightarrow> chan_inv T n ch"
  by (simp add: chan_inv_def)

lemma find_htlc_Some:
  "find_htlc i hs = Some k \<Longrightarrow> k < length hs \<and> htlc_id (hs ! k) = i \<and> hstate (hs ! k) = HTLC_STATE_ACTIVE"
  by (induction hs arbitrary: k) (auto split: if_splits)

lemma find_htlc_None:
  "find_htlc i hs = None \<longleftrightarrow> (\<forall>h\<in>set hs. \<not> (htlc_id h = i \<and> hstate h = HTLC_STATE_ACTIVE))"
  by (induction hs) auto

lemma find_htlc_nth:
  "distinct (map htlc_id hs) \<Longrightarrow> all_active hs \<Longrightarrow> k < length hs \<Longrightarrow> find_htlc (htlc_id (hs ! k)) hs = Some k"
proof (induction hs arbitrary: k)
  case (Cons h hs)
  then show ?case by (cases k) (auto simp: all_active_def)
qed simp

lemma filter_settled:
  assumes "all_active hs" and "k < length hs" and "hstate h' \<noteq> HTLC_STATE_ACTIVE"
  shows "filter (\<lambda>h. hstate h = HTLC_STATE_ACTIVE) (hs[k := h']) = take k hs @ drop (Suc k) hs"
proof -
  have "filter (\<lambda>h. hstate h = HTLC_STATE_ACTIVE) (take k hs) = take k hs"
    "filter (\<lambda>h. hstate h = HTLC_STATE_ACTIVE) (drop (Suc k) hs) = drop (Suc k) hs"
    using assms(1) by (auto simp: all_active_def list_all_iff filter_id_conv dest: in_set_takeD in_set_dropD)
  then show ?thesis using assms(2,3) by (simp add: upd_conv_take_nth_drop)
qed

lemma sum_take_drop:
  "k < length hs \<Longrightarrow> (\<Sum>h\<leftarrow>hs. f h) = (\<Sum>h\<leftarrow>take k hs @ drop (Suc k) hs. f h) + (f (hs ! k) :: nat)"
  by (subst id_take_nth_drop[of k hs]) auto

text \<open>Removing one HTLC and paying its value out keeps the invariant.\<close>

lemma chan_inv_remove:
  assumes "chan_inv T n ch" and "k < length (htlcs ch)"
    and "htlcs ch' = take k (htlcs ch) @ drop (Suc k) (htlcs ch)" and "next_htlc_id ch' = next_htlc_id ch"
    and "balances ch' = balances ch + htlc_value (htlcs ch ! k)"
  shows "chan_inv T n ch'"
proof -
  have sub: "set (htlcs ch') \<subseteq> set (htlcs ch)"
    using assms(3) by (auto dest: in_set_takeD in_set_dropD)
  have "distinct (map htlc_id (take k (htlcs ch) @ htlcs ch ! k # drop (Suc k) (htlcs ch)))"
    using assms(1,2) by (simp add: id_take_nth_drop[symmetric] chan_inv_def)
  then have "distinct (map htlc_id (htlcs ch'))" by (auto simp: assms(3))
  moreover have "wealth ch' = wealth ch"
    unfolding wealth_def assms(3,5) using sum_take_drop[OF assms(2), of htlc_value] by simp
  moreover have "length (htlcs ch') \<le> length (htlcs ch)" using assms(2,3) by simp
  ultimately show ?thesis using assms(1,4) sub
    by (auto simp: chan_inv_def all_active_def list_all_iff)
qed

lemma value_bound: "k < length (htlcs ch) \<Longrightarrow> balances ch + htlc_value (htlcs ch ! k) \<le> wealth ch"
  unfolding wealth_def using sum_take_drop[of k "htlcs ch" htlc_value] by simp

end
