(* ===== verification/Channel_Ops.thy ===== *)
theory Channel_Ops
  imports Channel
begin

text \<open>
  What the channel operations of \<open>Channel\<close> guarantee over arbitrary sequences of calls: no
  money is created or lost, HTLC ids stay unique, HTLCs settle only with their preimage or
  by a refund, expired HTLCs are eventually failed, and the stores of points and revealed
  secrets keep what the penalty mechanism needs.
\<close>

section \<open>Settling one HTLC\<close>

text \<open>What both ways of settling an HTLC do, given the side that is credited.\<close>

definition credited :: "bool \<Rightarrow> 'pk channel \<Rightarrow> htlc \<Rightarrow> 'pk channel" where
  "credited to_local ch h =
     funder_credit (if to_local then ch\<lparr>local_amount := local_amount ch + htlc_amount h\<rparr>
                    else ch\<lparr>remote_amount := remote_amount ch + htlc_amount h\<rparr>) (fee_at_add h)"

lemma credited_fields [simp]:
  "htlcs (credited b ch h) = htlcs ch" "next_htlc_id (credited b ch h) = next_htlc_id ch"
  "htlcs_cap (credited b ch h) = htlcs_cap ch" "last_htlc_check_height (credited b ch h) = last_htlc_check_height ch"
  "commitment_number (credited b ch h) = commitment_number ch"
  by (simp_all add: credited_def)

lemma balances_credited:
  assumes "balances ch + htlc_value h < 2 ^ 64"
  shows "balances (credited b ch h) = balances ch + htlc_value h"
proof -
  let ?c = "if b then ch\<lparr>local_amount := local_amount ch + htlc_amount h\<rparr>
            else ch\<lparr>remote_amount := remote_amount ch + htlc_amount h\<rparr>"
  have "balances ?c = balances ch + unat (htlc_amount h)"
    using assms by (simp add: balances_credit htlc_value_def)
  then show ?thesis using assms by (simp add: credited_def balances_credit(3) htlc_value_def)
qed

definition settled :: "(nat \<Rightarrow> bool) \<Rightarrow> (u64 \<Rightarrow> bytes option) \<Rightarrow> bool \<Rightarrow> 'pk channel \<Rightarrow> nat \<Rightarrow> htlc \<Rightarrow> 'pk channel" where
  "settled alloc rnd to_local ch k h' =
     channel_compact_htlcs (next_commitment alloc rnd
       ((credited to_local ch (htlcs ch ! k))\<lparr>htlcs := (htlcs ch)[k := h']\<rparr>))"

lemma fulfill_settled:
  assumes "find_htlc i (htlcs ch) = Some k" and "sha (take 32 preimage) = payment_hash (htlcs ch ! k)"
  shows "channel_fulfill_htlc alloc rnd sha ch i preimage =
    (True, settled alloc rnd (direction (htlcs ch ! k) \<noteq> HTLC_OFFERED) ch k
       ((htlcs ch ! k)\<lparr>payment_preimage := take 32 preimage, hstate := HTLC_STATE_FULFILLED\<rparr>))"
  using assms unfolding channel_fulfill_htlc_def settled_def credited_def Let_def
  by (simp del: channel_compact_filter)

lemma fail_settled:
  assumes "find_htlc i (htlcs ch) = Some k"
  shows "channel_fail_htlc alloc rnd ch i =
    (True, settled alloc rnd (direction (htlcs ch ! k) = HTLC_OFFERED) ch k
       ((htlcs ch ! k)\<lparr>hstate := HTLC_STATE_FAILED\<rparr>))"
  using assms unfolding channel_fail_htlc_def settled_def credited_def Let_def
  by (simp del: channel_compact_filter)

lemma settled_facts:
  assumes "chan_inv T n ch" and "k < length (htlcs ch)" and "hstate h' \<noteq> HTLC_STATE_ACTIVE"
  shows "chan_inv T n (settled alloc rnd b ch k h')"
    and "htlcs (settled alloc rnd b ch k h') = take k (htlcs ch) @ drop (Suc k) (htlcs ch)"
    and "last_htlc_check_height (settled alloc rnd b ch k h') = last_htlc_check_height ch"
    and "local_amount (settled alloc rnd b ch k h') = local_amount (credited b ch (htlcs ch ! k))"
    and "remote_amount (settled alloc rnd b ch k h') = remote_amount (credited b ch (htlcs ch ! k))"
proof -
  have act: "all_active (htlcs ch)" and T: "wealth ch = T" "T < 2 ^ 64" using assms(1) by (auto simp: chan_inv_def)
  show hs: "htlcs (settled alloc rnd b ch k h') = take k (htlcs ch) @ drop (Suc k) (htlcs ch)"
    using filter_settled[OF act assms(2,3)] by (simp add: settled_def)
  have "balances ch + htlc_value (htlcs ch ! k) < 2 ^ 64" using value_bound[OF assms(2)] T by linarith
  then have "balances (settled alloc rnd b ch k h') = balances ch + htlc_value (htlcs ch ! k)"
    by (simp add: settled_def balances_credited)
  then show "chan_inv T n (settled alloc rnd b ch k h')"
    using hs by (intro chan_inv_remove[OF assms(1,2)]) (simp_all add: settled_def)
qed (simp_all add: settled_def)

lemma fail_inv: "chan_inv T n ch \<Longrightarrow> chan_inv T n (snd (channel_fail_htlc alloc rnd ch i))"
proof (cases "find_htlc i (htlcs ch)")
  case None
  then show "chan_inv T n ch \<Longrightarrow> ?thesis" by (simp add: channel_fail_htlc_def)
next
  case (Some k)
  assume "chan_inv T n ch"
  from settled_facts(1)[OF this] find_htlc_Some[OF Some] show ?thesis by (simp add: fail_settled[OF Some])
qed

lemma fulfill_inv: "chan_inv T n ch \<Longrightarrow> chan_inv T n (snd (channel_fulfill_htlc alloc rnd sha ch i pre))"
proof (cases "find_htlc i (htlcs ch)")
  case None
  then show "chan_inv T n ch \<Longrightarrow> ?thesis" by (simp add: channel_fulfill_htlc_def)
next
  case (Some k)
  assume inv: "chan_inv T n ch"
  show ?thesis
  proof (cases "sha (take 32 pre) = payment_hash (htlcs ch ! k)")
    case True
    from settled_facts(1)[OF inv] find_htlc_Some[OF Some] show ?thesis by (simp add: fulfill_settled[of i ch k sha pre, OF Some True])
  next
    case False
    with Some inv show ?thesis by (simp add: channel_fulfill_htlc_def Let_def)
  qed
qed

lemma timeout_loop_inv: "chan_inv T n ch \<Longrightarrow> chan_inv T n (snd (timeout_loop fuel alloc rnd height i failed ch))"
  by (induction fuel arbitrary: i failed ch) (auto simp: Let_def intro: fail_inv)

lemma chan_inv_check_height [simp]: "chan_inv T n (ch\<lparr>last_htlc_check_height := h\<rparr>) = chan_inv T n ch"
  by (simp add: chan_inv_def wealth_def balances_def)

lemma timeouts_inv: "chan_inv T n ch \<Longrightarrow> chan_inv T n (snd (channel_check_htlc_timeouts alloc rnd ch height))"
  by (simp add: channel_check_htlc_timeouts_def timeout_loop_inv)

section \<open>Adding an HTLC\<close>

lemma grow_htlcs_fields:
  "grow_htlcs alloc ch = Some ch' \<Longrightarrow> \<exists>c. ch' = ch\<lparr>htlcs_cap := c\<rparr>"
  by (auto simp: grow_htlcs_def Let_def split: if_splits intro: exI[of _ "htlcs_cap ch"])

lemma chan_inv_cap [simp]: "chan_inv T n (ch\<lparr>htlcs_cap := c\<rparr>) = chan_inv T n ch"
  by (simp add: chan_inv_def wealth_def balances_def)

text \<open>A successful add, from the state with the array grown.\<close>

definition debited :: "'pk channel \<Rightarrow> htlc_direction \<Rightarrow> u64 \<Rightarrow> 'pk channel" where
  "debited ch dir amount =
     (if dir = HTLC_OFFERED then ch\<lparr>local_amount := local_amount ch - amount\<rparr>
      else ch\<lparr>remote_amount := remote_amount ch - amount\<rparr>)"

definition per_htlc_fee_of :: "'pk channel \<Rightarrow> u64" where
  "per_htlc_fee_of ch = (fee_rate_sat_per_kvb ch * 43 + 999) div 1000"

definition new_htlc :: "'pk channel \<Rightarrow> htlc_direction \<Rightarrow> u64 \<Rightarrow> bytes \<Rightarrow> u32 \<Rightarrow> htlc" where
  "new_htlc ch dir amount hash expiry =
     \<lparr>direction = dir, hstate = HTLC_STATE_ACTIVE, htlc_amount = amount, payment_hash = take 32 hash,
      payment_preimage = replicate 32 0, cltv_expiry = expiry, htlc_id = next_htlc_id ch,
      fee_at_add = per_htlc_fee_of ch\<rparr>"

definition add_htlc_guard :: "'pk channel \<Rightarrow> htlc_direction \<Rightarrow> u64 \<Rightarrow> bool" where
  "add_htlc_guard ch dir amount \<longleftrightarrow>
     (let bal = (if dir = HTLC_OFFERED then local_amount ch else remote_amount ch); ch' = debited ch dir amount in
      \<not> amount < CHANNEL_DUST_LIMIT_SATS \<and> \<not> amount > bal \<and> \<not> bal - amount < CHANNEL_RESERVE_SATS
      \<and> \<not> (if funder_is_local ch then local_amount ch' else remote_amount ch') < per_htlc_fee_of ch)"

text \<open>The part of the add after the array has been grown: the guards, or the new entry.\<close>

lemma add_htlc_grown:
  assumes "\<not> funding_pending_reorg ch" and "length (htlcs ch) < MAX_HTLCS"
    and "grow_htlcs alloc ch = Some (ch\<lparr>htlcs_cap := c\<rparr>)"
  shows "channel_add_htlc alloc rnd ch dir amount hash expiry =
    (if add_htlc_guard ch dir amount then
       (Some (next_htlc_id ch), next_commitment alloc rnd
          ((funder_credit (debited (ch\<lparr>htlcs_cap := c\<rparr>) dir amount) (- per_htlc_fee_of ch))
             \<lparr>htlcs := htlcs ch @ [new_htlc ch dir amount hash expiry], next_htlc_id := next_htlc_id ch + 1\<rparr>))
     else (None, ch\<lparr>htlcs_cap := c\<rparr>))"
  using assms
  by (cases dir; cases "funder_is_local ch")
     (auto simp: channel_add_htlc_def add_htlc_guard_def Let_def debited_def per_htlc_fee_of_def new_htlc_def funder_credit_def)

lemma add_htlc_cases:
  obtains (refused) c where "channel_add_htlc alloc rnd ch dir amount hash expiry = (None, ch\<lparr>htlcs_cap := c\<rparr>)"
  | (added) c where "channel_add_htlc alloc rnd ch dir amount hash expiry =
        (Some (next_htlc_id ch), next_commitment alloc rnd
           ((funder_credit (debited (ch\<lparr>htlcs_cap := c\<rparr>) dir amount) (- per_htlc_fee_of ch))
              \<lparr>htlcs := htlcs ch @ [new_htlc ch dir amount hash expiry], next_htlc_id := next_htlc_id ch + 1\<rparr>))"
    and "length (htlcs ch) < MAX_HTLCS" and "CHANNEL_DUST_LIMIT_SATS \<le> amount"
    and "amount \<le> (if dir = HTLC_OFFERED then local_amount ch else remote_amount ch)"
    and "per_htlc_fee_of ch \<le> (if funder_is_local ch then local_amount (debited ch dir amount) else remote_amount (debited ch dir amount))"
proof -
  have self: "ch = ch\<lparr>htlcs_cap := htlcs_cap ch\<rparr>" by simp
  show thesis
  proof (cases "funding_pending_reorg ch \<or> length (htlcs ch) \<ge> MAX_HTLCS \<or> grow_htlcs alloc ch = None")
    case True
    then have "channel_add_htlc alloc rnd ch dir amount hash expiry = (None, ch)"
      by (auto simp: channel_add_htlc_def)
    with self show thesis by (metis refused)
  next
    case False
    then obtain c where g: "grow_htlcs alloc ch = Some (ch\<lparr>htlcs_cap := c\<rparr>)"
      using grow_htlcs_fields by fast
    note g' = add_htlc_grown[OF _ _ g, of rnd dir amount hash expiry]
    show thesis
    proof (cases "add_htlc_guard ch dir amount")
      case True
      with False g' show thesis by (intro added[of c]) (auto simp: add_htlc_guard_def Let_def)
    next
      case False
      with \<open>\<not> (funding_pending_reorg ch \<or> length (htlcs ch) \<ge> MAX_HTLCS \<or> grow_htlcs alloc ch = None)\<close> g'
      show thesis by (intro refused[of c]) auto
    qed
  qed
qed


lemma debited_fields [simp]:
  "htlcs (debited ch d a) = htlcs ch" "next_htlc_id (debited ch d a) = next_htlc_id ch"
  "funder_is_local (debited ch d a) = funder_is_local ch"
  "local_amount (debited (ch\<lparr>htlcs_cap := c\<rparr>) d a) = local_amount (debited ch d a)"
  "remote_amount (debited (ch\<lparr>htlcs_cap := c\<rparr>) d a) = remote_amount (debited ch d a)"
  by (simp_all add: debited_def)

lemma balances_debited:
  "a \<le> (if d = HTLC_OFFERED then local_amount ch else remote_amount ch) \<Longrightarrow>
     balances (debited ch d a) + unat a = balances ch"
  using balances_debit(1,2)[of a ch] by (auto simp: debited_def)

lemma balances_other [simp]:
  "balances (ch\<lparr>htlcs_cap := c\<rparr>) = balances ch" "balances (ch\<lparr>next_htlc_id := i\<rparr>) = balances ch"
  by (simp_all add: balances_def)

lemma add_inv: "chan_inv T (Suc n) ch \<Longrightarrow> chan_inv T n (snd (channel_add_htlc alloc rnd ch dir amount hash expiry))"
proof -
  assume inv: "chan_inv T (Suc n) ch"
  have next_id: "unat (next_htlc_id ch + 1) = unat (next_htlc_id ch) + 1"
    using inv by (simp add: chan_inv_def unat_plus_nowrap)
  show ?thesis
  proof (cases rule: add_htlc_cases[of alloc rnd ch dir amount hash expiry])
    case (refused c)
    with inv show ?thesis by (simp add: chan_inv_weaken)
  next
    case (added c)
    let ?d = "debited (ch\<lparr>htlcs_cap := c\<rparr>) dir amount" and ?h = "new_htlc ch dir amount hash expiry"
    have "balances ?d + unat amount = balances ch"
      using balances_debited[of amount dir "ch\<lparr>htlcs_cap := c\<rparr>"] added(4) by (cases dir) simp_all
    moreover have "balances (funder_credit ?d (- per_htlc_fee_of ch)) + unat (per_htlc_fee_of ch) = balances ?d"
      using balances_debit(3)[of "per_htlc_fee_of ch" ?d] added(5) by (cases "funder_is_local ch") simp_all
    ultimately have "balances (funder_credit ?d (- per_htlc_fee_of ch)) + htlc_value ?h = balances ch"
      by (simp add: htlc_value_def new_htlc_def)
    then show ?thesis
      using inv added(2,3) next_id
      by (auto simp: added(1) chan_inv_def wealth_def all_active_def new_htlc_def list_all_iff word_less_nat_alt)
  qed
qed

section \<open>Payments by balance shift, and the whole interface\<close>

lemma update_inv: "chan_inv T n ch \<Longrightarrow> chan_inv T n (snd (channel_update alloc rnd ch delta))"
proof -
  assume inv: "chan_inv T n ch"
  then have b: "unat (local_amount ch) + unat (remote_amount ch) < 2 ^ 64"
    by (simp add: chan_inv_def wealth_def balances_def)
  let ?ch = "ch\<lparr>local_amount := local_amount ch - delta, remote_amount := remote_amount ch + delta\<rparr>"
  have "balances ?ch = balances ch"
    if ok: "\<not> (0 <s delta \<and> delta > local_amount ch)" "\<not> (delta <s 0 \<and> - delta > remote_amount ch)"
  proof (cases "delta <s 0")
    case True
    with ok have le: "unat (- delta) \<le> unat (remote_amount ch)" by (simp add: word_le_nat_alt not_less)
    have "unat (local_amount ch + (- delta)) = unat (local_amount ch) + unat (- delta)"
      by (rule unat_plus_nowrap) (use le b in simp)
    moreover have "unat (remote_amount ch - (- delta)) = unat (remote_amount ch) - unat (- delta)"
      by (rule unat_minus_nowrap) (use le in \<open>simp add: word_le_nat_alt\<close>)
    ultimately show ?thesis using le by (simp add: balances_def)
  next
    case False
    with ok have le: "unat delta \<le> unat (local_amount ch)"
      by (cases "delta = 0") (auto simp: word_le_nat_alt not_less word_sless_alt order_less_le signed_eq_0_iff)
    have "unat (remote_amount ch + delta) = unat (remote_amount ch) + unat delta"
      by (rule unat_plus_nowrap) (use le b in simp)
    moreover have "unat (local_amount ch - delta) = unat (local_amount ch) - unat delta"
      by (rule unat_minus_nowrap) (use le in \<open>simp add: word_le_nat_alt\<close>)
    ultimately show ?thesis using le by (simp add: balances_def)
  qed
  then show ?thesis using inv by (auto simp: channel_update_def chan_inv_def wealth_def)
qed

text \<open>One call of the interface: the allocator and the random source it meets, and the operation.\<close>

datatype 'pk chan_op =
    Add htlc_direction u64 bytes u32 | Fulfill u64 bytes | Fail u64 | Timeouts u32 | Update u64
  | Fee_rate u64 | Revocation u64 bytes | Remote_point u64 'pk | Local_secret u64 bytes | Funding bytes u32 u64 bytes

type_synonym 'pk chan_call = "(nat \<Rightarrow> bool) \<times> (u64 \<Rightarrow> bytes option) \<times> 'pk chan_op"

definition chan_step :: "(bytes \<Rightarrow> bytes) \<Rightarrow> 'pk chan_call \<Rightarrow> 'pk channel \<Rightarrow> 'pk channel" where
  "chan_step sha = (\<lambda>(alloc, rnd, op) ch. case op of
       Add dir amount hash expiry \<Rightarrow> snd (channel_add_htlc alloc rnd ch dir amount hash expiry)
     | Fulfill i preimage \<Rightarrow> snd (channel_fulfill_htlc alloc rnd sha ch i preimage)
     | Fail i \<Rightarrow> snd (channel_fail_htlc alloc rnd ch i)
     | Timeouts height \<Rightarrow> snd (channel_check_htlc_timeouts alloc rnd ch height)
     | Update delta \<Rightarrow> snd (channel_update alloc rnd ch delta)
     | Fee_rate rate \<Rightarrow> channel_set_fee_rate ch rate
     | Revocation n secret \<Rightarrow> snd (channel_receive_revocation alloc ch n secret)
     | Remote_point n point \<Rightarrow> channel_set_remote_pcp ch n point
     | Local_secret n secret \<Rightarrow> channel_set_local_pcs alloc ch n secret
     | Funding txid vout amount spk \<Rightarrow> channel_update_funding ch txid vout amount spk)"

lemma chan_inv_cong:
  "htlcs ch' = htlcs ch \<Longrightarrow> local_amount ch' = local_amount ch \<Longrightarrow> remote_amount ch' = remote_amount ch \<Longrightarrow>
   next_htlc_id ch' = next_htlc_id ch \<Longrightarrow> chan_inv T n ch' = chan_inv T n ch"
  by (simp add: chan_inv_def wealth_def balances_def)

lemma store_inv:
  "chan_inv T n (channel_set_fee_rate ch rate) = chan_inv T n ch"
  "chan_inv T n (snd (channel_receive_revocation alloc ch m secret)) = chan_inv T n ch"
  "chan_inv T n (channel_set_remote_pcp ch m point) = chan_inv T n ch"
  "chan_inv T n (channel_set_local_pcs alloc ch m secret) = chan_inv T n ch"
  "chan_inv T n (channel_update_funding ch txid vout amount spk) = chan_inv T n ch"
  by (rule chan_inv_cong;
      auto simp: channel_set_fee_rate_def channel_receive_revocation_def channel_receive_revocation_flat_def
        channel_ensure_revocations_cap_def channel_set_remote_pcp_def channel_set_local_pcs_def channel_ensure_pcs_cap_def
        channel_update_funding_def Let_def split: option.splits prod.splits)+

interpretation chan_run: budget_invariant "chan_step sha" "chan_inv T" for sha :: "bytes \<Rightarrow> bytes" and T
proof unfold_locales
  fix n and s :: "'pk channel" and call :: "'pk chan_call"
  obtain alloc rnd op where call: "call = (alloc, rnd, op)" by (cases call)
  assume inv: "chan_inv T (Suc n) s"
  with chan_inv_weaken[OF inv] show "chan_inv T n (chan_step sha call s)"
    by (cases op) (auto simp: call chan_step_def store_inv intro: add_inv fulfill_inv fail_inv timeouts_inv update_inv)
qed


text \<open>A channel on which the witnesses evaluate: 100000 satoshis a side, funded locally, holding
  the points of commitments 1 and 2.\<close>

definition sample_channel :: "u8 channel" where
  "sample_channel =
     \<lparr>chan_funding_txid = replicate 32 7, chan_funding_vout = 0, chan_funding_amount = 200000,
      chan_funding_spk = replicate 34 1, local_payment_basepoint = 1, local_delayed_payment_basepoint = 2,
      local_revocation_basepoint = 3, local_htlc_basepoint = 4,
      local_revocation_basepoint_secret = replicate 32 3, local_htlc_basepoint_secret = replicate 32 4, remote_payment_basepoint = 5,
      remote_delayed_payment_basepoint = 6, remote_revocation_basepoint = 7, remote_htlc_basepoint = 8,
      commitment_number = 1, local_pcs = [], n_local_pcs = 0, remote_pcp0 = Some (1, 21), remote_pcp1 = Some (2, 22),
      received_revocations = [], local_amount = 100000, remote_amount = 100000, htlcs = [], htlcs_cap = 64,
      next_htlc_id = 0, ptlcs = [], to_self_delay = 144, fee_rate_sat_per_kvb = 1000, funder_is_local = True,
      use_revocation_leaf = False, last_htlc_check_height = 0, funding_pending_reorg = False\<rparr>"

definition sample_htlc :: "u64 \<Rightarrow> u32 \<Rightarrow> htlc" where
  "sample_htlc i expiry =
     \<lparr>direction = HTLC_OFFERED, hstate = HTLC_STATE_ACTIVE, htlc_amount = 1000, payment_hash = replicate 32 9,
      payment_preimage = replicate 32 0, cltv_expiry = expiry, htlc_id = i, fee_at_add = 43\<rparr>"

lemmas chan_inv_eval =
  chan_inv_def wealth_def balances_def all_active_def sample_channel_def sample_htlc_def htlc_value_def MAX_HTLCS_def
  CHANNEL_DUST_LIMIT_SATS_def

text \<open>C18: Conservation over any history.  Whatever calls are made, in whatever order, with whatever
  arguments and allocation failures, the sum of both balances, the HTLC amounts in flight
  and the fees set aside for them never changes; no balance wraps around; HTLC ids stay
  unique and every HTLC in the array is active; and the array never exceeds its limit.\<close>

theorem channel_history_conserves:
  assumes "chan_inv T (length calls) ch"
  shows "let ch' = fold (chan_step sha) calls ch in
     unat (local_amount ch') + unat (remote_amount ch') + (\<Sum>h\<leftarrow>htlcs ch'. unat (htlc_amount h) + unat (fee_at_add h)) = T
     \<and> distinct (map htlc_id (htlcs ch')) \<and> length (htlcs ch') \<le> 483
     \<and> (\<forall>h\<in>set (htlcs ch'). hstate h = HTLC_STATE_ACTIVE)"
proof -
  have "chan_inv T 0 (fold (chan_step sha) calls ch)"
    using chan_run.run_inv[of T calls 0 ch sha] assms by simp
  then show ?thesis
    by (simp add: Let_def chan_inv_def wealth_def balances_def htlc_value_def all_active_def list_all_iff MAX_HTLCS_def)
qed

theorem channel_history_conserves_witness:
  "chan_inv 200000 3 sample_channel \<and>
   (let ch' = fold (chan_step (\<lambda>_. replicate 32 9))
        [(\<lambda>_. True, \<lambda>_. None, Add HTLC_OFFERED 1000 (replicate 32 9) 500),
         (\<lambda>_. True, \<lambda>_. None, Update (- 500)), (\<lambda>_. True, \<lambda>_. None, Fulfill 0 (replicate 32 8))] sample_channel
    in unat (local_amount ch') + unat (remote_amount ch')
         + (\<Sum>h\<leftarrow>htlcs ch'. unat (htlc_amount h) + unat (fee_at_add h)) = 200000)"
proof -
  have i: "chan_inv 200000 (length
      [(\<lambda>_ :: nat. True, \<lambda>_ :: u64. None :: bytes option, Add HTLC_OFFERED 1000 (replicate 32 9) 500 :: u8 chan_op),
        (\<lambda>_. True, \<lambda>_. None, Update (- 500)), (\<lambda>_. True, \<lambda>_. None, Fulfill 0 (replicate 32 8))]) sample_channel"
    by (simp add: chan_inv_eval)
  have "chan_inv 200000 3 sample_channel" by (simp add: chan_inv_eval)
  with channel_history_conserves[OF i, of "\<lambda>_. replicate 32 9"] show ?thesis unfolding Let_def by blast
qed

section \<open>Settlement needs the preimage\<close>

text \<open>C20: Settlement.  A fulfil succeeds exactly when an HTLC in flight has this id and the preimage
  hashes to its payment hash; then that HTLC alone leaves the array, the recipient is
  credited its amount and the funder its set-aside fee, without wrap-around, and the
  commitment advances; otherwise the channel is unchanged.\<close>

theorem channel_fulfill_needs_preimage:
  fixes ch :: "'pk channel"
  assumes "chan_inv T n ch"
  shows "case channel_fulfill_htlc alloc rnd sha ch i preimage of (ok, ch') \<Rightarrow>
     if ok then
       (\<exists>k < length (htlcs ch). let h = htlcs ch ! k;
            to_local = unat (if direction h = HTLC_RECEIVED then htlc_amount h else 0);
            to_remote = unat (if direction h = HTLC_OFFERED then htlc_amount h else 0);
            fee_local = unat (if funder_is_local ch then fee_at_add h else 0);
            fee_remote = unat (if funder_is_local ch then 0 else fee_at_add h) in
          htlc_id h = i \<and> sha (take 32 preimage) = payment_hash h
          \<and> htlcs ch' = take k (htlcs ch) @ drop (Suc k) (htlcs ch)
          \<and> unat (local_amount ch') = unat (local_amount ch) + to_local + fee_local
          \<and> unat (remote_amount ch') = unat (remote_amount ch) + to_remote + fee_remote
          \<and> commitment_number ch' = commitment_number ch + 1)
     else ch' = ch \<and> (\<forall>h\<in>set (htlcs ch). htlc_id h = i \<longrightarrow> sha (take 32 preimage) \<noteq> payment_hash h)"
proof (cases "find_htlc i (htlcs ch)")
  case None
  then have "channel_fulfill_htlc alloc rnd sha ch i preimage = (False, ch)" by (simp add: channel_fulfill_htlc_def)
  with None assms show ?thesis by (auto simp: find_htlc_None chan_inv_def all_active_def list_all_iff)
next
  case (Some k)
  note k = find_htlc_Some[OF Some]
  let ?h = "htlcs ch ! k"
  show ?thesis
  proof (cases "sha (take 32 preimage) = payment_hash ?h")
    case True
    let ?b = "direction ?h \<noteq> HTLC_OFFERED"
    let ?ch = "settled alloc rnd ?b ch k (?h\<lparr>payment_preimage := take 32 preimage, hstate := HTLC_STATE_FULFILLED\<rparr>)"
    note facts = settled_facts[OF assms conjunct1[OF k], of "?h\<lparr>payment_preimage := take 32 preimage, hstate := HTLC_STATE_FULFILLED\<rparr>"
        alloc rnd ?b]
    have "balances ch + htlc_value ?h < 2 ^ 64"
      using value_bound[OF conjunct1[OF k]] assms by (simp add: chan_inv_def)
    then have b: "unat (local_amount ch) + unat (remote_amount ch) + (unat (htlc_amount ?h) + unat (fee_at_add ?h)) < 2 ^ 64"
      by (simp add: balances_def htlc_value_def)
    have amounts: "unat (local_amount ?ch) = unat (local_amount ch)
          + unat (if direction ?h = HTLC_RECEIVED then htlc_amount ?h else 0) + unat (if funder_is_local ch then fee_at_add ?h else 0)"
      "unat (remote_amount ?ch) = unat (remote_amount ch)
          + unat (if direction ?h = HTLC_OFFERED then htlc_amount ?h else 0) + unat (if funder_is_local ch then 0 else fee_at_add ?h)"
      using b by (cases "direction ?h"; cases "funder_is_local ch";
          simp add: settled_def credited_def funder_credit_def unat_plus_nowrap)+
    show ?thesis
      using k True facts(2) amounts
      by (simp add: fulfill_settled[of i ch k sha preimage, OF Some True] Let_def) (auto simp: settled_def intro!: exI[of _ k])
  next
    case False
    have "h = ?h" if "h \<in> set (htlcs ch)" "htlc_id h = i" for h
      using that k assms by (auto simp: chan_inv_def distinct_map inj_on_def)
    with False Some show ?thesis by (auto simp: channel_fulfill_htlc_def Let_def)
  qed
qed

theorem channel_fulfill_needs_preimage_witness:
  "case channel_fulfill_htlc (\<lambda>_. True) (\<lambda>_. None) (\<lambda>_. replicate 32 9)
        (sample_channel\<lparr>htlcs := [sample_htlc 0 500], next_htlc_id := 1\<rparr>) 0 [] of
     (ok, ch') \<Rightarrow> ok \<and> htlcs ch' = [] \<and> unat (remote_amount ch') = 101000"
proof -
  let ?ch = "sample_channel\<lparr>htlcs := [sample_htlc 0 500], next_htlc_id := 1\<rparr>"
  have i: "chan_inv 201043 0 ?ch" by (simp add: chan_inv_eval)
  have "fst (channel_fulfill_htlc (\<lambda>_. True) (\<lambda>_. None) (\<lambda>_. replicate 32 9) ?ch 0 [])"
    by (simp add: channel_fulfill_htlc_def sample_htlc_def Let_def)
  with channel_fulfill_needs_preimage[OF i, where alloc = "\<lambda>_. True" and rnd = "\<lambda>_. None" and
      sha = "\<lambda>_. replicate 32 9" and i = 0 and preimage = "[]"]
  show ?thesis by (auto simp: sample_channel_def sample_htlc_def Let_def split: prod.splits)
qed

section \<open>A failed payment leaves no trace in the balances\<close>

lemma find_htlc_new:
  assumes "chan_inv T n ch" and "htlc_id h = next_htlc_id ch" and "hstate h = HTLC_STATE_ACTIVE"
  shows "find_htlc (next_htlc_id ch) (htlcs ch @ [h]) = Some (length (htlcs ch))"
proof -
  have "\<forall>g\<in>set (htlcs ch). htlc_id g \<noteq> next_htlc_id ch"
    using assms(1) by (auto simp: chan_inv_def list_all_iff)
  then have "find_htlc i (xs @ [h]) = Some (length xs)" if "i = next_htlc_id ch" "set xs \<subseteq> set (htlcs ch)" for i xs
    using that assms(2,3) by (induction xs) auto
  then show ?thesis by blast
qed

text \<open>Round trip.  An HTLC that is added and later failed gives back exactly what it took: the
  array and both balances are as before, also when the fee rate changed in between,
  because the fee refunded is the one stored with the HTLC.\<close>

lemma channel_add_fail_restores:
  fixes ch :: "'pk channel"
  assumes "chan_inv T (Suc n) ch"
    and "channel_add_htlc alloc rnd ch dir amount hash expiry = (Some i, ch1)"
  shows "case channel_fail_htlc alloc' rnd' (channel_set_fee_rate ch1 rate) i of (ok, ch2) \<Rightarrow>
     ok \<and> htlcs ch2 = htlcs ch \<and> local_amount ch2 = local_amount ch \<and> remote_amount ch2 = remote_amount ch"
proof (cases rule: add_htlc_cases[of alloc rnd ch dir amount hash expiry])
  case (refused c)
  with assms(2) show ?thesis by simp
next
  case (added c)
  let ?h = "new_htlc ch dir amount hash expiry" and ?ch = "channel_set_fee_rate ch1 rate"
  have i: "i = next_htlc_id ch" and hs: "htlcs ?ch = htlcs ch @ [?h]"
    using assms(2) added(1) by (auto simp: channel_set_fee_rate_def)
  have f: "find_htlc i (htlcs ?ch) = Some (length (htlcs ch))"
    using find_htlc_new[OF assms(1), of ?h] by (simp add: i hs new_htlc_def)
  have act: "filter (\<lambda>h. hstate h = HTLC_STATE_ACTIVE) (htlcs ch) = htlcs ch"
    using assms(1) by (simp add: chan_inv_def all_active_def list_all_iff filter_id_conv)
  have ch1: "ch1 = next_commitment alloc rnd ((funder_credit (debited (ch\<lparr>htlcs_cap := c\<rparr>) dir amount) (- per_htlc_fee_of ch))
              \<lparr>htlcs := htlcs ch @ [?h], next_htlc_id := next_htlc_id ch + 1\<rparr>)"
    using assms(2) added(1) by auto
  show ?thesis
    unfolding fail_settled[OF f]
    by (cases dir; cases "funder_is_local ch")
       (simp_all add: settled_def credited_def hs act new_htlc_def list_update_append funder_credit_def,
        simp_all add: ch1 channel_set_fee_rate_def funder_credit_def debited_def)
qed

section \<open>Timeouts\<close>

definition expired :: "u32 \<Rightarrow> htlc \<Rightarrow> bool" where
  "expired height h \<longleftrightarrow> hstate h = HTLC_STATE_ACTIVE \<and> cltv_expiry h > 0 \<and> height \<ge> cltv_expiry h"

text \<open>What one pass of the loop leaves: after an entry is removed, its successor moves into its place
  and is passed over.\<close>

fun sweep :: "('a \<Rightarrow> bool) \<Rightarrow> 'a list \<Rightarrow> 'a list" where
  "sweep P [] = []"
| "sweep P [x] = (if P x then [] else [x])"
| "sweep P (x # y # ys) = (if P x then y # sweep P ys else x # sweep P (y # ys))"

lemma sweep_Cons: "sweep P (x # xs) = (if P x then take 1 xs @ sweep P (drop 1 xs) else x # sweep P xs)"
  by (cases xs) auto

lemma sweep_keeps: "filter (\<lambda>x. \<not> P x) (sweep P xs) = filter (\<lambda>x. \<not> P x) xs"
  by (induction P xs rule: sweep.induct) auto

lemma sweep_length: "length (sweep P xs) \<le> length xs"
  by (induction P xs rule: sweep.induct) auto

lemma sweep_subset: "x \<in> set (sweep P xs) \<Longrightarrow> x \<in> set xs"
  by (induction P xs rule: sweep.induct) (auto split: if_splits)

lemma sweep_progress: "filter P xs \<noteq> [] \<Longrightarrow> length (filter P (sweep P xs)) < length (filter P xs)"
proof (induction P xs rule: sweep.induct)
  case (3 P x y ys)
  have "length (filter P (sweep P ys)) \<le> length (filter P ys)" if "P x"
    using 3(1)[OF that] by (cases "filter P ys = []") (auto simp: filter_empty_conv dest: sweep_subset)
  with 3 show ?case by auto
qed auto

lemma sweep_all: "\<forall>x\<in>set xs. P x \<Longrightarrow> length (sweep P xs) = length xs div 2"
  by (induction P xs rule: sweep.induct) auto

lemma fail_nth:
  assumes "chan_inv T n ch" and "i < length (htlcs ch)"
  shows "htlcs (snd (channel_fail_htlc alloc rnd ch (htlc_id (htlcs ch ! i)))) = take i (htlcs ch) @ drop (Suc i) (htlcs ch)"
proof -
  have f: "find_htlc (htlc_id (htlcs ch ! i)) (htlcs ch) = Some i"
    using assms by (intro find_htlc_nth) (auto simp: chan_inv_def)
  show ?thesis by (simp add: fail_settled[OF f] settled_facts(2)[OF assms])
qed

lemma timeout_loop_sweep:
  "chan_inv T n ch \<Longrightarrow> length (htlcs ch) \<le> i + fuel \<Longrightarrow>
   (case timeout_loop fuel alloc rnd height i failed ch of (m, ch') \<Rightarrow>
      htlcs ch' = take i (htlcs ch) @ sweep (expired height) (drop i (htlcs ch))
      \<and> m + length (htlcs ch') = failed + length (htlcs ch))"
proof (induction fuel arbitrary: i failed ch)
  case (Suc fuel)
  show ?case
  proof (cases "i < length (htlcs ch)")
    case True
    let ?h = "htlcs ch ! i"
    have d: "drop i (htlcs ch) = ?h # drop (Suc i) (htlcs ch)" using True by (rule Cons_nth_drop_Suc[symmetric])
    have t: "take (Suc i) (htlcs ch) = take i (htlcs ch) @ [?h]" using True by (rule take_Suc_conv_app_nth)
    show ?thesis
    proof (cases "expired height ?h")
      case e: True
      let ?ch = "snd (channel_fail_htlc alloc rnd ch (htlc_id ?h))"
      note hs = fail_nth[OF Suc.prems(1) True, of alloc rnd]
      have l: "length (htlcs ?ch) + 1 = length (htlcs ch)" using True by (simp add: hs)
      have tk: "take (Suc i) (htlcs ?ch) = take i (htlcs ch) @ take 1 (drop (Suc i) (htlcs ch))"
        and dr: "drop (Suc i) (htlcs ?ch) = drop 1 (drop (Suc i) (htlcs ch))" using True by (simp_all add: hs)
      have step: "timeout_loop (Suc fuel) alloc rnd height i failed ch = timeout_loop fuel alloc rnd height (Suc i) (Suc failed) ?ch"
        using True e by (simp add: expired_def Let_def)
      have "length (htlcs ?ch) \<le> Suc i + fuel" using l Suc.prems(2) by linarith
      from Suc.IH[OF fail_inv[OF Suc.prems(1)] this, of "Suc failed"] show ?thesis
        unfolding step tk dr d sweep_Cons using e l by (simp only: if_True append_assoc split: prod.splits) auto
    next
      case e: False
      have step: "timeout_loop (Suc fuel) alloc rnd height i failed ch = timeout_loop fuel alloc rnd height (Suc i) failed ch"
        using True e by (auto simp: expired_def Let_def)
      have "length (htlcs ch) \<le> Suc i + fuel" using Suc.prems(2) by linarith
      from Suc.IH[OF Suc.prems(1) this, of failed] e show ?thesis
        unfolding step t d sweep_Cons by simp
    qed
  next
    case False
    then show ?thesis by simp
  qed
qed simp

lemma timeouts_sweep:
  assumes "chan_inv T n ch" and "last_htlc_check_height ch \<le> height"
  shows "case channel_check_htlc_timeouts alloc rnd ch height of (m, ch') \<Rightarrow>
      htlcs ch' = sweep (expired height) (htlcs ch) \<and> m + length (htlcs ch') = length (htlcs ch)"
proof -
  have "channel_check_htlc_timeouts alloc rnd ch height =
      timeout_loop (length (htlcs ch)) alloc rnd height 0 0 (ch\<lparr>last_htlc_check_height := height\<rparr>)"
    using assms(2) by (auto simp: channel_check_htlc_timeouts_def)
  with timeout_loop_sweep[where ch = "ch\<lparr>last_htlc_check_height := height\<rparr>" and i = 0 and failed = 0] assms(1)
  show ?thesis by simp
qed

lemma timeout_loop_height [simp]:
  "chan_inv T n ch \<Longrightarrow>
   last_htlc_check_height (snd (timeout_loop fuel alloc rnd height i failed ch)) = last_htlc_check_height ch"
proof (induction fuel arbitrary: i failed ch)
  case (Suc fuel)
  have "last_htlc_check_height (snd (channel_fail_htlc alloc rnd ch j)) = last_htlc_check_height ch" for j
    by (auto simp: channel_fail_htlc_def Let_def split: option.splits)
  with Suc fail_inv[OF Suc.prems] show ?case by (simp add: Let_def)
qed simp

lemma timeouts_height:
  assumes "chan_inv T n ch" and "last_htlc_check_height ch \<le> height"
  shows "last_htlc_check_height (snd (channel_check_htlc_timeouts alloc rnd ch height)) = height"
  using assms by (auto simp: channel_check_htlc_timeouts_def)


text \<open>C22: A pass over the timeouts misses HTLCs.  When all of them have expired, one call fails only
  every other one: \<^verbatim>\<open>channel_fail_htlc\<close> compacts the array inside the loop, the successor of a
  failed HTLC moves into its slot, and the loop index steps over it.\<close>

theorem channel_check_htlc_timeouts_skips:
  assumes "chan_inv T n ch" and "last_htlc_check_height ch \<le> height"
    and "\<forall>h\<in>set (htlcs ch). 0 < cltv_expiry h \<and> cltv_expiry h \<le> height"
  shows "case channel_check_htlc_timeouts alloc rnd ch height of (failed, ch') \<Rightarrow>
     length (htlcs ch') = length (htlcs ch) div 2 \<and> failed = (length (htlcs ch) + 1) div 2"
proof -
  have "\<forall>h\<in>set (htlcs ch). expired height h"
    using assms(1,3) by (auto simp: expired_def chan_inv_def all_active_def list_all_iff)
  from sweep_all[OF this] timeouts_sweep[OF assms(1,2), of alloc rnd] show ?thesis by (auto split: prod.splits)
qed

theorem channel_check_htlc_timeouts_skips_witness:
  "case channel_check_htlc_timeouts (\<lambda>_. True) (\<lambda>_. None)
       (sample_channel\<lparr>htlcs := [sample_htlc 0 500, sample_htlc 1 500], next_htlc_id := 2\<rparr>) 600 of
     (failed, ch') \<Rightarrow> length (htlcs ch') = 1 \<and> failed = 1"
proof -
  let ?ch = "sample_channel\<lparr>htlcs := [sample_htlc 0 500, sample_htlc 1 500], next_htlc_id := 2\<rparr>"
  have i: "chan_inv 202086 0 ?ch" by (simp add: chan_inv_eval)
  have "last_htlc_check_height ?ch \<le> 600" "\<forall>h\<in>set (htlcs ?ch). 0 < cltv_expiry h \<and> cltv_expiry h \<le> 600"
    by (simp_all add: sample_channel_def sample_htlc_def)
  from channel_check_htlc_timeouts_skips[OF i this, of "\<lambda>_. True" "\<lambda>_. None"] show ?thesis by simp
qed

lemma timeouts_funpow:
  fixes alloc rnd height
  defines "poll \<equiv> \<lambda>c :: 'pk channel. snd (channel_check_htlc_timeouts alloc rnd c height)"
  shows "chan_inv T n ch \<Longrightarrow> last_htlc_check_height ch \<le> height \<Longrightarrow>
    length (filter (expired height) (htlcs ch)) \<le> k \<Longrightarrow>
    htlcs ((poll ^^ k) ch) = filter (\<lambda>h. \<not> expired height h) (htlcs ch)"
proof (induction k arbitrary: ch)
  case (Suc k)
  have poll: "chan_inv T n (poll ch)" "last_htlc_check_height (poll ch) \<le> height"
    "htlcs (poll ch) = sweep (expired height) (htlcs ch)"
    using timeouts_inv[OF Suc.prems(1)] timeouts_height[OF Suc.prems(1,2)] timeouts_sweep[OF Suc.prems(1,2), of alloc rnd]
    by (auto simp: poll_def split: prod.splits)
  have "length (filter (expired height) (htlcs (poll ch))) \<le> k"
  proof (cases "filter (expired height) (htlcs ch) = []")
    case True
    then have "filter (expired height) (sweep (expired height) (htlcs ch)) = []"
      by (auto simp: filter_empty_conv dest: sweep_subset)
    then show ?thesis by (simp add: poll(3))
  next
    case False
    from sweep_progress[OF this] Suc.prems(3) show ?thesis by (simp add: poll(3))
  qed
  from Suc.IH[OF poll(1,2) this] show ?case
    by (simp add: funpow_Suc_right poll(3) sweep_keeps del: funpow.simps)
qed (simp add: filter_empty_conv filter_id_conv)

text \<open>C21: Expired HTLCs are eventually failed, and only they are.  Polling the timeouts as many times
  as there are expired HTLCs leaves exactly the unexpired ones, in order, however the
  allocator and the random source behave.\<close>

theorem channel_timeouts_eventually_fail:
  fixes ch :: "'pk channel"
  assumes "chan_inv T n ch" and "last_htlc_check_height ch \<le> height"
    and "length (filter (expired height) (htlcs ch)) \<le> k"
  shows "htlcs (((\<lambda>c. snd (channel_check_htlc_timeouts alloc rnd c height)) ^^ k) ch) =
     filter (\<lambda>h. \<not> expired height h) (htlcs ch)"
  by (rule timeouts_funpow[OF assms])

theorem channel_timeouts_eventually_fail_witness:
  "htlcs (((\<lambda>c. snd (channel_check_htlc_timeouts (\<lambda>_. True) (\<lambda>_. None) c 600)) ^^ 2)
     (sample_channel\<lparr>htlcs := [sample_htlc 0 500, sample_htlc 1 500, sample_htlc 2 700], next_htlc_id := 3\<rparr>))
   = [sample_htlc 2 700]"
proof -
  let ?ch = "sample_channel\<lparr>htlcs := [sample_htlc 0 500, sample_htlc 1 500, sample_htlc 2 700], next_htlc_id := 3\<rparr>"
  have i: "chan_inv 203129 0 ?ch" by (simp add: chan_inv_eval)
  have "last_htlc_check_height ?ch \<le> 600" "length (filter (expired 600) (htlcs ?ch)) \<le> 2"
    by (simp_all add: sample_channel_def sample_htlc_def expired_def)
  from channel_timeouts_eventually_fail[OF i this, of "\<lambda>_. True" "\<lambda>_. None"]
  show ?thesis by (simp add: sample_htlc_def expired_def)
qed

section \<open>The stores of points and revealed secrets\<close>

lemma receive_revocation_store:
  assumes "channel_receive_revocation_flat alloc ch n secret = (True, ch')" and "unat n + 1 < 2 ^ 64"
  shows "channel_get_received_revocation ch' n = Some (take 32 secret)"
    and "\<forall>m \<noteq> n. channel_get_received_revocation ch m \<noteq> None \<longrightarrow>
          channel_get_received_revocation ch' m = channel_get_received_revocation ch m"
    and "remote_pcp0 ch' = remote_pcp0 ch" "remote_pcp1 ch' = remote_pcp1 ch"
    and "commitment_number ch' = commitment_number ch"
proof -
  let ?cap = "length (received_revocations ch)"
  have n: "unat (n + 1) = unat n + 1" using assms(2) by (simp add: unat_plus_nowrap)
  obtain ch1 where e: "channel_ensure_revocations_cap alloc ch (unat n + 1) = Some ch1"
    and ch': "ch' = ch1\<lparr>received_revocations := (received_revocations ch1)[unat n := Some (take 32 secret)]\<rparr>"
    using assms(1) by (auto simp: channel_receive_revocation_flat_def n split: option.splits)
  obtain d where ch1: "ch1 = ch\<lparr>received_revocations := received_revocations ch @ replicate d None\<rparr>"
    and d: "unat n < ?cap + d"
  proof (cases "unat n + 1 \<le> ?cap")
    case True
    with e show ?thesis by (intro that[of 0]) (auto simp: channel_ensure_revocations_cap_def)
  next
    case False
    let ?g = "grow_cap (if ?cap \<noteq> 0 then ?cap * 2 else 512) (unat n + 1)"
    have "unat n + 1 \<le> ?g" using grow_cap_ge[of "if ?cap \<noteq> 0 then ?cap * 2 else 512" "unat n + 1"] by simp
    with False e show ?thesis
      by (intro that[of "?g - ?cap"]) (auto simp: channel_ensure_revocations_cap_def Let_def split: if_splits)
  qed
  show "channel_get_received_revocation ch' n = Some (take 32 secret)"
    using d by (simp add: channel_get_received_revocation_def ch' ch1)
  show "\<forall>m \<noteq> n. channel_get_received_revocation ch m \<noteq> None \<longrightarrow>
      channel_get_received_revocation ch' m = channel_get_received_revocation ch m"
    by (auto simp: channel_get_received_revocation_def ch' ch1 nth_append nth_list_update word_unat_eq_iff split: if_splits)
qed (use assms(1) in \<open>auto simp: channel_receive_revocation_flat_def channel_ensure_revocations_cap_def Let_def
       split: option.splits if_splits\<close>)


text \<open>The state of the ring at commitment \<open>n\<close>: the two slots hold the peer's points of \<open>n\<close> and \<open>n + 1\<close>.\<close>

definition pcp_ring :: "'pk channel \<Rightarrow> u64 \<Rightarrow> 'pk \<Rightarrow> 'pk \<Rightarrow> bool" where
  "pcp_ring ch n p q \<longleftrightarrow>
     (remote_pcp0 ch = Some (n, p) \<and> remote_pcp1 ch = Some (n + 1, q))
     \<or> (remote_pcp1 ch = Some (n, p) \<and> remote_pcp0 ch = Some (n + 1, q))"

lemma word_next_less: "unat (n :: u64) + 2 < 2 ^ 64 \<Longrightarrow> n < n + 1 \<and> n + 1 < n + 2 \<and> n < n + 2"
  by (simp add: word_less_nat_alt unat_plus_nowrap)

lemma pcp_ring_advance:
  assumes "pcp_ring ch n p q" and "unat n + 2 < 2 ^ 64"
  shows "pcp_ring (channel_set_remote_pcp ch (n + 2) r) (n + 1) q r"
  using assms(1) word_next_less[OF assms(2)]
  by (auto simp: pcp_ring_def channel_set_remote_pcp_def add.assoc split: option.splits)

lemma pcp_ring_get:
  assumes "pcp_ring ch n p q" and "unat n + 2 < 2 ^ 64"
  shows "channel_get_remote_pcp K ch n = Some p" "channel_get_remote_pcp K ch (n + 1) = Some q" "max_stored_pcp ch = n + 1"
  using assms(1) word_next_less[OF assms(2)] word_neq_0_conv[of n]
  by (auto simp: pcp_ring_def channel_get_remote_pcp_def pcp_slot_def max_stored_pcp_def Let_def
      word_less_nat_alt unat_plus_nowrap split: if_splits)

lemma set_remote_pcp_revocations [simp]:
  "channel_get_received_revocation (channel_set_remote_pcp ch n p) m = channel_get_received_revocation ch m"
  by (auto simp: channel_get_received_revocation_def channel_set_remote_pcp_def split: option.splits)

text \<open>C19: The penalty keeps its key material.  When the peer revokes commitment \<open>n\<close> with a secret that
  passes \<^verbatim>\<open>verify_revocation_secret\<close> and the ring then moves on to the point of \<open>n + 2\<close>, the
  points of \<open>n + 1\<close> and \<open>n + 2\<close> are in the ring, and the evicted point of the revoked
  commitment is still found, derived from the stored secret, with the same serialisation
  as the one the commitment was built with.\<close>

theorem revoked_point_recoverable:
  assumes "pcp_ring ch n p q" and "unat n + 3 < 2 ^ 64" and "length secret = 32"
    and "verify_revocation_secret K ch n secret"
    and "channel_receive_revocation alloc ch n secret = (True, ch1)"
    and "ch2 = channel_set_remote_pcp ch1 (n + 2) r"
  shows "channel_get_received_revocation ch2 n = Some secret
     \<and> (\<exists>p'. channel_get_remote_pcp K ch2 n = Some p' \<and> ec_pubkey_create K secret = Some p'
            \<and> ec_pubkey_serialize K p' = ec_pubkey_serialize K p)
     \<and> channel_get_remote_pcp K ch2 (n + 1) = Some q \<and> channel_get_remote_pcp K ch2 (n + 2) = Some r"
proof -
  have b: "unat n + 2 < 2 ^ 64" and n1: "unat (n + 1) = unat n + 1" using assms(2) by (simp_all add: unat_plus_nowrap)
  then have b1: "unat (n + 1) + 2 < 2 ^ 64" using assms(2) by simp
  have flat: "channel_receive_revocation_flat alloc ch n secret = (True, ch1)"
    using assms(5) by (simp add: channel_receive_revocation_def)
  note store = receive_revocation_store[OF flat]
  have "pcp_ring ch1 n p q" using assms(1) store(3,4) b by (simp add: pcp_ring_def)
  then have ring: "pcp_ring ch2 (n + 1) q r" using pcp_ring_advance[OF _ b, of ch1 p q r] assms(6) by simp
  note get = pcp_ring_get[OF ring b1]
  have rev: "channel_get_received_revocation ch2 n = Some secret" using store(1) assms(3,6) b by simp
  obtain p' where p': "ec_pubkey_create K secret = Some p'" "ec_pubkey_serialize K p' = ec_pubkey_serialize K p"
    using assms(4) pcp_ring_get(1)[OF assms(1) b] by (auto simp: verify_revocation_secret_def split: option.splits)
  have "channel_get_remote_pcp K ch2 n = Some p'"
    using ring rev p'(1) get(3) word_next_less[OF b]
    by (auto simp: channel_get_remote_pcp_def pcp_ring_def pcp_slot_def add.assoc)
  with rev p' get show ?thesis by (simp add: add.assoc)
qed

theorem revoked_point_recoverable_witness:
  "\<exists>ch1 p'. channel_receive_revocation (\<lambda>_. True) sample_channel 1 (replicate 32 21) = (True, ch1)
     \<and> channel_get_remote_pcp sample_ec (channel_set_remote_pcp ch1 3 23) 1 = Some p'
     \<and> ec_pubkey_serialize sample_ec p' = ec_pubkey_serialize sample_ec 21"
proof -
  have "fst (channel_receive_revocation (\<lambda>_. True) sample_channel 1 (replicate 32 21))"
    by (simp add: channel_receive_revocation_def channel_receive_revocation_flat_def channel_ensure_revocations_cap_def
        sample_channel_def)
  then obtain ch1 where r: "channel_receive_revocation (\<lambda>_. True) sample_channel 1 (replicate 32 21) = (True, ch1)"
    by (metis (full_types) prod.collapse)
  have ring: "pcp_ring sample_channel 1 21 22" by (simp add: pcp_ring_def sample_channel_def)
  have v: "verify_revocation_secret sample_ec sample_channel 1 (replicate 32 21)"
    by (simp add: verify_revocation_secret_def sample_ec_def channel_get_remote_pcp_def pcp_slot_def sample_channel_def)
  from revoked_point_recoverable[OF ring _ _ v r refl, of 23] r show ?thesis by auto
qed

text \<open>C23: The handler of the revoke-and-ack message stores the peer's secret unverified.  Any 32 bytes
  the peer sends are recorded as the revocation of the previous commitment, whether or not
  they are the secret of its point, and the handler returns success; what other callers
  check with \<^verbatim>\<open>verify_revocation_secret\<close> is not checked on this path.\<close>

theorem dispatch_stores_unverified_secret:
  assumes "length payload \<ge> 97" and "commitment_number ch > 0" and "\<And>size. alloc size"
    and "pk_parse (take 33 (drop 64 payload)) = Some point"
  shows "case dispatch_revoke_and_ack alloc pk_parse ch payload of (ok, ch') \<Rightarrow>
     ok \<and> channel_get_received_revocation ch' (commitment_number ch - 1) = Some (take 32 (drop 32 payload))"
proof -
  let ?n = "commitment_number ch - 1" and ?s = "take 32 (drop 32 payload)"
  have pos: "0 < unat (commitment_number ch)" using assms(2) by (simp add: word_less_nat_alt)
  have n: "unat ?n + 1 < 2 ^ 64" "unat (?n + 1) = unat ?n + 1"
    using unat_minus_nowrap[of 1 "commitment_number ch"] pos unsigned_less[of "commitment_number ch", where ?'a=nat]
    by (simp_all add: word_le_nat_alt)
  have "channel_ensure_revocations_cap alloc ch m \<noteq> None" for m
    using assms(3) by (simp add: channel_ensure_revocations_cap_def Let_def)
  then have "fst (channel_receive_revocation_flat alloc ch ?n ?s)"
    by (auto simp: channel_receive_revocation_flat_def split: option.split)
  then obtain ch1 where r: "channel_receive_revocation_flat alloc ch ?n ?s = (True, ch1)"
    by (cases "channel_receive_revocation_flat alloc ch ?n ?s") auto
  note st = receive_revocation_store[OF r n(1)]
  have "dispatch_revoke_and_ack alloc pk_parse ch payload =
      (True, channel_set_remote_pcp ch1 (commitment_number ch1 + 1) point)"
    using assms(1,2,4) r by (simp add: dispatch_revoke_and_ack_def Let_def)
  with st(1) show ?thesis by simp
qed

theorem dispatch_stores_unverified_secret_witness:
  "let payload = replicate 97 (5 :: u8) in
     (\<exists>ch'. dispatch_revoke_and_ack (\<lambda>_. True) (\<lambda>_. Some 23) (sample_channel\<lparr>commitment_number := 2\<rparr>) payload = (True, ch')
        \<and> channel_get_received_revocation ch' 1 = Some (replicate 32 5))
     \<and> \<not> verify_revocation_secret sample_ec (sample_channel\<lparr>commitment_number := 2\<rparr>) 1 (replicate 32 5)"
proof -
  have "\<not> verify_revocation_secret sample_ec (sample_channel\<lparr>commitment_number := 2\<rparr>) 1 (replicate 32 5)"
    by (simp add: verify_revocation_secret_def sample_ec_def channel_get_remote_pcp_def pcp_slot_def sample_channel_def)
  with dispatch_stores_unverified_secret[of "replicate 97 5" "sample_channel\<lparr>commitment_number := 2\<rparr>" "\<lambda>_. True" "\<lambda>_. Some 23" 23]
  show ?thesis by (auto simp: Let_def sample_channel_def split: prod.splits)
qed

end
