(* ===== verification/Commitment.thy ===== *)
theory Commitment
  imports Channel_Ops "HOL-Library.Monad_Syntax"
begin

text \<open>
  Commitment transactions, \<^verbatim>\<open>src/channel.c\<close> (\<^verbatim>\<open>channel_build_commitment_tx_impl\<close> and its two
  callers).  The steps that may fail are in the option monad, in the order of the code.
  The keys of HTLC outputs are derived without looking at the result; a failed derivation,
  which leaves the C variables uninitialised, is a failure of the model.  Temporary arrays
  are allocated.
\<close>

section \<open>Model\<close>

text \<open>The script of an output that only the given key can spend: the key tweaked by the empty tree.\<close>

definition keypath_only_spk :: "('pk, 'xo, 'ca) secp \<Rightarrow> 'pk \<Rightarrow> bytes option" where
  "keypath_only_spk E pk = do {
     (internal, _) \<leftarrow> xonly_from_pubkey E pk;
     tweaked_full \<leftarrow> xonly_tweak_add E internal (sha256_tagged (sha256 E) ''TapTweak'' (xonly_serialize E internal));
     (tweaked, _) \<leftarrow> xonly_from_pubkey E tweaked_full;
     Some (build_p2tr_script_pubkey E tweaked) }"

text \<open>The two leaves of an HTLC output in the view of the commitment's owner (\<open>local\<close>).\<close>

definition htlc_leaf_pair ::
  "('pk, 'xo, 'ca) secp \<Rightarrow> u32 \<Rightarrow> 'xo \<Rightarrow> 'xo \<Rightarrow> bool \<Rightarrow> bytes \<Rightarrow> u32 \<Rightarrow> tapscript_leaf \<times> tapscript_leaf" where
  "htlc_leaf_pair E delay local_xonly remote_xonly offered hash expiry =
     (if offered
      then (tapscript_build_htlc_offered_success E hash remote_xonly,
            tapscript_build_htlc_offered_timeout E expiry delay local_xonly)
      else (tapscript_build_htlc_received_success E hash delay local_xonly,
            tapscript_build_htlc_received_timeout E expiry remote_xonly))"

definition two_leaf_spk ::
  "('pk, 'xo, 'ca) secp \<Rightarrow> 'xo \<Rightarrow> tapscript_leaf \<times> tapscript_leaf \<Rightarrow> bytes option" where
  "two_leaf_spk E revocation_xonly leaves = do {
     merkle \<leftarrow> tapscript_merkle_root E [fst leaves, snd leaves];
     (tweaked, _) \<leftarrow> tapscript_tweak_pubkey E revocation_xonly merkle;
     Some (build_p2tr_script_pubkey E tweaked) }"

fun htlc_outputs ::
  "('pk, 'xo, 'ca) secp \<Rightarrow> u32 \<Rightarrow> 'xo \<Rightarrow> 'xo \<Rightarrow> 'xo \<Rightarrow> htlc list \<Rightarrow> tx_output list option" where
  "htlc_outputs E delay rvk lx rx [] = Some []"
| "htlc_outputs E delay rvk lx rx (h # hs) =
     (if hstate h \<noteq> HTLC_STATE_ACTIVE then htlc_outputs E delay rvk lx rx hs
      else if htlc_amount h < CHANNEL_DUST_LIMIT_SATS then htlc_outputs E delay rvk lx rx hs
      else do {
        spk \<leftarrow> two_leaf_spk E rvk
          (htlc_leaf_pair E delay lx rx (direction h = HTLC_OFFERED) (payment_hash h) (cltv_expiry h));
        rest \<leftarrow> htlc_outputs E delay rvk lx rx hs;
        Some (\<lparr>amount_sats = htlc_amount h, script_pubkey = spk\<rparr> # rest) })"

fun ptlc_outputs ::
  "('pk, 'xo, 'ca) secp \<Rightarrow> u32 \<Rightarrow> 'xo \<Rightarrow> 'xo \<Rightarrow> 'xo \<Rightarrow> 'pk ptlc list \<Rightarrow> tx_output list option" where
  "ptlc_outputs E delay rvk lx rx [] = Some []"
| "ptlc_outputs E delay rvk lx rx (p # ps) =
     (if pstate p \<noteq> PTLC_STATE_ACTIVE then ptlc_outputs E delay rvk lx rx ps
      else if ptlc_amount p < CHANNEL_DUST_LIMIT_SATS then ptlc_outputs E delay rvk lx rx ps
      else case xonly_from_pubkey E (payment_point p) of None \<Rightarrow> ptlc_outputs E delay rvk lx rx ps
      | Some (pp_xonly, _) \<Rightarrow> do {
        spk \<leftarrow> two_leaf_spk E rvk
          (htlc_leaf_pair E delay lx rx (ptlc_dir p = PTLC_OFFERED) (xonly_serialize E pp_xonly) (ptlc_expiry p));
        rest \<leftarrow> ptlc_outputs E delay rvk lx rx ps;
        Some (\<lparr>amount_sats = ptlc_amount p, script_pubkey = spk\<rparr> # rest) })"

definition htlc_keys ::
  "('pk, 'xo, 'ca) secp \<Rightarrow> 'pk ec_ops \<Rightarrow> 'pk channel \<Rightarrow> 'pk \<Rightarrow> ('xo \<times> 'xo) option" where
  "htlc_keys E K ch pcp = do {
     local_htlc_pub \<leftarrow> channel_derive_pubkey (sha256 E) K (local_htlc_basepoint ch) pcp;
     remote_htlc_pub \<leftarrow> channel_derive_pubkey (sha256 E) K (remote_htlc_basepoint ch) pcp;
     (local_htlc_xonly, _) \<leftarrow> xonly_from_pubkey E local_htlc_pub;
     (remote_htlc_xonly, _) \<leftarrow> xonly_from_pubkey E remote_htlc_pub;
     Some (local_htlc_xonly, remote_htlc_xonly) }"

definition n_active_htlcs :: "htlc list \<Rightarrow> nat" where
  "n_active_htlcs hs = length (filter (\<lambda>h. hstate h = HTLC_STATE_ACTIVE \<and> htlc_amount h \<ge> CHANNEL_DUST_LIMIT_SATS) hs)"

definition n_active_ptlcs :: "'pk ptlc list \<Rightarrow> nat" where
  "n_active_ptlcs ps = length (filter (\<lambda>p. pstate p = PTLC_STATE_ACTIVE \<and> ptlc_amount p \<ge> CHANNEL_DUST_LIMIT_SATS) ps)"

text \<open>The script tree of the to-local output, and the output list.\<close>

definition to_local_root ::
  "('pk, 'xo, 'ca) secp \<Rightarrow> u32 \<Rightarrow> bool \<Rightarrow> 'xo \<Rightarrow> 'xo \<Rightarrow> bytes option" where
  "to_local_root E delay revocation_leaf revocation_xonly delayed_xonly =
     (let csv_leaf = tapscript_build_csv_delay E delay delayed_xonly in
      if revocation_leaf
      then tapscript_merkle_root E [csv_leaf, tapscript_build_revocation_checksig E revocation_xonly]
      else tapscript_merkle_root E [csv_leaf])"

definition commitment_outputs ::
  "('pk, 'xo, 'ca) secp \<Rightarrow> 'pk ec_ops \<Rightarrow> 'pk channel \<Rightarrow> 'pk \<Rightarrow> tx_output list option" where
  "commitment_outputs E K ch pcp = do {
     revocation_pubkey \<leftarrow> channel_derive_revocation_pubkey (sha256 E) K (remote_revocation_basepoint ch) pcp;
     delayed_pubkey \<leftarrow> channel_derive_pubkey (sha256 E) K (local_delayed_payment_basepoint ch) pcp;
     remote_payment_pubkey \<leftarrow> channel_derive_pubkey (sha256 E) K (remote_payment_basepoint ch) pcp;
     (revocation_xonly, _) \<leftarrow> xonly_from_pubkey E revocation_pubkey;
     (delayed_xonly, _) \<leftarrow> xonly_from_pubkey E delayed_pubkey;
     merkle_root \<leftarrow> to_local_root E (to_self_delay ch) (use_revocation_leaf ch) revocation_xonly delayed_xonly;
     (to_local_tweaked, _) \<leftarrow> tapscript_tweak_pubkey E revocation_xonly merkle_root;
     to_remote_spk \<leftarrow> keypath_only_spk E remote_payment_pubkey;
     htlc_outs \<leftarrow> (if n_active_htlcs (htlcs ch) > 0
       then htlc_keys E K ch pcp \<bind> (\<lambda>(lx, rx). htlc_outputs E (to_self_delay ch) revocation_xonly lx rx (htlcs ch))
       else Some []);
     ptlc_outs \<leftarrow> (if n_active_ptlcs (ptlcs ch) > 0
       then htlc_keys E K ch pcp \<bind> (\<lambda>(lx, rx). ptlc_outputs E (to_self_delay ch) revocation_xonly lx rx (ptlcs ch))
       else Some []);
     Some (\<lparr>amount_sats = local_amount ch, script_pubkey = build_p2tr_script_pubkey E to_local_tweaked\<rparr>
           # \<lparr>amount_sats = remote_amount ch, script_pubkey = to_remote_spk\<rparr> # htlc_outs @ ptlc_outs) }"

definition channel_build_commitment_tx_impl ::
  "(nat \<Rightarrow> bool) \<Rightarrow> ('pk, 'xo, 'ca) secp \<Rightarrow> 'pk ec_ops \<Rightarrow> 'pk channel \<Rightarrow> tx_buf \<Rightarrow> bool \<Rightarrow> 'pk option
   \<Rightarrow> bool \<times> tx_buf \<times> bytes option" where
  "channel_build_commitment_tx_impl alloc E K ch unsigned_tx want_txid pcp_override =
     (case (case pcp_override of Some p \<Rightarrow> Some p
            | None \<Rightarrow> channel_get_per_commitment_point K ch (commitment_number ch)) \<bind> commitment_outputs E K ch of
        None \<Rightarrow> (False, unsigned_tx, None)
      | Some outputs \<Rightarrow>
          (case build_unsigned_tx_v alloc (sha256 E) unsigned_tx want_txid (chan_funding_txid ch) (chan_funding_vout ch)
                  0xFFFFFFFE outputs 3 of
             (ok, b, txid) \<Rightarrow> (ok, b, map_option reverse_bytes txid)))"

definition channel_build_commitment_tx ::
  "(nat \<Rightarrow> bool) \<Rightarrow> ('pk, 'xo, 'ca) secp \<Rightarrow> 'pk ec_ops \<Rightarrow> 'pk channel \<Rightarrow> tx_buf \<Rightarrow> bool
   \<Rightarrow> bool \<times> tx_buf \<times> bytes option" where
  "channel_build_commitment_tx alloc E K ch unsigned_tx want_txid =
     (if funding_pending_reorg ch then (False, unsigned_tx, None)
      else channel_build_commitment_tx_impl alloc E K ch unsigned_tx want_txid None)"

fun flip_direction :: "htlc_direction \<Rightarrow> htlc_direction" where
  "flip_direction HTLC_OFFERED = HTLC_RECEIVED"
| "flip_direction HTLC_RECEIVED = HTLC_OFFERED"

fun flip_ptlc_direction :: "ptlc_direction \<Rightarrow> ptlc_direction" where
  "flip_ptlc_direction PTLC_OFFERED = PTLC_RECEIVED"
| "flip_ptlc_direction PTLC_RECEIVED = PTLC_OFFERED"

definition flip_htlc :: "htlc \<Rightarrow> htlc" where
  "flip_htlc h = h\<lparr>direction := flip_direction (direction h)\<rparr>"

definition flip_ptlc :: "'pk ptlc \<Rightarrow> 'pk ptlc" where
  "flip_ptlc p = p\<lparr>ptlc_dir := flip_ptlc_direction (ptlc_dir p)\<rparr>"

text \<open>The copy of the channel with the two sides swapped.\<close>

definition remote_view :: "'pk channel \<Rightarrow> 'pk channel" where
  "remote_view ch =
     ch\<lparr>local_amount := remote_amount ch, remote_amount := local_amount ch,
        local_delayed_payment_basepoint := remote_delayed_payment_basepoint ch,
        remote_revocation_basepoint := local_revocation_basepoint ch,
        remote_payment_basepoint := local_payment_basepoint ch,
        local_htlc_basepoint := remote_htlc_basepoint ch,
        remote_htlc_basepoint := local_htlc_basepoint ch,
        htlcs := map flip_htlc (htlcs ch), ptlcs := map flip_ptlc (ptlcs ch)\<rparr>"

definition channel_build_commitment_tx_for_remote ::
  "(nat \<Rightarrow> bool) \<Rightarrow> ('pk, 'xo, 'ca) secp \<Rightarrow> 'pk ec_ops \<Rightarrow> 'pk channel \<Rightarrow> tx_buf \<Rightarrow> bool
   \<Rightarrow> bool \<times> tx_buf \<times> bytes option" where
  "channel_build_commitment_tx_for_remote alloc E K ch unsigned_tx want_txid =
     (case channel_get_remote_pcp K ch (commitment_number ch) of None \<Rightarrow> (False, unsigned_tx, None)
      | Some remote_pcp \<Rightarrow>
          channel_build_commitment_tx_impl alloc E K (remote_view ch) unsigned_tx want_txid (Some remote_pcp))"

section \<open>What a commitment pays\<close>

lemma htlc_outputs_amounts:
  "htlc_outputs E delay rvk lx rx hs = Some outs \<Longrightarrow>
   map amount_sats outs =
     map htlc_amount (filter (\<lambda>h. hstate h = HTLC_STATE_ACTIVE \<and> htlc_amount h \<ge> CHANNEL_DUST_LIMIT_SATS) hs)"
  by (induction hs arbitrary: outs) (auto simp: bind_eq_Some_conv not_le split: if_splits)

text \<open>The PTLCs a commitment pays: active, above dust, and with a point the library can read.\<close>

definition paid_ptlcs :: "('pk, 'xo, 'ca) secp \<Rightarrow> 'pk ptlc list \<Rightarrow> 'pk ptlc list" where
  "paid_ptlcs E ps = filter (\<lambda>p. pstate p = PTLC_STATE_ACTIVE \<and> ptlc_amount p \<ge> CHANNEL_DUST_LIMIT_SATS
     \<and> xonly_from_pubkey E (payment_point p) \<noteq> None) ps"

lemma ptlc_outputs_amounts:
  "ptlc_outputs E delay rvk lx rx ps = Some outs \<Longrightarrow> map amount_sats outs = map ptlc_amount (paid_ptlcs E ps)"
  by (induction ps arbitrary: outs)
    (auto simp: paid_ptlcs_def bind_eq_Some_conv not_le split: if_splits option.splits prod.splits)

lemma active_htlc_amounts:
  "(if n_active_htlcs hs > 0 then keys \<bind> (\<lambda>(lx, rx). htlc_outputs E delay rvk lx rx hs) else Some []) = Some outs \<Longrightarrow>
   map amount_sats outs =
     map htlc_amount (filter (\<lambda>h. hstate h = HTLC_STATE_ACTIVE \<and> htlc_amount h \<ge> CHANNEL_DUST_LIMIT_SATS) hs)"
  by (auto simp: n_active_htlcs_def bind_eq_Some_conv dest: htlc_outputs_amounts split: if_splits)

lemma active_ptlc_amounts:
  "(if n_active_ptlcs ps > 0 then keys \<bind> (\<lambda>(lx, rx). ptlc_outputs E delay rvk lx rx ps) else Some []) = Some outs \<Longrightarrow>
   map amount_sats outs = map ptlc_amount (paid_ptlcs E ps)"
  by (auto simp: n_active_ptlcs_def paid_ptlcs_def filter_empty_conv bind_eq_Some_conv dest: ptlc_outputs_amounts[unfolded paid_ptlcs_def]
      split: if_splits)

lemma commitment_outputs_Some:
  assumes "commitment_outputs E K ch pcp = Some outs"
  shows "map amount_sats outs = local_amount ch # remote_amount ch #
    map htlc_amount (filter (\<lambda>h. hstate h = HTLC_STATE_ACTIVE \<and> htlc_amount h \<ge> CHANNEL_DUST_LIMIT_SATS) (htlcs ch))
    @ map ptlc_amount (paid_ptlcs E (ptlcs ch))"
proof -
  define H where "H rvk = (if n_active_htlcs (htlcs ch) > 0
    then htlc_keys E K ch pcp \<bind> (\<lambda>(lx, rx). htlc_outputs E (to_self_delay ch) rvk lx rx (htlcs ch)) else Some [])" for rvk
  define Q where "Q rvk = (if n_active_ptlcs (ptlcs ch) > 0
    then htlc_keys E K ch pcp \<bind> (\<lambda>(lx, rx). ptlc_outputs E (to_self_delay ch) rvk lx rx (ptlcs ch)) else Some [])" for rvk
  from assms obtain rvk ho po spk spk' where h: "H rvk = Some ho" and p: "Q rvk = Some po"
    and o: "outs = \<lparr>amount_sats = local_amount ch, script_pubkey = spk\<rparr> # \<lparr>amount_sats = remote_amount ch, script_pubkey = spk'\<rparr> # ho @ po"
    unfolding commitment_outputs_def H_def[symmetric] Q_def[symmetric] by (auto simp: bind_eq_Some_conv)
  show ?thesis unfolding o using active_htlc_amounts[OF h[unfolded H_def]] active_ptlc_amounts[OF p[unfolded Q_def]] by simp
qed

section \<open>The two views of a commitment\<close>

lemma flip_direction_flip [simp]: "flip_direction (flip_direction d) = d"
  by (cases d) auto

lemma flip_htlc_fields [simp]:
  "hstate (flip_htlc h) = hstate h" "htlc_amount (flip_htlc h) = htlc_amount h" "payment_hash (flip_htlc h) = payment_hash h"
  "cltv_expiry (flip_htlc h) = cltv_expiry h" "htlc_id (flip_htlc h) = htlc_id h" "fee_at_add (flip_htlc h) = fee_at_add h"
  "direction (flip_htlc h) = flip_direction (direction h)"
  by (simp_all add: flip_htlc_def)

lemma flip_eq_iff [simp]:
  "flip_direction d = HTLC_OFFERED \<longleftrightarrow> d \<noteq> HTLC_OFFERED" "flip_direction d = HTLC_RECEIVED \<longleftrightarrow> d = HTLC_OFFERED"
  by (cases d; simp)+

text \<open>The peer's channel record of the same channel.\<close>

definition mirrored :: "'pk channel \<Rightarrow> 'pk channel \<Rightarrow> bool" where
  "mirrored A B \<longleftrightarrow>
     local_amount B = remote_amount A \<and> remote_amount B = local_amount A
     \<and> local_payment_basepoint B = remote_payment_basepoint A \<and> remote_payment_basepoint B = local_payment_basepoint A
     \<and> local_delayed_payment_basepoint B = remote_delayed_payment_basepoint A
     \<and> remote_delayed_payment_basepoint B = local_delayed_payment_basepoint A
     \<and> local_revocation_basepoint B = remote_revocation_basepoint A
     \<and> remote_revocation_basepoint B = local_revocation_basepoint A
     \<and> local_htlc_basepoint B = remote_htlc_basepoint A \<and> remote_htlc_basepoint B = local_htlc_basepoint A
     \<and> chan_funding_txid B = chan_funding_txid A \<and> chan_funding_vout B = chan_funding_vout A
     \<and> commitment_number B = commitment_number A
     \<and> htlcs B = map flip_htlc (htlcs A) \<and> next_htlc_id B = next_htlc_id A \<and> ptlcs B = map flip_ptlc (ptlcs A)
     \<and> to_self_delay B = to_self_delay A \<and> use_revocation_leaf B = use_revocation_leaf A
     \<and> fee_rate_sat_per_kvb B = fee_rate_sat_per_kvb A \<and> funder_is_local B = (\<not> funder_is_local A)
     \<and> last_htlc_check_height B = last_htlc_check_height A \<and> funding_pending_reorg B = funding_pending_reorg A"

lemma commitment_outputs_cong:
  "remote_revocation_basepoint A = remote_revocation_basepoint B \<Longrightarrow>
   local_delayed_payment_basepoint A = local_delayed_payment_basepoint B \<Longrightarrow>
   remote_payment_basepoint A = remote_payment_basepoint B \<Longrightarrow> local_htlc_basepoint A = local_htlc_basepoint B \<Longrightarrow>
   remote_htlc_basepoint A = remote_htlc_basepoint B \<Longrightarrow> to_self_delay A = to_self_delay B \<Longrightarrow>
   use_revocation_leaf A = use_revocation_leaf B \<Longrightarrow> htlcs A = htlcs B \<Longrightarrow> ptlcs A = ptlcs B \<Longrightarrow>
   local_amount A = local_amount B \<Longrightarrow> remote_amount A = remote_amount B \<Longrightarrow>
   commitment_outputs E K A pcp = commitment_outputs E K B pcp"
  unfolding commitment_outputs_def htlc_keys_def by (simp only:)

lemma mirrored_commitment:
  assumes "mirrored A B" and "channel_get_remote_pcp K A (commitment_number A) = Some p"
    and "channel_get_per_commitment_point K B (commitment_number B) = Some p" and "\<not> funding_pending_reorg B"
  shows "channel_build_commitment_tx_for_remote alloc E K A out w = channel_build_commitment_tx alloc E K B out w"
proof -
  have "commitment_outputs E K (remote_view A) p = commitment_outputs E K B p"
    by (rule commitment_outputs_cong) (use assms(1) in \<open>simp_all add: mirrored_def remote_view_def\<close>)
  moreover have "chan_funding_txid (remote_view A) = chan_funding_txid B" "chan_funding_vout (remote_view A) = chan_funding_vout B"
    using assms(1) by (simp_all add: mirrored_def remote_view_def)
  ultimately show ?thesis using assms(2-4)
    by (cases "commitment_outputs E K B p") (simp_all add: channel_build_commitment_tx_for_remote_def channel_build_commitment_tx_def
        channel_build_commitment_tx_impl_def)
qed

section \<open>Mirrored histories\<close>

text \<open>The calls the two parties make for one event: the same HTLC in the opposite direction, the
  opposite balance shift, and for the stores of secrets and points each its own.  The
  smallest 64-bit integer, which is its own negation, is not a shift.\<close>

fun mirror_op :: "'pk chan_op \<Rightarrow> 'pk chan_op \<Rightarrow> bool" where
  "mirror_op (Add d a h e) op = (op = Add (flip_direction d) a h e)"
| "mirror_op (Fulfill i pre) op = (op = Fulfill i pre)"
| "mirror_op (Fail i) op = (op = Fail i)"
| "mirror_op (Timeouts h) op = (op = Timeouts h)"
| "mirror_op (Update d) op = (op = Update (- d) \<and> d \<noteq> 0x8000000000000000)"
| "mirror_op (Fee_rate r) op = (op = Fee_rate r)"
| "mirror_op (Funding t v a s) op = (op = Funding t v a s)"
| "mirror_op (Revocation _ _) op = (case op of Revocation _ _ \<Rightarrow> True | _ \<Rightarrow> False)"
| "mirror_op (Remote_point _ _) op = (case op of Remote_point _ _ \<Rightarrow> True | _ \<Rightarrow> False)"
| "mirror_op (Local_secret _ _) op = (case op of Local_secret _ _ \<Rightarrow> True | _ \<Rightarrow> False)"

definition mirror_call :: "'pk chan_call \<Rightarrow> 'pk chan_call \<Rightarrow> bool" where
  "mirror_call = (\<lambda>(alloc, rnd, op) (alloc', rnd', op'). (\<forall>n. alloc n) \<and> (\<forall>n. alloc' n) \<and> mirror_op op op')"

lemma mirrored_next:
  "mirrored A B \<Longrightarrow> mirrored (next_commitment alloc rnd A) (next_commitment alloc' rnd' B)"
  unfolding mirrored_def by simp

lemma find_htlc_flip [simp]: "find_htlc i (map flip_htlc hs) = find_htlc i hs"
  by (induction hs) auto

lemma mirrored_compact: "mirrored A B \<Longrightarrow> mirrored (channel_compact_htlcs A) (channel_compact_htlcs B)"
  by (simp add: mirrored_def filter_map comp_def)

lemma mirrored_credited:
  assumes "mirrored A B"
  shows "mirrored (credited b A h) (credited (\<not> b) B (flip_htlc h))"
  using assms by (auto simp: mirrored_def credited_def funder_credit_def)

lemma flip_htlc_updates [simp]:
  "(flip_htlc h)\<lparr>hstate := s\<rparr> = flip_htlc (h\<lparr>hstate := s\<rparr>)"
  "(flip_htlc h)\<lparr>payment_preimage := p, hstate := s\<rparr> = flip_htlc (h\<lparr>payment_preimage := p, hstate := s\<rparr>)"
  by (simp_all add: flip_htlc_def)

lemma mirrored_settled:
  assumes "mirrored A B" and "k < length (htlcs A)"
  shows "mirrored (settled alloc rnd b A k h') (settled alloc' rnd' (\<not> b) B k (flip_htlc h'))"
proof -
  have B: "htlcs B = map flip_htlc (htlcs A)" using assms(1) by (simp add: mirrored_def)
  have "mirrored (credited b A (htlcs A ! k)) (credited (\<not> b) B (htlcs B ! k))"
    using mirrored_credited[OF assms(1)] assms(2) by (simp add: B)
  then have "mirrored ((credited b A (htlcs A ! k))\<lparr>htlcs := (htlcs A)[k := h']\<rparr>)
      ((credited (\<not> b) B (htlcs B ! k))\<lparr>htlcs := (htlcs B)[k := flip_htlc h']\<rparr>)"
    by (simp add: mirrored_def B map_update)
  then show ?thesis unfolding settled_def by (intro mirrored_compact mirrored_next)
qed

lemma mirrored_fail:
  assumes "mirrored A B"
  shows "mirrored (snd (channel_fail_htlc alloc rnd A i)) (snd (channel_fail_htlc alloc' rnd' B i))"
proof (cases "find_htlc i (htlcs A)")
  case None
  moreover have "find_htlc i (htlcs B) = None" using None assms by (simp add: mirrored_def)
  ultimately show ?thesis using assms by (simp add: channel_fail_htlc_def)
next
  case (Some k)
  have k: "k < length (htlcs A)" using find_htlc_Some[OF Some] by simp
  have B: "find_htlc i (htlcs B) = Some k" and h: "htlcs B ! k = flip_htlc (htlcs A ! k)"
    using Some assms k by (simp_all add: mirrored_def)
  show ?thesis
    using mirrored_settled[OF assms k, of alloc rnd "direction (htlcs A ! k) = HTLC_OFFERED"
        "(htlcs A ! k)\<lparr>hstate := HTLC_STATE_FAILED\<rparr>" alloc' rnd']
    by (simp add: fail_settled[OF Some] fail_settled[OF B] h)
qed

lemma mirrored_fulfill:
  assumes "mirrored A B"
  shows "mirrored (snd (channel_fulfill_htlc alloc rnd sha A i pre)) (snd (channel_fulfill_htlc alloc' rnd' sha B i pre))"
proof (cases "find_htlc i (htlcs A)")
  case None
  moreover have "find_htlc i (htlcs B) = None" using None assms by (simp add: mirrored_def)
  ultimately show ?thesis using assms by (simp add: channel_fulfill_htlc_def)
next
  case (Some k)
  have k: "k < length (htlcs A)" using find_htlc_Some[OF Some] by simp
  have B: "find_htlc i (htlcs B) = Some k" and h: "htlcs B ! k = flip_htlc (htlcs A ! k)"
    using Some assms k by (simp_all add: mirrored_def)
  show ?thesis
  proof (cases "sha (take 32 pre) = payment_hash (htlcs A ! k)")
    case True
    then have B': "sha (take 32 pre) = payment_hash (htlcs B ! k)" by (simp add: h)
    show ?thesis
      using mirrored_settled[OF assms k, of alloc rnd "direction (htlcs A ! k) \<noteq> HTLC_OFFERED"
          "(htlcs A ! k)\<lparr>payment_preimage := take 32 pre, hstate := HTLC_STATE_FULFILLED\<rparr>" alloc' rnd']
      by (simp add: fulfill_settled[of i A k sha pre, OF Some True] fulfill_settled[of i B k sha pre, OF B B'] h)
  next
    case False
    with Some B assms h show ?thesis by (simp add: channel_fulfill_htlc_def Let_def)
  qed
qed

lemma mirrored_timeout_loop:
  "mirrored A B \<Longrightarrow> mirrored (snd (timeout_loop fuel alloc rnd height i f A)) (snd (timeout_loop fuel alloc' rnd' height i f' B))"
proof (induction fuel arbitrary: i f f' A B)
  case (Suc fuel)
  have hs: "htlcs B = map flip_htlc (htlcs A)" using Suc.prems by (simp add: mirrored_def)
  with Suc mirrored_fail[OF Suc.prems] show ?case by (auto simp: Let_def)
qed simp

lemma mirrored_timeouts:
  assumes "mirrored A B"
  shows "mirrored (snd (channel_check_htlc_timeouts alloc rnd A h)) (snd (channel_check_htlc_timeouts alloc' rnd' B h))"
proof -
  have "mirrored (A\<lparr>last_htlc_check_height := h\<rparr>) (B\<lparr>last_htlc_check_height := h\<rparr>)"
    and l: "length (htlcs B) = length (htlcs A)" "last_htlc_check_height B = last_htlc_check_height A"
    using assms by (simp_all add: mirrored_def)
  then show ?thesis using assms by (simp add: channel_check_htlc_timeouts_def mirrored_timeout_loop)
qed


lemma grow_htlcs_alloc:
  "(\<forall>n. alloc n) \<Longrightarrow> \<exists>c. grow_htlcs alloc ch = Some (ch\<lparr>htlcs_cap := c\<rparr>)"
  by (auto simp: grow_htlcs_def Let_def intro: exI[of _ "htlcs_cap ch"])

lemma mirrored_debited: "mirrored A B \<Longrightarrow> mirrored (debited A d a) (debited B (flip_direction d) a)"
  by (cases d) (simp_all add: mirrored_def debited_def)

lemma mirrored_funder_credit: "mirrored A B \<Longrightarrow> mirrored (funder_credit A x) (funder_credit B x)"
  by (simp add: mirrored_def funder_credit_def)

lemma mirrored_cap: "mirrored A B \<Longrightarrow> mirrored (A\<lparr>htlcs_cap := c\<rparr>) (B\<lparr>htlcs_cap := c'\<rparr>)"
  by (simp add: mirrored_def)

lemma mirrored_push:
  "mirrored A B \<Longrightarrow> mirrored (A\<lparr>htlcs := hs @ [h], next_htlc_id := i\<rparr>)
     (B\<lparr>htlcs := map flip_htlc hs @ [flip_htlc h], next_htlc_id := i\<rparr>)"
  by (simp add: mirrored_def)

lemma mirrored_guard:
  assumes "mirrored A B"
  shows "add_htlc_guard B (flip_direction d) a = add_htlc_guard A d a"
  using assms by (cases d) (auto simp: mirrored_def add_htlc_guard_def debited_def per_htlc_fee_of_def Let_def)

lemma mirrored_add:
  assumes "mirrored A B" and "\<forall>n. alloc n" and "\<forall>n. alloc' n"
  shows "mirrored (snd (channel_add_htlc alloc rnd A d a h e)) (snd (channel_add_htlc alloc' rnd' B (flip_direction d) a h e))"
proof -
  obtain c c' where g: "grow_htlcs alloc A = Some (A\<lparr>htlcs_cap := c\<rparr>)" "grow_htlcs alloc' B = Some (B\<lparr>htlcs_cap := c'\<rparr>)"
    using grow_htlcs_alloc[OF assms(2), of A] grow_htlcs_alloc[OF assms(3), of B] by auto
  have same: "funding_pending_reorg B = funding_pending_reorg A" "length (htlcs B) = length (htlcs A)"
    "htlcs B = map flip_htlc (htlcs A)" "next_htlc_id B = next_htlc_id A" "per_htlc_fee_of B = per_htlc_fee_of A"
    using assms(1) by (simp_all add: mirrored_def per_htlc_fee_of_def)
  show ?thesis
  proof (cases "funding_pending_reorg A \<or> \<not> length (htlcs A) < MAX_HTLCS")
    case True
    then show ?thesis using assms(1) same by (auto simp: channel_add_htlc_def)
  next
    case False
    have h: "new_htlc B (flip_direction d) a h e = flip_htlc (new_htlc A d a h e)"
      by (simp add: new_htlc_def flip_htlc_def same)
    let ?A = "funder_credit (debited (A\<lparr>htlcs_cap := c\<rparr>) d a) (- per_htlc_fee_of A)"
    let ?B = "funder_credit (debited (B\<lparr>htlcs_cap := c'\<rparr>) (flip_direction d) a) (- per_htlc_fee_of B)"
    have "mirrored ?A ?B"
      unfolding same by (intro mirrored_funder_credit mirrored_debited mirrored_cap assms(1))
    then have "mirrored (?A\<lparr>htlcs := htlcs A @ [new_htlc A d a h e], next_htlc_id := next_htlc_id A + 1\<rparr>)
        (?B\<lparr>htlcs := htlcs B @ [new_htlc B (flip_direction d) a h e], next_htlc_id := next_htlc_id B + 1\<rparr>)"
      unfolding h same(3,4) by (rule mirrored_push)
    from mirrored_next[OF this, of alloc rnd alloc' rnd'] False mirrored_cap[OF assms(1), of c c'] show ?thesis
      by (simp add: add_htlc_grown[OF _ _ g(1)] add_htlc_grown[OF _ _ g(2)] same(1,2) mirrored_guard[OF assms(1)])
  qed
qed

lemma sless_uminus:
  assumes "d \<noteq> (0x8000000000000000 :: u64)"
  shows "0 <s - d \<longleftrightarrow> d <s 0" "- d <s 0 \<longleftrightarrow> 0 <s d"
proof -
  have "sint d \<noteq> - (2 ^ 63)"
  proof
    assume "sint d = - (2 ^ 63)"
    then have "(word_of_int (sint d) :: u64) = word_of_int (- (2 ^ 63))" by simp
    with assms show False by simp
  qed
  moreover have "- (2 ^ 63) \<le> sint d" "sint d < 2 ^ 63" using sint_ge[of d] sint_lt[of d] by simp_all
  moreover have "sint (- d) = signed_take_bit 63 (- sint d)" by (simp add: sint_word_ariths)
  ultimately have "sint (- d) = - sint d" by (simp add: signed_take_bit_int_eq_self)
  then show "0 <s - d \<longleftrightarrow> d <s 0" "- d <s 0 \<longleftrightarrow> 0 <s d" by (simp_all add: word_sless_alt)
qed

lemma mirrored_update:
  assumes "mirrored A B" and "d \<noteq> 0x8000000000000000"
  shows "mirrored (snd (channel_update alloc rnd A d)) (snd (channel_update alloc' rnd' B (- d)))"
proof -
  have ok: "(0 <s - d \<and> - d > local_amount B) = (d <s 0 \<and> - d > remote_amount A)"
    "(- d <s 0 \<and> - (- d) > remote_amount B) = (0 <s d \<and> d > local_amount A)"
    using assms(1) sless_uminus[OF assms(2)] by (simp_all add: mirrored_def)
  have "mirrored (A\<lparr>local_amount := local_amount A - d, remote_amount := remote_amount A + d\<rparr>)
      (B\<lparr>local_amount := local_amount B - (- d), remote_amount := remote_amount B + (- d)\<rparr>)"
    using assms(1) by (simp add: mirrored_def)
  from mirrored_next[OF this] show ?thesis using assms(1) unfolding channel_update_def ok by simp
qed

text \<open>The fields the relation looks at, which the stores of secrets and points do not touch.\<close>

definition mirror_view where
  "mirror_view ch =
     ((local_amount ch, remote_amount ch, local_payment_basepoint ch, remote_payment_basepoint ch,
       local_delayed_payment_basepoint ch, remote_delayed_payment_basepoint ch, local_revocation_basepoint ch,
       remote_revocation_basepoint ch, local_htlc_basepoint ch, remote_htlc_basepoint ch),
      (chan_funding_txid ch, chan_funding_vout ch, commitment_number ch, htlcs ch, next_htlc_id ch, ptlcs ch, to_self_delay ch,
       use_revocation_leaf ch, fee_rate_sat_per_kvb ch, funder_is_local ch, last_htlc_check_height ch, funding_pending_reorg ch))"

lemma mirrored_view: "mirror_view A' = mirror_view A \<Longrightarrow> mirror_view B' = mirror_view B \<Longrightarrow> mirrored A B \<Longrightarrow> mirrored A' B'"
  unfolding mirror_view_def mirrored_def prod.inject
  by (elim conjE, intro conjI) (simp_all (no_asm_simp))

lemma ensure_view:
  "channel_ensure_revocations_cap alloc ch n = Some ch' \<Longrightarrow> mirror_view ch' = mirror_view ch"
  "channel_ensure_pcs_cap alloc ch n = Some ch' \<Longrightarrow> mirror_view ch' = mirror_view ch"
  by (auto simp: channel_ensure_revocations_cap_def channel_ensure_pcs_cap_def Let_def mirror_view_def split: if_splits)

lemma update_view [simp]:
  "mirror_view (ch\<lparr>received_revocations := v\<rparr>) = mirror_view ch" "mirror_view (ch\<lparr>local_pcs := s\<rparr>) = mirror_view ch"
  "mirror_view (ch\<lparr>n_local_pcs := n\<rparr>) = mirror_view ch" "mirror_view (ch\<lparr>remote_pcp0 := p\<rparr>) = mirror_view ch"
  "mirror_view (ch\<lparr>remote_pcp1 := p\<rparr>) = mirror_view ch"
  by (simp_all add: mirror_view_def)

lemma store_view:
  "mirror_view (snd (channel_receive_revocation alloc ch m s)) = mirror_view ch"
  "mirror_view (channel_set_remote_pcp ch n p) = mirror_view ch"
  "mirror_view (channel_set_local_pcs alloc ch m s) = mirror_view ch"
  by (auto simp: channel_receive_revocation_def channel_receive_revocation_flat_def channel_set_remote_pcp_def
      channel_set_local_pcs_def Let_def ensure_view split: option.splits)

lemmas mirrored_store = mirrored_view[OF store_view(1) store_view(1)] mirrored_view[OF store_view(2) store_view(2)]
  mirrored_view[OF store_view(3) store_view(3)]

lemma mirrored_step:
  assumes "mirrored A B" and "mirror_call c c'"
  shows "mirrored (chan_step sha c A) (chan_step sha c' B)"
proof -
  obtain alloc rnd op alloc' rnd' op' where c: "c = (alloc, rnd, op)" "c' = (alloc', rnd', op')" by (cases c, cases c')
  have al: "\<forall>n. alloc n" "\<forall>n. alloc' n" and op: "mirror_op op op'" using assms(2) by (auto simp: mirror_call_def c)
  show ?thesis
    using op assms(1)
    by (cases op; cases op')
      (auto simp: c chan_step_def mirrored_add[OF _ al] mirrored_fulfill mirrored_fail mirrored_timeouts mirrored_update
         mirrored_store,
       auto simp: mirrored_def channel_set_fee_rate_def channel_update_funding_def)
qed

lemma mirrored_run:
  "list_all2 mirror_call cs cs' \<Longrightarrow> mirrored A B \<Longrightarrow>
   mirrored (fold (chan_step sha) cs A) (fold (chan_step sha) cs' B)"
  by (induction cs cs' arbitrary: A B rule: list_all2_induct) (auto intro: mirrored_step)


section \<open>The properties\<close>

text \<open>A small library whose keys are bytes, to go with \<open>sample_ec\<close>.\<close>

definition sample_secp8 :: "(u8, u8, u8) secp" where
  "sample_secp8 =
     \<lparr>sha256 = (\<lambda>x. replicate 32 (of_nat (length x))), xonly_serialize = (\<lambda>k. replicate 32 k),
      xonly_from_pubkey = (\<lambda>p. Some (p, False)), xonly_tweak_add = (\<lambda>k t. Some (k + hd t)),
      musig_pubkey_agg = (\<lambda>ps. if ps = [] then None else Some (hd ps, hd ps)),
      musig_pubkey_xonly_tweak_add = (\<lambda>k t. Some (k + hd t))\<rparr>"

lemma sample_secp8_lengths [simp]: "secp_lengths sample_secp8"
  by (simp add: secp_lengths_def sample_secp8_def)

lemma sample_secp8_keys [simp]:
  "xonly_from_pubkey sample_secp8 p = Some (p, False)" "xonly_tweak_add sample_secp8 k t = Some (k + hd t)"
  by (simp_all add: sample_secp8_def)

lemma sample_ec_total [simp]:
  "ec_pubkey_create sample_ec s = Some (hd s)" "ec_pubkey_tweak_add sample_ec p t = Some (p + hd t)"
  "ec_pubkey_tweak_mul sample_ec p t = Some (p * hd t)" "ec_pubkey_combine sample_ec p q = Some (p + q)"
  by (simp_all add: sample_ec_def)

lemma sample_derive [simp]:
  "\<exists>q. channel_derive_pubkey sha sample_ec b p = Some q" "\<exists>q. channel_derive_revocation_pubkey sha sample_ec b p = Some q"
  by (simp_all add: channel_derive_pubkey_def channel_derive_revocation_pubkey_def Let_def)

lemma to_local_root_total: "\<exists>r. to_local_root E d b x y = Some r"
  by (cases b) (simp_all add: to_local_root_def Let_def merkle_root_total)

lemma sample_two_leaf_spk: "\<exists>spk. two_leaf_spk sample_secp8 rvk leaves = Some spk"
  using merkle_root_total[of "[fst leaves, snd leaves]" sample_secp8]
  by (auto simp: two_leaf_spk_def tapscript_tweak_pubkey_def)

lemma sample_htlc_outputs: "\<exists>outs. htlc_outputs sample_secp8 d rvk lx rx hs = Some outs"
proof (induction hs)
  case (Cons h hs)
  then obtain outs spk where "htlc_outputs sample_secp8 d rvk lx rx hs = Some outs" "two_leaf_spk sample_secp8 rvk
      (htlc_leaf_pair sample_secp8 d lx rx (direction h = HTLC_OFFERED) (payment_hash h) (cltv_expiry h)) = Some spk"
    using sample_two_leaf_spk by meson
  then show ?case by simp
qed simp

lemma sample_outputs:
  assumes "ptlcs ch = []"
  shows "\<exists>outs. commitment_outputs sample_secp8 sample_ec ch p = Some outs"
proof -
  let ?sha = "sha256 sample_secp8"
  obtain rv d rp lx rx where k: "channel_derive_revocation_pubkey ?sha sample_ec (remote_revocation_basepoint ch) p = Some rv"
    "channel_derive_pubkey ?sha sample_ec (local_delayed_payment_basepoint ch) p = Some d"
    "channel_derive_pubkey ?sha sample_ec (remote_payment_basepoint ch) p = Some rp" "htlc_keys sample_secp8 sample_ec ch p = Some (lx, rx)"
    by (simp add: channel_derive_pubkey_def channel_derive_revocation_pubkey_def htlc_keys_def Let_def)
  moreover obtain r where "to_local_root sample_secp8 (to_self_delay ch) (use_revocation_leaf ch) rv d = Some r"
    using to_local_root_total[of sample_secp8 "to_self_delay ch" "use_revocation_leaf ch" rv d] by (elim exE)
  moreover obtain ho where "htlc_outputs sample_secp8 (to_self_delay ch) rv lx rx (htlcs ch) = Some ho"
    using sample_htlc_outputs by blast
  ultimately show ?thesis
    using assms by (simp add: commitment_outputs_def n_active_ptlcs_def tapscript_tweak_pubkey_def keypath_only_spk_def)
qed

text \<open>C7: Every commitment pays out the channel.  Start from a consistent channel that holds \<open>T\<close> satoshis and make any calls.
  Then a commitment transaction the code builds spends exactly the funding output, and its outputs together
  with the fees set aside for the HTLCs in flight are exactly the money in the channel:
  no HTLC is dropped from it and none is counted twice.  The exception is written out: outputs for PTLCs, which no channel operation adds
  and for which no balance is reduced, would come on top.\<close>

theorem commitment_tx_pays_channel:
  fixes ch :: "'pk channel" and E :: "('pk, 'xo, 'ca) secp"
  assumes "chan_inv T (length calls) ch" and "ch' = fold (chan_step sha) calls ch" and "length (chan_funding_txid ch') = 32"
    and "channel_build_commitment_tx alloc E K ch' out w = (True, b, txid)"
  shows "\<exists>t. buf_data b = ser_tx t \<and> tx_version t = 3 \<and> tx_locktime t = 0
     \<and> tx_ins t = [\<lparr>prev_txid = chan_funding_txid ch', prev_vout = chan_funding_vout ch', nsequence = 0xFFFFFFFE\<rparr>]
     \<and> length (tx_outs t) = 2 + length (htlcs ch') + length (paid_ptlcs E (ptlcs ch'))
     \<and> (\<Sum>q\<leftarrow>tx_outs t. unat (amount_sats q)) + (\<Sum>h\<leftarrow>htlcs ch'. unat (fee_at_add h))
         = T + (\<Sum>p\<leftarrow>paid_ptlcs E (ptlcs ch'). unat (ptlc_amount p))"
proof -
  have inv: "chan_inv T 0 ch'" using chan_run.run_inv[of T calls 0 ch sha] assms(1,2) by simp
  obtain pcp outs txid' where o: "commitment_outputs E K ch' pcp = Some outs"
    and b: "build_unsigned_tx_v alloc (sha256 E) out w (chan_funding_txid ch') (chan_funding_vout ch') 0xFFFFFFFE outs 3
        = (True, b, txid')"
    using assms(4) by (auto simp: channel_build_commitment_tx_def channel_build_commitment_tx_impl_def bind_eq_Some_conv
        split: if_splits option.splits prod.splits)
  let ?t = "\<lparr>tx_version = 3, tx_ins = [\<lparr>prev_txid = chan_funding_txid ch', prev_vout = chan_funding_vout ch',
      nsequence = 0xFFFFFFFE\<rparr>], tx_outs = outs, tx_locktime = 0\<rparr>"
  have data: "buf_data b = ser_tx ?t"
    using built_correct[of alloc "sha256 E" out w ?t] b by (simp add: build_v_built[OF assms(3)])
  have keep: "filter (\<lambda>h. hstate h = HTLC_STATE_ACTIVE \<and> htlc_amount h \<ge> CHANNEL_DUST_LIMIT_SATS) (htlcs ch') = htlcs ch'"
    using inv by (auto simp: chan_inv_def all_active_def list_all_iff filter_id_conv)
  let ?ps = "paid_ptlcs E (ptlcs ch')"
  have am: "map amount_sats outs = local_amount ch' # remote_amount ch' # map htlc_amount (htlcs ch') @ map ptlc_amount ?ps"
    using commitment_outputs_Some[OF o] by (simp add: keep)
  have "(\<Sum>q\<leftarrow>outs. unat (amount_sats q)) = (\<Sum>a\<leftarrow>map amount_sats outs. unat a)" by (simp add: comp_def)
  then have "(\<Sum>q\<leftarrow>outs. unat (amount_sats q)) + (\<Sum>h\<leftarrow>htlcs ch'. unat (fee_at_add h)) = T + (\<Sum>p\<leftarrow>?ps. unat (ptlc_amount p))"
    using inv by (simp add: am comp_def chan_inv_def wealth_def balances_def htlc_value_def sum_list_addf)
  moreover have "length outs = 2 + length (htlcs ch') + length ?ps" using arg_cong[OF am, of length] by simp
  ultimately show ?thesis using data by (intro exI[of _ ?t]) simp
qed


text \<open>The sample channel with a secret for its commitment, and the peer's record of it.\<close>

definition sample_local :: "u8 channel" where
  "sample_local = sample_channel\<lparr>local_pcs := replicate 4 (replicate 32 21), n_local_pcs := 4\<rparr>"

definition sample_peer :: "u8 channel" where
  "sample_peer = sample_channel
     \<lparr>local_payment_basepoint := 5, local_delayed_payment_basepoint := 6, local_revocation_basepoint := 7,
      local_htlc_basepoint := 8, remote_payment_basepoint := 1, remote_delayed_payment_basepoint := 2,
      remote_revocation_basepoint := 3, remote_htlc_basepoint := 4, funder_is_local := False,
      local_pcs := replicate 4 (replicate 32 22), n_local_pcs := 4\<rparr>"

lemma built_ex: "(\<And>n. alloc n) \<Longrightarrow> \<exists>b x. built alloc sha out w t = (True, b, x)"
  using built_total[of alloc sha out w t] by (cases "built alloc sha out w t") simp

lemma sample_commitment_built:
  assumes "ptlcs ch = []" "\<not> funding_pending_reorg ch" "length (chan_funding_txid ch) = 32"
    and "channel_get_per_commitment_point sample_ec ch (commitment_number ch) = Some p"
  shows "\<exists>b txid. channel_build_commitment_tx (\<lambda>_. True) sample_secp8 sample_ec ch out w = (True, b, txid)"
proof -
  obtain outs where "commitment_outputs sample_secp8 sample_ec ch p = Some outs"
    using sample_outputs[OF assms(1)] by blast
  moreover obtain b x where "build_unsigned_tx_v (\<lambda>_. True) (sha256 sample_secp8) out w (chan_funding_txid ch)
      (chan_funding_vout ch) 0xFFFFFFFE outs 3 = (True, b, x)"
    using built_ex[of "\<lambda>_. True"] unfolding build_v_built[OF assms(3)] by blast
  ultimately show ?thesis
    using assms(2,4) by (simp add: channel_build_commitment_tx_def channel_build_commitment_tx_impl_def)
qed

lemma next_commitment_None:
  "unat (commitment_number ch + 1 + 1 + 1) \<le> length (local_pcs ch) \<Longrightarrow>
   next_commitment alloc (\<lambda>_. None) ch = ch\<lparr>commitment_number := commitment_number ch + 1\<rparr>"
  by (simp add: next_commitment_def channel_generate_local_pcs_def channel_ensure_pcs_cap_def Let_def)

lemma sample_add:
  "chan_step sha (alloc, \<lambda>_. None, Add HTLC_OFFERED 1000 (replicate 32 9) 500) sample_local =
     sample_local\<lparr>local_amount := 98957, htlcs := [sample_htlc 0 500], next_htlc_id := 1, commitment_number := 2\<rparr>"
  by (simp add: chan_step_def channel_add_htlc_def next_commitment_None sample_local_def sample_channel_def grow_htlcs_def
      funder_credit_def MAX_HTLCS_def CHANNEL_DUST_LIMIT_SATS_def CHANNEL_RESERVE_SATS_def sample_htlc_def Let_def)

theorem commitment_tx_pays_channel_witness:
  "\<exists>b txid t. channel_build_commitment_tx (\<lambda>_. True) sample_secp8 sample_ec
       (chan_step (sha256 sample_secp8) (\<lambda>_. True, \<lambda>_. None, Add HTLC_OFFERED 1000 (replicate 32 9) 500) sample_local)
       (tx_buf_init (\<lambda>_. True) 0) True = (True, b, txid)
     \<and> buf_data b = ser_tx t \<and> length (tx_outs t) = 3 \<and> (\<Sum>q\<leftarrow>tx_outs t. unat (amount_sats q)) + 43 = 200000"
proof -
  let ?call = "(\<lambda>_ :: nat. True, \<lambda>_ :: u64. None :: bytes option, Add HTLC_OFFERED 1000 (replicate 32 9) 500 :: u8 chan_op)"
  let ?ch = "fold (chan_step (sha256 sample_secp8)) [?call] sample_local"
  have ch: "?ch = sample_local\<lparr>local_amount := 98957, htlcs := [sample_htlc 0 500], next_htlc_id := 1, commitment_number := 2\<rparr>"
    by (simp add: sample_add)
  have f: "ptlcs ?ch = []" "\<not> funding_pending_reorg ?ch" "length (chan_funding_txid ?ch) = 32" "htlcs ?ch = [sample_htlc 0 500]"
    unfolding ch by (simp_all add: sample_local_def sample_channel_def)
  have p: "channel_get_per_commitment_point sample_ec ?ch (commitment_number ?ch) = Some 21"
    unfolding ch by (simp add: channel_get_per_commitment_point_def channel_get_local_pcs_def sample_local_def sample_channel_def)
  obtain b txid where b: "channel_build_commitment_tx (\<lambda>_. True) sample_secp8 sample_ec ?ch
      (tx_buf_init (\<lambda>_. True) 0) True = (True, b, txid)" using sample_commitment_built[OF f(1-3) p] by blast
  have "chan_inv 200000 (length [?call]) sample_local" by (simp add: chan_inv_eval sample_local_def)
  from commitment_tx_pays_channel[OF this refl f(3) b] obtain t where t: "buf_data b = ser_tx t"
    "length (tx_outs t) = 3" "(\<Sum>q\<leftarrow>tx_outs t. unat (amount_sats q)) + 43 = 200000"
    unfolding f(1,4) by (auto simp: paid_ptlcs_def sample_htlc_def)
  from b t show ?thesis by (intro exI[of _ b] exI[of _ txid] exI[of _ t]) simp
qed

text \<open>C6: The two parties sign the same transaction.  Start from records of one channel that mirror
  each other and let both sides make mirrored calls, in any number and order and with any
  random sources, while their allocations succeed.  Then the commitment one side builds for
  the other, to sign it, is byte for byte the commitment the other side builds for itself,
  provided the point it holds is the peer's point of that commitment.\<close>

theorem commitment_views_agree:
  fixes A B :: "'pk channel" and E :: "('pk, 'xo, 'ca) secp"
  assumes "mirrored A B" and "list_all2 mirror_call cs cs'"
    and "A' = fold (chan_step sha) cs A" and "B' = fold (chan_step sha) cs' B"
    and "channel_get_remote_pcp K A' (commitment_number A') = Some p"
    and "channel_get_per_commitment_point K B' (commitment_number A') = Some p" and "\<not> funding_pending_reorg A'"
  shows "channel_build_commitment_tx_for_remote alloc E K A' out w = channel_build_commitment_tx alloc E K B' out w"
proof -
  have m: "mirrored A' B'" using mirrored_run[OF assms(2,1)] assms(3,4) by simp
  then have "commitment_number B' = commitment_number A'" "funding_pending_reorg B' = funding_pending_reorg A'"
    by (simp_all add: mirrored_def)
  with mirrored_commitment[OF m assms(5)] assms(6,7) show ?thesis by simp
qed

lemma sample_update:
  "chan_step sha (alloc, \<lambda>_. None, Update 500) sample_local =
     sample_local\<lparr>local_amount := 99500, remote_amount := 100500, commitment_number := 2\<rparr>"
  "chan_step sha (alloc, \<lambda>_. None, Update (- 500)) sample_peer =
     sample_peer\<lparr>local_amount := 100500, remote_amount := 99500, commitment_number := 2\<rparr>"
  by (simp_all add: chan_step_def channel_update_def next_commitment_None sample_local_def sample_peer_def sample_channel_def
      word_sless_alt)

theorem commitment_views_agree_witness:
  "channel_build_commitment_tx_for_remote (\<lambda>_. True) sample_secp8 sample_ec
      (chan_step (sha256 sample_secp8) (\<lambda>_. True, \<lambda>_. None, Update 500) sample_local) (tx_buf_init (\<lambda>_. True) 0) True
   = channel_build_commitment_tx (\<lambda>_. True) sample_secp8 sample_ec
      (chan_step (sha256 sample_secp8) (\<lambda>_. True, \<lambda>_. None, Update (- 500)) sample_peer) (tx_buf_init (\<lambda>_. True) 0) True"
proof -
  let ?sha = "sha256 sample_secp8"
  let ?cs = "[(\<lambda>_ :: nat. True, \<lambda>_ :: u64. None :: bytes option, Update 500 :: u8 chan_op)]"
  let ?cs' = "[(\<lambda>_ :: nat. True, \<lambda>_ :: u64. None :: bytes option, Update (- 500) :: u8 chan_op)]"
  have m: "mirrored sample_local sample_peer" by (simp add: mirrored_def sample_local_def sample_peer_def sample_channel_def)
  have c: "list_all2 mirror_call ?cs ?cs'" by (simp add: mirror_call_def)
  let ?A = "fold (chan_step ?sha) ?cs sample_local" and ?B = "fold (chan_step ?sha) ?cs' sample_peer"
  have AB: "?A = sample_local\<lparr>local_amount := 99500, remote_amount := 100500, commitment_number := 2\<rparr>"
    "?B = sample_peer\<lparr>local_amount := 100500, remote_amount := 99500, commitment_number := 2\<rparr>"
    using sample_update by simp_all
  have "commitment_number ?A = 2" "\<not> funding_pending_reorg ?A"
    "channel_get_remote_pcp sample_ec ?A 2 = Some 22" "channel_get_per_commitment_point sample_ec ?B 2 = Some 22"
    unfolding AB
    by (simp_all add: sample_local_def sample_peer_def sample_channel_def channel_get_remote_pcp_def pcp_slot_def
        channel_get_per_commitment_point_def channel_get_local_pcs_def)
  with commitment_views_agree[OF m c refl refl, where sha = ?sha and K = sample_ec and p = 22 and
      alloc = "\<lambda>_. True" and E = sample_secp8 and out = "tx_buf_init (\<lambda>_. True) 0" and w = True]
  show ?thesis by (simp only: fold_simps id_apply simp_thms)
qed

end
