(* ===== verification/Penalty.thy ===== *)
theory Penalty
  imports Commitment
begin

text \<open>
  Penalty transactions, \<^verbatim>\<open>src/channel.c\<close>: what a party broadcasts when the peer publishes a revoked
  commitment.  Signing is libsecp256k1's, the record \<open>sign_ops\<close> over abstract key pairs.
  The index of an HTLC is the caller's to keep in range, as in the code; the PTLC builder
  checks it.  Where the code does not look at the result of a library call, a failed
  call is a failure of the model.
\<close>

section \<open>Model\<close>

record 'kp sign_ops =
  keypair_create :: "bytes \<Rightarrow> 'kp option"
  keypair_xonly_tweak_add :: "'kp \<Rightarrow> bytes \<Rightarrow> 'kp option"
  schnorrsig_sign32 :: "'kp \<Rightarrow> bytes \<Rightarrow> bytes option"

definition P2A_SPK_LEN :: nat where
  "P2A_SPK_LEN = 4"

definition ANCHOR_OUTPUT_AMOUNT :: u64 where
  "ANCHOR_OUTPUT_AMOUNT = 240"

text \<open>The outputs of a penalty transaction, or nothing when it would be dust.\<close>

definition penalty_outputs ::
  "u64 \<Rightarrow> u64 \<Rightarrow> u64 \<Rightarrow> u64 \<Rightarrow> bytes \<Rightarrow> bytes option \<Rightarrow> tx_output list option" where
  "penalty_outputs fee_rate vsize_anchor vsize_plain amount out_spk anchor_spk =
     (let has_anchor = (case anchor_spk of Some spk \<Rightarrow> length spk = P2A_SPK_LEN | None \<Rightarrow> False);
          vsize = (if has_anchor then vsize_anchor else vsize_plain);
          penalty_fee = (fee_rate * vsize + 999) div 1000;
          deduction = penalty_fee + (if has_anchor then ANCHOR_OUTPUT_AMOUNT else 0);
          penalty_amount = (if amount > deduction then amount - deduction else 0)
      in if penalty_amount < CHANNEL_DUST_LIMIT_SATS then None
         else Some (\<lparr>amount_sats = penalty_amount, script_pubkey = out_spk\<rparr>
                    # (if has_anchor then [\<lparr>amount_sats = ANCHOR_OUTPUT_AMOUNT, script_pubkey = the anchor_spk\<rparr>] else [])))"

text \<open>The point and the revocation key of a revoked commitment.\<close>

definition penalty_keys ::
  "(bytes \<Rightarrow> bytes) \<Rightarrow> 'pk ec_ops \<Rightarrow> 'pk channel \<Rightarrow> u64 \<Rightarrow> ('pk \<times> bytes) option" where
  "penalty_keys sha K ch old_commitment_num = do {
     pcp_secret \<leftarrow> channel_get_received_revocation ch old_commitment_num;
     pcp \<leftarrow> ec_pubkey_create K pcp_secret;
     revocation_privkey \<leftarrow> channel_derive_revocation_privkey sha K (local_revocation_basepoint_secret ch) pcp_secret
       (local_revocation_basepoint ch) pcp;
     Some (pcp, revocation_privkey) }"

definition built_bytes :: "bool \<times> tx_buf \<times> bytes option \<Rightarrow> bytes option" where
  "built_bytes r = (case r of (ok, b, _) \<Rightarrow> if ok then Some (buf_data b) else None)"

text \<open>The tail of the key-path penalties: tweak the key pair by the tree, build, sign.\<close>

definition sign_keypath ::
  "(nat \<Rightarrow> bool) \<Rightarrow> ('pk, 'xo, 'ca) secp \<Rightarrow> 'pk ec_ops \<Rightarrow> 'kp sign_ops \<Rightarrow> bytes \<Rightarrow> ('xo \<Rightarrow> bytes option)
   \<Rightarrow> bytes option \<Rightarrow> (bytes \<Rightarrow> tx_output list option) \<Rightarrow> (tx_output list \<Rightarrow> bytes option) \<Rightarrow> bytes \<Rightarrow> u64
   \<Rightarrow> (bytes \<times> bytes) option" where
  "sign_keypath alloc E K S revocation_privkey tree out_spk outputs_for build spk amount = do {
     revocation_pubkey \<leftarrow> ec_pubkey_create K revocation_privkey;
     (revocation_xonly, _) \<leftarrow> xonly_from_pubkey E revocation_pubkey;
     merkle_root \<leftarrow> tree revocation_xonly;
     kp \<leftarrow> keypair_create S revocation_privkey;
     tweaked_kp \<leftarrow> keypair_xonly_tweak_add S kp
       (sha256_tagged (sha256 E) ''TapTweak'' (xonly_serialize E revocation_xonly @ merkle_root));
     dest \<leftarrow> out_spk;
     outputs \<leftarrow> outputs_for dest;
     unsigned_tx \<leftarrow> build outputs;
     sighash \<leftarrow> compute_taproot_sighash alloc (sha256 E) unsigned_tx 0 spk amount 0xFFFFFFFD;
     sig64 \<leftarrow> schnorrsig_sign32 S tweaked_kp sighash;
     Some (unsigned_tx, sig64) }"

definition finalize_prepared :: "(nat \<Rightarrow> bool) \<Rightarrow> tx_buf \<Rightarrow> (bytes \<times> bytes) option \<Rightarrow> bool \<times> tx_buf" where
  "finalize_prepared alloc out prepared =
     (case prepared of None \<Rightarrow> (False, out) | Some (unsigned_tx, sig64) \<Rightarrow> finalize_signed_tx alloc out unsigned_tx sig64)"

definition channel_build_penalty_tx ::
  "(nat \<Rightarrow> bool) \<Rightarrow> ('pk, 'xo, 'ca) secp \<Rightarrow> 'pk ec_ops \<Rightarrow> 'kp sign_ops \<Rightarrow> 'pk channel \<Rightarrow> tx_buf \<Rightarrow> bytes \<Rightarrow> u32 \<Rightarrow> u64 \<Rightarrow> bytes
   \<Rightarrow> u64 \<Rightarrow> bytes option \<Rightarrow> bool \<times> tx_buf" where
  "channel_build_penalty_tx alloc E K S ch out commitment_txid to_local_vout to_local_amount to_local_spk
       old_commitment_num anchor_spk =
     finalize_prepared alloc out (do {
       (pcp, revocation_privkey) \<leftarrow> penalty_keys (sha256 E) K ch old_commitment_num;
       delayed_pubkey \<leftarrow> channel_derive_pubkey (sha256 E) K (remote_delayed_payment_basepoint ch) pcp;
       (delayed_xonly, _) \<leftarrow> xonly_from_pubkey E delayed_pubkey;
       sign_keypath alloc E K S revocation_privkey
         (\<lambda>rvk. to_local_root E (to_self_delay ch) (use_revocation_leaf ch) rvk delayed_xonly)
         (keypath_only_spk E (local_payment_basepoint ch))
         (\<lambda>dest. penalty_outputs (fee_rate_sat_per_kvb ch) 165 152 to_local_amount dest anchor_spk)
         (\<lambda>outputs. built_bytes (build_unsigned_tx_v alloc (sha256 E) (tx_buf_init alloc 256) True commitment_txid to_local_vout
            0xFFFFFFFD outputs 3))
         to_local_spk to_local_amount })"

definition channel_build_penalty_tx_script_path ::
  "(nat \<Rightarrow> bool) \<Rightarrow> ('pk, 'xo, 'ca) secp \<Rightarrow> 'pk ec_ops \<Rightarrow> 'kp sign_ops \<Rightarrow> 'pk channel \<Rightarrow> tx_buf \<Rightarrow> bytes \<Rightarrow> u32 \<Rightarrow> u64 \<Rightarrow> bytes
   \<Rightarrow> u64 \<Rightarrow> bytes option \<Rightarrow> bool \<times> tx_buf" where
  "channel_build_penalty_tx_script_path alloc E K S ch out commitment_txid to_local_vout to_local_amount to_local_spk
       old_commitment_num anchor_spk =
     (if \<not> use_revocation_leaf ch then (False, out)
      else case do {
       (pcp, revocation_privkey) \<leftarrow> penalty_keys (sha256 E) K ch old_commitment_num;
       delayed_pubkey \<leftarrow> channel_derive_pubkey (sha256 E) K (remote_delayed_payment_basepoint ch) pcp;
       (delayed_xonly, _) \<leftarrow> xonly_from_pubkey E delayed_pubkey;
       revocation_pubkey \<leftarrow> ec_pubkey_create K revocation_privkey;
       (revocation_xonly, _) \<leftarrow> xonly_from_pubkey E revocation_pubkey;
       let csv_leaf = tapscript_build_csv_delay E (to_self_delay ch) delayed_xonly;
       let revocation_leaf = tapscript_build_revocation_checksig E revocation_xonly;
       merkle_root \<leftarrow> tapscript_merkle_root E [csv_leaf, revocation_leaf];
       (tweaked_output, output_parity) \<leftarrow> tapscript_tweak_pubkey E revocation_xonly merkle_root;
       dest \<leftarrow> keypath_only_spk E (local_payment_basepoint ch);
       outputs \<leftarrow> penalty_outputs (fee_rate_sat_per_kvb ch) 200 185 to_local_amount dest anchor_spk;
       unsigned_tx \<leftarrow> built_bytes (build_unsigned_tx_v alloc (sha256 E) (tx_buf_init alloc 256) True commitment_txid
         to_local_vout 0xFFFFFFFD outputs 3);
       rev_kp \<leftarrow> keypair_create S revocation_privkey;
       sig64 \<leftarrow> schnorrsig_sign32 S rev_kp
         (compute_tapscript_sighash (sha256 E) unsigned_tx 0 to_local_spk to_local_amount 0xFFFFFFFD revocation_leaf);
       let control_block = tapscript_build_control_block_2leaf E output_parity revocation_xonly csv_leaf;
       Some (unsigned_tx, sig64, leaf_script revocation_leaf, control_block) } of
        None \<Rightarrow> (False, out)
      | Some (unsigned_tx, sig64, script, control_block) \<Rightarrow>
          (True, finalize_script_path_tx alloc out unsigned_tx sig64 script control_block))"

text \<open>The script tree of an HTLC output on the peer's commitment, from our own record of the HTLC.\<close>

definition peer_htlc_root ::
  "('pk, 'xo, 'ca) secp \<Rightarrow> 'pk ec_ops \<Rightarrow> 'pk channel \<Rightarrow> 'pk \<Rightarrow> bool \<Rightarrow> bytes \<Rightarrow> u32 \<Rightarrow> bytes option" where
  "peer_htlc_root E K ch pcp we_offered hash expiry = do {
     remote_htlc_pub \<leftarrow> channel_derive_pubkey (sha256 E) K (remote_htlc_basepoint ch) pcp;
     local_htlc_pub \<leftarrow> channel_derive_pubkey (sha256 E) K (local_htlc_basepoint ch) pcp;
     (remote_htlc_xonly, _) \<leftarrow> xonly_from_pubkey E remote_htlc_pub;
     (local_htlc_xonly, _) \<leftarrow> xonly_from_pubkey E local_htlc_pub;
     let leaves = (if we_offered
       then (tapscript_build_htlc_received_success E hash (to_self_delay ch) remote_htlc_xonly,
             tapscript_build_htlc_received_timeout E expiry local_htlc_xonly)
       else (tapscript_build_htlc_offered_success E hash local_htlc_xonly,
             tapscript_build_htlc_offered_timeout E expiry (to_self_delay ch) remote_htlc_xonly));
     tapscript_merkle_root E [fst leaves, snd leaves] }"

definition channel_build_htlc_penalty_tx ::
  "(nat \<Rightarrow> bool) \<Rightarrow> ('pk, 'xo, 'ca) secp \<Rightarrow> 'pk ec_ops \<Rightarrow> 'kp sign_ops \<Rightarrow> 'pk channel \<Rightarrow> tx_buf \<Rightarrow> bytes \<Rightarrow> u32 \<Rightarrow> u64 \<Rightarrow> bytes
   \<Rightarrow> u64 \<Rightarrow> nat \<Rightarrow> bytes option \<Rightarrow> bool \<times> tx_buf" where
  "channel_build_htlc_penalty_tx alloc E K S ch out commitment_txid htlc_vout amount htlc_spk
       old_commitment_num htlc_index anchor_spk =
     finalize_prepared alloc out (do {
       (pcp, revocation_privkey) \<leftarrow> penalty_keys (sha256 E) K ch old_commitment_num;
       let h = htlcs ch ! htlc_index;
       htlc_merkle \<leftarrow> peer_htlc_root E K ch pcp (direction h = HTLC_OFFERED) (payment_hash h) (cltv_expiry h);
       sign_keypath alloc E K S revocation_privkey (\<lambda>_. Some htlc_merkle)
         (keypath_only_spk E (local_payment_basepoint ch))
         (\<lambda>dest. penalty_outputs (fee_rate_sat_per_kvb ch) 165 152 amount dest anchor_spk)
         (\<lambda>outputs. built_bytes (build_unsigned_tx alloc (sha256 E) (tx_buf_init alloc 256) True commitment_txid htlc_vout
            0xFFFFFFFD outputs))
         htlc_spk amount })"

definition channel_build_ptlc_penalty_tx ::
  "(nat \<Rightarrow> bool) \<Rightarrow> ('pk, 'xo, 'ca) secp \<Rightarrow> 'pk ec_ops \<Rightarrow> 'kp sign_ops \<Rightarrow> 'pk channel \<Rightarrow> tx_buf \<Rightarrow> bytes \<Rightarrow> u32 \<Rightarrow> u64 \<Rightarrow> bytes
   \<Rightarrow> u64 \<Rightarrow> nat \<Rightarrow> bytes option \<Rightarrow> bool \<times> tx_buf" where
  "channel_build_ptlc_penalty_tx alloc E K S ch out commitment_txid ptlc_vout amount ptlc_spk
       old_commitment_num ptlc_index anchor_spk =
     (if ptlc_index \<ge> length (ptlcs ch) then (False, out)
      else finalize_prepared alloc out (do {
       (pcp, revocation_privkey) \<leftarrow> penalty_keys (sha256 E) K ch old_commitment_num;
       let p = ptlcs ch ! ptlc_index;
       (pp_xonly, _) \<leftarrow> xonly_from_pubkey E (payment_point p);
       ptlc_merkle \<leftarrow> peer_htlc_root E K ch pcp (ptlc_dir p = PTLC_OFFERED) (xonly_serialize E pp_xonly) (ptlc_expiry p);
       sign_keypath alloc E K S revocation_privkey (\<lambda>_. Some ptlc_merkle)
         (keypath_only_spk E (local_payment_basepoint ch))
         (\<lambda>dest. penalty_outputs (fee_rate_sat_per_kvb ch) 165 152 amount dest anchor_spk)
         (\<lambda>outputs. built_bytes (build_unsigned_tx alloc (sha256 E) (tx_buf_init alloc 256) True commitment_txid ptlc_vout
            0xFFFFFFFD outputs))
         ptlc_spk amount }))"

section \<open>What the library promises about signing\<close>

text \<open>A key pair holds the public key of its secret; tweaking it follows the x-only tweak of that
  key; and a signature verifies under the pair's x-only key.  \<open>pub\<close> reads the public key of a
  pair and \<open>verify\<close> is BIP-340 verification.\<close>

definition sign_laws ::
  "('pk, 'xo, 'ca) secp \<Rightarrow> 'pk ec_ops \<Rightarrow> 'kp sign_ops \<Rightarrow> ('kp \<Rightarrow> 'pk) \<Rightarrow> (bytes \<Rightarrow> bytes \<Rightarrow> bytes \<Rightarrow> bool) \<Rightarrow> bool" where
  "sign_laws E K S pub verify \<longleftrightarrow>
     (\<forall>s kp P. keypair_create S s = Some kp \<longrightarrow> ec_pubkey_create K s = Some P \<longrightarrow> pub kp = P)
   \<and> (\<forall>kp t kp' x b. keypair_xonly_tweak_add S kp t = Some kp' \<longrightarrow> xonly_from_pubkey E (pub kp) = Some (x, b) \<longrightarrow>
        xonly_tweak_add E x t = Some (pub kp'))
   \<and> (\<forall>kp m sig. schnorrsig_sign32 S kp m = Some sig \<longrightarrow> length sig = 64
        \<and> (\<forall>x b. xonly_from_pubkey E (pub kp) = Some (x, b) \<longrightarrow> verify (xonly_serialize E x) m sig))"

text \<open>A key-path spend of a taproot output, as the network checks it.\<close>

definition keypath_valid ::
  "(bytes \<Rightarrow> bytes \<Rightarrow> bytes \<Rightarrow> bool) \<Rightarrow> (bytes \<Rightarrow> bytes) \<Rightarrow> tx \<Rightarrow> bytes \<Rightarrow> u64 \<Rightarrow> bytes \<Rightarrow> bool" where
  "keypath_valid verify sha t spk amount sig \<longleftrightarrow>
     length spk = 34 \<and> take 2 spk = [0x51, 0x20]
     \<and> verify (drop 2 spk) (sha256_tagged sha ''TapSighash'' (bip341_msg sha t 0 [(spk, amount)])) sig"

section \<open>Signing with the tweaked revocation key\<close>

lemma sign_keypath_valid:
  assumes "sign_laws E K S pub verify" and "sign_keypath alloc E K S priv tree out_spk outputs_for build spk amount = Some (u, sig)"
    and "ec_pubkey_create K priv = Some R" and "xonly_from_pubkey E R = Some (x, b)" and "tree x = Some root"
    and "length root = 32" and "tapscript_tweak_pubkey E x root = Some (q, par)"
  shows "length sig = 64" "\<exists>m. compute_taproot_sighash alloc (sha256 E) u 0 spk amount 0xFFFFFFFD = Some m \<and> verify (xonly_serialize E q) m sig"
    "\<exists>dest outs. out_spk = Some dest \<and> outputs_for dest = Some outs \<and> build outs = Some u"
proof -
  let ?tw = "sha256_tagged (sha256 E) ''TapTweak'' (xonly_serialize E x @ root)"
  obtain kp tkp dest outs m where kp: "keypair_create S priv = Some kp" "keypair_xonly_tweak_add S kp ?tw = Some tkp"
    and o: "out_spk = Some dest" "outputs_for dest = Some outs" "build outs = Some u"
    and m: "compute_taproot_sighash alloc (sha256 E) u 0 spk amount 0xFFFFFFFD = Some m" and s: "schnorrsig_sign32 S tkp m = Some sig"
    using assms(2-5) by (auto simp: sign_keypath_def bind_eq_Some_conv)
  have "pub kp = R" using assms(1,3) kp(1) unfolding sign_laws_def by blast
  then have "xonly_tweak_add E x ?tw = Some (pub tkp)" using assms(1,4) kp(2) unfolding sign_laws_def by blast
  then have "xonly_from_pubkey E (pub tkp) = Some (q, par)"
    using assms(6,7) by (simp add: tapscript_tweak_pubkey_def Let_def)
  with assms(1) s m show "length sig = 64" "\<exists>m. compute_taproot_sighash alloc (sha256 E) u 0 spk amount 0xFFFFFFFD = Some m \<and> verify (xonly_serialize E q) m sig"
    unfolding sign_laws_def by blast+
  from o show "\<exists>dest outs. out_spk = Some dest \<and> outputs_for dest = Some outs \<and> build outs = Some u" by blast
qed

lemma penalty_outputs_length: "penalty_outputs fr va vp amt spk anchor = Some outs \<Longrightarrow> length outs \<le> 2"
  by (auto simp: penalty_outputs_def Let_def split: if_splits)

lemma finalize_signed_result:
  assumes "length sig = 64"
  shows "finalize_signed_tx alloc out (ser_tx t) sig = (ok, b) \<Longrightarrow> ok \<Longrightarrow> buf_data b = ser_segwit t [[sig]]"
    and "(\<And>n. alloc n) \<Longrightarrow> fst (finalize_signed_tx alloc out (ser_tx t) sig)"
proof -
  let ?xs = "[le_bytes 4 (tx_version t), [0], [1], tx_body t] @ sig_chunks sig 1 @ [le_bytes 4 (tx_locktime t)]"
  let ?b = "buf_writes alloc ?xs (tx_buf_reset out)"
  have l: "8 \<le> length (ser_tx t)" by (rule ser_tx_parts)
  have e: "finalize_signed_tx alloc out (ser_tx t) sig = (\<not> oom ?b, ?b)"
    unfolding finalize_signed_tx_is_multi[OF l]
    by (subst finalize_signed_tx_multi_chunks) (use assms in \<open>simp_all add: Let_def\<close>)
  have c: "concat ?xs = ser_segwit t [[sig]]"
    using assms by (simp add: concat_sig_chunks ser_segwit_def tx_body_def)
  show "finalize_signed_tx alloc out (ser_tx t) sig = (ok, b) \<Longrightarrow> ok \<Longrightarrow> buf_data b = ser_segwit t [[sig]]"
    using writes_result[of alloc ?xs out] unfolding e c prod.inject by blast
  show "(\<And>n. alloc n) \<Longrightarrow> fst (finalize_signed_tx alloc out (ser_tx t) sig)"
    unfolding e fst_conv by (rule buf_writes_total) simp_all
qed

lemma built_bytes_Some: "built_bytes (built alloc sha out w t) = Some u \<Longrightarrow> u = ser_tx t"
  using built_correct[of alloc sha out w t] by (auto simp: built_bytes_def split: prod.splits if_splits)

lemma build_v_built_bytes:
  "length txid = 32 \<Longrightarrow> built_bytes (build_unsigned_tx_v alloc sha out w txid vout nseq outs v) =
     built_bytes (built alloc sha out w (one_input_tx v \<lparr>prev_txid = txid, prev_vout = vout, nsequence = nseq\<rparr> outs 0))"
  by (simp add: build_v_built)

lemma built_bytes_total: "(\<And>n. alloc n) \<Longrightarrow> built_bytes (built alloc sha out w t) \<noteq> None"
  using built_total[of alloc sha out w t] by (auto simp: built_bytes_def split: prod.splits)

text \<open>A finalised key-path penalty is a valid spend, whichever tree and builder it uses.\<close>

lemma penalty_valid:
  assumes "secp_lengths E" and "sign_laws E K S pub verify" and "length txid = 32"
    and "finalize_prepared alloc out (sign_keypath alloc E K S priv tree out_spk
          (\<lambda>dest. penalty_outputs fr va vp amount dest anchor) build (build_p2tr_script_pubkey E q) amount) = (True, b)"
    and "\<And>outs. build outs = built_bytes (built alloc (sha256 E) buf True
          (one_input_tx v \<lparr>prev_txid = txid, prev_vout = vout, nsequence = 0xFFFFFFFD\<rparr> outs 0))"
    and "ec_pubkey_create K priv = Some R" and "xonly_from_pubkey E R = Some (x, par)" and "tree x = Some root"
    and "length root = 32" and "tapscript_tweak_pubkey E x root = Some (q, par')"
  shows "\<exists>t sig dest. buf_data b = ser_segwit t [[sig]] \<and> tx_version t = v
     \<and> tx_ins t = [\<lparr>prev_txid = txid, prev_vout = vout, nsequence = 0xFFFFFFFD\<rparr>]
     \<and> out_spk = Some dest \<and> penalty_outputs fr va vp amount dest anchor = Some (tx_outs t)
     \<and> keypath_valid verify (sha256 E) t (build_p2tr_script_pubkey E q) amount sig"
proof -
  obtain u sig where s: "sign_keypath alloc E K S priv tree out_spk (\<lambda>dest. penalty_outputs fr va vp amount dest anchor) build
        (build_p2tr_script_pubkey E q) amount = Some (u, sig)"
    and f: "finalize_signed_tx alloc out u sig = (True, b)"
    using assms(4) by (auto simp: finalize_prepared_def split: option.splits)
  note sv = sign_keypath_valid[OF assms(2) s assms(6-10)]
  obtain dest outs where o: "out_spk = Some dest" "penalty_outputs fr va vp amount dest anchor = Some outs" "build outs = Some u"
    using sv(3) by blast
  let ?i = "\<lparr>prev_txid = txid, prev_vout = vout, nsequence = 0xFFFFFFFD\<rparr>"
  let ?t = "one_input_tx v ?i outs 0" and ?spk = "build_p2tr_script_pubkey E q"
  have u: "u = ser_tx ?t" using o(3) assms(5) by (simp add: built_bytes_Some)
  have b: "buf_data b = ser_segwit ?t [[sig]]" using finalize_signed_result(1)[OF sv(1)] f u by blast
  have spk: "length ?spk = 34" "take 2 ?spk = [0x51, 0x20]" "drop 2 ?spk = xonly_serialize E q"
    using assms(1) by (simp_all add: build_p2tr_script_pubkey_def)
  have "compute_taproot_sighash alloc (sha256 E) (ser_tx ?t) 0 ?spk amount (nsequence ?i) =
      (if alloc (1 + length ?spk) then Some (sha256_tagged (sha256 E) ''TapSighash'' (bip341_msg (sha256 E) ?t 0 [(?spk, amount)])) else None)"
    by (rule taproot_sighash_msg) (use assms(3) penalty_outputs_length[OF o(2)] spk in \<open>simp_all add: valid_input_def\<close>)
  with sv(2) have "keypath_valid verify (sha256 E) ?t ?spk amount sig" using spk by (auto simp: keypath_valid_def u split: if_split_asm)
  with b o show ?thesis by (intro exI[of _ ?t] exI[of _ sig] exI[of _ dest]) simp
qed


section \<open>Justice\<close>

text \<open>The terms of a channel that a penalty depends on do not change over its life.\<close>

definition same_terms :: "'pk channel \<Rightarrow> 'pk channel \<Rightarrow> bool" where
  "same_terms old ch \<longleftrightarrow>
     to_self_delay old = to_self_delay ch \<and> use_revocation_leaf old = use_revocation_leaf ch
     \<and> local_revocation_basepoint old = local_revocation_basepoint ch
     \<and> remote_delayed_payment_basepoint old = remote_delayed_payment_basepoint ch
     \<and> local_htlc_basepoint old = local_htlc_basepoint ch \<and> remote_htlc_basepoint old = remote_htlc_basepoint ch"

text \<open>We hold what the penalty for commitment \<open>n\<close> needs: our revocation secret and the peer's secret
  of the point \<open>p\<close>.\<close>

definition holds_revocation :: "'pk ec_ops \<Rightarrow> 'pk channel \<Rightarrow> u64 \<Rightarrow> 'pk \<Rightarrow> bool" where
  "holds_revocation K ch n p \<longleftrightarrow>
     length (local_revocation_basepoint_secret ch) = 32
     \<and> ec_pubkey_create K (local_revocation_basepoint_secret ch) = Some (local_revocation_basepoint ch)
     \<and> (\<exists>secret. channel_get_received_revocation ch n = Some secret \<and> length secret = 32
            \<and> ec_pubkey_create K secret = Some p)"

lemma penalty_keys_revocation:
  assumes "ec_homomorphic K" and "secp_lengths E" and "holds_revocation K ch n p"
    and "penalty_keys (sha256 E) K ch n = Some (pcp, priv)"
  shows "pcp = p" "\<exists>R. ec_pubkey_create K priv = Some R
     \<and> channel_derive_revocation_pubkey (sha256 E) K (local_revocation_basepoint ch) p = Some R"
proof -
  obtain secret where s: "channel_get_received_revocation ch n = Some secret" "length secret = 32"
    "ec_pubkey_create K secret = Some p" using assms(3) by (auto simp: holds_revocation_def)
  then show p: "pcp = p" using assms(4) by (auto simp: penalty_keys_def bind_eq_Some_conv)
  have k: "channel_derive_revocation_privkey (sha256 E) K (local_revocation_basepoint_secret ch) secret
      (local_revocation_basepoint ch) p = Some priv"
    using assms(4) s by (auto simp: penalty_keys_def bind_eq_Some_conv)
  show "\<exists>R. ec_pubkey_create K priv = Some R
      \<and> channel_derive_revocation_pubkey (sha256 E) K (local_revocation_basepoint ch) p = Some R"
    by (rule revocation_key_pair[OF assms(1) _ _ s(2) _ s(3) k])
      (use assms(2,3) in \<open>simp_all add: secp_lengths_def holds_revocation_def\<close>)
qed

lemma to_local_root_length: "secp_lengths E \<Longrightarrow> to_local_root E d b x y = Some r \<Longrightarrow> length r = 32"
  by (auto simp: to_local_root_def Let_def leaf_builder_defs split: if_splits intro!: length_merkle_root)

text \<open>Whatever tree the output has: a penalty signed with the revocation key spends it, and is built
  when nothing fails.\<close>

lemma revocation_spend:
  fixes E :: "('pk, 'xo, 'ca) secp" and K :: "'pk ec_ops" and S :: "'kp sign_ops" and ch :: "'pk channel"
  assumes "secp_lengths E" and "ec_homomorphic K" and "sign_laws E K S pub verify" and "length txid = 32"
    and "holds_revocation K ch n p"
    and "channel_derive_revocation_pubkey (sha256 E) K (local_revocation_basepoint ch) p = Some R"
    and "xonly_from_pubkey E R = Some (x, par)" and "tree x = Some root" and "length root = 32"
    and "tapscript_tweak_pubkey E x root = Some (q, par')"
    and "penalty_keys (sha256 E) K ch n = Some (pcp, priv)"
    and "\<And>outs. build outs = built_bytes (built alloc (sha256 E) buf True
          (one_input_tx v \<lparr>prev_txid = txid, prev_vout = vout, nsequence = 0xFFFFFFFD\<rparr> outs 0))"
    and "finalize_prepared alloc out (sign_keypath alloc E K S priv tree out_spk
          (\<lambda>dest. penalty_outputs fr va vp amount dest anchor) build (build_p2tr_script_pubkey E q) amount) = (True, b)"
  shows "\<exists>t sig dest. buf_data b = ser_segwit t [[sig]] \<and> tx_version t = v
     \<and> tx_ins t = [\<lparr>prev_txid = txid, prev_vout = vout, nsequence = 0xFFFFFFFD\<rparr>]
     \<and> out_spk = Some dest \<and> penalty_outputs fr va vp amount dest anchor = Some (tx_outs t)
     \<and> keypath_valid verify (sha256 E) t (build_p2tr_script_pubkey E q) amount sig"
proof -
  obtain R' where "ec_pubkey_create K priv = Some R'"
    "channel_derive_revocation_pubkey (sha256 E) K (local_revocation_basepoint ch) p = Some R'"
    using penalty_keys_revocation(2)[OF assms(2,1,5,11)] by (elim exE conjE)
  with assms(6) have "ec_pubkey_create K priv = Some R" by simp
  from penalty_valid[OF assms(1,3,4,13,12) this assms(7-10)] show ?thesis .
qed

lemma commitment_to_local:
  assumes "commitment_outputs E K ch pcp = Some outs"
  obtains R x par D y par' root q par'' where
    "channel_derive_revocation_pubkey (sha256 E) K (remote_revocation_basepoint ch) pcp = Some R"
    "xonly_from_pubkey E R = Some (x, par)" "channel_derive_pubkey (sha256 E) K (local_delayed_payment_basepoint ch) pcp = Some D"
    "xonly_from_pubkey E D = Some (y, par')" "to_local_root E (to_self_delay ch) (use_revocation_leaf ch) x y = Some root"
    "tapscript_tweak_pubkey E x root = Some (q, par'')"
    "outs ! 0 = \<lparr>amount_sats = local_amount ch, script_pubkey = build_p2tr_script_pubkey E q\<rparr>"
  using assms unfolding commitment_outputs_def by (auto simp: bind_eq_Some_conv split: if_splits)

text \<open>The library calls on the way to the penalty for commitment \<open>n\<close> succeed: our payout script and the
  revocation key can be derived, and the pair of that key can be tweaked wherever its public key can and then signs.
  All of these fail only for invalid keys.\<close>

definition penalty_signs :: "('pk, 'xo, 'ca) secp \<Rightarrow> 'pk ec_ops \<Rightarrow> 'kp sign_ops \<Rightarrow> 'pk channel \<Rightarrow> u64 \<Rightarrow> bool" where
  "penalty_signs E K S ch n \<longleftrightarrow>
     keypath_only_spk E (local_payment_basepoint ch) \<noteq> None
   \<and> (\<exists>pcp priv kp. penalty_keys (sha256 E) K ch n = Some (pcp, priv) \<and> keypair_create S priv = Some kp
        \<and> (\<forall>R x b t. ec_pubkey_create K priv = Some R \<longrightarrow> xonly_from_pubkey E R = Some (x, b) \<longrightarrow> xonly_tweak_add E x t \<noteq> None \<longrightarrow>
              (\<exists>tkp. keypair_xonly_tweak_add S kp t = Some tkp \<and> (\<forall>m. schnorrsig_sign32 S tkp m \<noteq> None))))"

lemma finalize_prepared_total:
  assumes "sign_laws E K S pub verify" and "\<And>n. alloc n"
    and "sign_keypath alloc E K S priv tree out_spk outputs_for build spk amount = Some (u, sig)"
    and "\<And>outs. build outs = built_bytes (built alloc sha buf True (t outs))"
  shows "fst (finalize_prepared alloc out (sign_keypath alloc E K S priv tree out_spk outputs_for build spk amount))"
proof -
  from assms(3) obtain kp m where sg: "schnorrsig_sign32 S kp m = Some sig" and u: "\<exists>outs. build outs = Some u"
    by (auto simp: sign_keypath_def bind_eq_Some_conv)
  have "length sig = 64" using sg assms(1) unfolding sign_laws_def by blast
  moreover obtain outs' where "u = ser_tx (t outs')" using u built_bytes_Some unfolding assms(4) by blast
  ultimately have "fst (finalize_signed_tx alloc out u sig)" using finalize_signed_result(2) assms(2) by blast
  then show ?thesis by (simp add: assms(3) finalize_prepared_def)
qed

lemma penalty_signed:
  assumes "secp_lengths E" and "ec_homomorphic K" and "holds_revocation K ch n p"
    and "channel_derive_revocation_pubkey (sha256 E) K (local_revocation_basepoint ch) p = Some R"
    and "xonly_from_pubkey E R = Some (x, par)" and "tree x = Some root" and "length root = 32"
    and "tapscript_tweak_pubkey E x root = Some (q, par')" and "penalty_signs E K S ch n"
    and "penalty_outputs fr va vp amount [] anchor \<noteq> None" and "\<And>outs. build outs \<noteq> None" and "\<And>n. alloc n"
  shows "\<exists>priv u sig. penalty_keys (sha256 E) K ch n = Some (p, priv)
    \<and> sign_keypath alloc E K S priv tree (keypath_only_spk E (local_payment_basepoint ch))
        (\<lambda>dest. penalty_outputs fr va vp amount dest anchor) build spk amount = Some (u, sig)"
proof -
  let ?tw = "sha256_tagged (sha256 E) ''TapTweak'' (xonly_serialize E x @ root)"
  from assms(9) obtain dest pcp priv kp where d: "keypath_only_spk E (local_payment_basepoint ch) = Some dest"
    and k: "penalty_keys (sha256 E) K ch n = Some (pcp, priv)" and kp: "keypair_create S priv = Some kp"
    and tw: "\<And>R x b t. ec_pubkey_create K priv = Some R \<Longrightarrow> xonly_from_pubkey E R = Some (x, b) \<Longrightarrow> xonly_tweak_add E x t \<noteq> None \<Longrightarrow>
      \<exists>tkp. keypair_xonly_tweak_add S kp t = Some tkp \<and> (\<forall>m. schnorrsig_sign32 S tkp m \<noteq> None)"
    unfolding penalty_signs_def by (elim conjE exE) (metis option.exhaust)
  have pcp: "pcp = p" and R: "ec_pubkey_create K priv = Some R"
    using penalty_keys_revocation[OF assms(2,1,3) k] assms(4) by auto
  have "xonly_tweak_add E x ?tw \<noteq> None" using assms(7,8) by (auto simp: tapscript_tweak_pubkey_def Let_def split: option.splits)
  from tw[OF R assms(5) this] obtain tkp where t: "keypair_xonly_tweak_add S kp ?tw = Some tkp"
    and sg: "\<And>m. schnorrsig_sign32 S tkp m \<noteq> None" by blast
  obtain outs where o: "penalty_outputs fr va vp amount dest anchor = Some outs"
    using assms(10) by (auto simp: penalty_outputs_def Let_def split: if_splits)
  obtain u where u: "build outs = Some u" using assms(11)[of outs] by (elim not_None_eq[THEN iffD1, THEN exE])
  obtain m where m: "compute_taproot_sighash alloc (sha256 E) u 0 spk amount 0xFFFFFFFD = Some m"
    using assms(12) by (simp add: compute_taproot_sighash_def Let_def)
  obtain sig where "schnorrsig_sign32 S tkp m = Some sig"
    using sg[of m] by (elim not_None_eq[THEN iffD1, THEN exE])
  then have "sign_keypath alloc E K S priv tree (keypath_only_spk E (local_payment_basepoint ch))
        (\<lambda>dest. penalty_outputs fr va vp amount dest anchor) build spk amount = Some (u, sig)"
    using R assms(5,6) kp t d o u m by (simp add: sign_keypath_def)
  with k pcp show ?thesis by blast
qed

text \<open>The shape of every key-path penalty: a valid spend when it is built, and built when nothing fails.\<close>

lemma revocation_penalty:
  fixes E :: "('pk, 'xo, 'ca) secp" and K :: "'pk ec_ops" and S :: "'kp sign_ops" and ch :: "'pk channel"
  defines "f \<equiv> \<lambda>alloc out priv tree build amount q anchor. finalize_prepared alloc out (sign_keypath alloc E K S priv tree
      (keypath_only_spk E (local_payment_basepoint ch))
      (\<lambda>dest. penalty_outputs (fee_rate_sat_per_kvb ch) 165 152 amount dest anchor) build (build_p2tr_script_pubkey E q) amount)"
  assumes "secp_lengths E" and "ec_homomorphic K" and "sign_laws E K S pub verify" and "length txid = 32"
    and "holds_revocation K ch n p"
    and "channel_derive_revocation_pubkey (sha256 E) K (local_revocation_basepoint ch) p = Some R"
    and "xonly_from_pubkey E R = Some (x, par)" and "tree x = Some root" and "length root = 32"
    and "tapscript_tweak_pubkey E x root = Some (q, par')"
    and "\<And>outs. build outs = built_bytes (built alloc (sha256 E) buf True
          (one_input_tx v \<lparr>prev_txid = txid, prev_vout = vout, nsequence = 0xFFFFFFFD\<rparr> outs 0))"
    and "\<And>pcp priv. penalty_keys (sha256 E) K ch n = Some (pcp, priv) \<Longrightarrow> r = f alloc out priv tree build amount q anchor"
    and "penalty_keys (sha256 E) K ch n = None \<Longrightarrow> \<not> fst r"
  shows "(fst r \<longrightarrow> (\<exists>t sig dest. buf_data (snd r) = ser_segwit t [[sig]]
             \<and> tx_ins t = [\<lparr>prev_txid = txid, prev_vout = vout, nsequence = 0xFFFFFFFD\<rparr>]
             \<and> keypath_only_spk E (local_payment_basepoint ch) = Some dest
             \<and> penalty_outputs (fee_rate_sat_per_kvb ch) 165 152 amount dest anchor = Some (tx_outs t)
             \<and> keypath_valid verify (sha256 E) t (build_p2tr_script_pubkey E q) amount sig))
       \<and> (penalty_signs E K S ch n \<longrightarrow> (\<forall>k. alloc k) \<longrightarrow>
            penalty_outputs (fee_rate_sat_per_kvb ch) 165 152 amount [] anchor \<noteq> None \<longrightarrow> fst r)"
proof (intro conjI impI)
  assume ok: "fst r"
  with assms(14) obtain pcp priv where k: "penalty_keys (sha256 E) K ch n = Some (pcp, priv)" by fastforce
  have f: "f alloc out priv tree build amount q anchor = (True, snd r)" using ok unfolding assms(13)[OF k, symmetric] by (simp add: prod_eq_iff)
  from revocation_spend[OF assms(2-11) k assms(12) f[unfolded f_def]]
  show "\<exists>t sig dest. buf_data (snd r) = ser_segwit t [[sig]]
      \<and> tx_ins t = [\<lparr>prev_txid = txid, prev_vout = vout, nsequence = 0xFFFFFFFD\<rparr>]
      \<and> keypath_only_spk E (local_payment_basepoint ch) = Some dest
      \<and> penalty_outputs (fee_rate_sat_per_kvb ch) 165 152 amount dest anchor = Some (tx_outs t)
      \<and> keypath_valid verify (sha256 E) t (build_p2tr_script_pubkey E q) amount sig" by blast
next
  assume tot: "penalty_signs E K S ch n" and al: "\<forall>k. alloc k"
    and enough: "penalty_outputs (fee_rate_sat_per_kvb ch) 165 152 amount [] anchor \<noteq> None"
  have b: "build outs \<noteq> None" for outs unfolding assms(12) by (rule built_bytes_total) (use al in simp)
  obtain priv u sig where k: "penalty_keys (sha256 E) K ch n = Some (p, priv)"
    and s: "sign_keypath alloc E K S priv tree (keypath_only_spk E (local_payment_basepoint ch))
      (\<lambda>dest. penalty_outputs (fee_rate_sat_per_kvb ch) 165 152 amount dest anchor) build (build_p2tr_script_pubkey E q) amount = Some (u, sig)"
    using penalty_signed[where tree = tree and build = build and alloc = alloc, OF assms(2,3,6-11) tot enough b] al by blast
  show "fst r" unfolding assms(13)[OF k] f_def
    by (rule finalize_prepared_total[OF assms(4) _ s assms(12)]) (use al in simp)
qed

text \<open>C5: Justice.  Let the peer publish a revoked commitment, one we built for it and signed while the
  channel was in state \<open>old\<close>.  If we hold its revocation secret, the penalty transaction the
  code builds spends the peer's to-local output with a signature the network accepts for
  exactly that output and amount, paying what is left after the fee to our own key; and
  when memory suffices, the library derives and signs with the revocation key and the amount covers fee and dust,
  it is built.\<close>

theorem penalty_spends_revoked_to_local:
  fixes E :: "('pk, 'xo, 'ca) secp" and K :: "'pk ec_ops" and S :: "'kp sign_ops" and ch :: "'pk channel"
  assumes "secp_lengths E" and "ec_homomorphic K" and "sign_laws E K S pub verify" and "length txid = 32"
    and "commitment_outputs E K (remote_view old) p = Some outs" and "same_terms old ch" and "holds_revocation K ch n p"
    and "r = channel_build_penalty_tx alloc E K S ch out txid 0 (amount_sats (outs ! 0)) (script_pubkey (outs ! 0)) n anchor"
  shows "(fst r \<longrightarrow> (\<exists>t sig dest. buf_data (snd r) = ser_segwit t [[sig]]
             \<and> tx_ins t = [\<lparr>prev_txid = txid, prev_vout = 0, nsequence = 0xFFFFFFFD\<rparr>]
             \<and> keypath_only_spk E (local_payment_basepoint ch) = Some dest
             \<and> penalty_outputs (fee_rate_sat_per_kvb ch) 165 152 (remote_amount old) dest anchor = Some (tx_outs t)
             \<and> keypath_valid verify (sha256 E) t (script_pubkey (outs ! 0)) (remote_amount old) sig))
       \<and> (penalty_signs E K S ch n \<longrightarrow> (\<forall>k. alloc k) \<longrightarrow>
            penalty_outputs (fee_rate_sat_per_kvb ch) 165 152 (remote_amount old) [] anchor \<noteq> None \<longrightarrow> fst r)"
proof -
  have rv: "remote_revocation_basepoint (remote_view old) = local_revocation_basepoint ch"
    "local_delayed_payment_basepoint (remote_view old) = remote_delayed_payment_basepoint ch"
    "to_self_delay (remote_view old) = to_self_delay ch" "use_revocation_leaf (remote_view old) = use_revocation_leaf ch"
    "local_amount (remote_view old) = remote_amount old"
    using assms(6) by (simp_all add: remote_view_def same_terms_def)
  from commitment_to_local[OF assms(5), unfolded rv] obtain R x par D y par' root q par'' where c:
    "channel_derive_revocation_pubkey (sha256 E) K (local_revocation_basepoint ch) p = Some R" "xonly_from_pubkey E R = Some (x, par)"
    "channel_derive_pubkey (sha256 E) K (remote_delayed_payment_basepoint ch) p = Some D" "xonly_from_pubkey E D = Some (y, par')"
    "to_local_root E (to_self_delay ch) (use_revocation_leaf ch) x y = Some root" "tapscript_tweak_pubkey E x root = Some (q, par'')"
    and o: "outs ! 0 = \<lparr>amount_sats = remote_amount old, script_pubkey = build_p2tr_script_pubkey E q\<rparr>" .
  have r: "penalty_keys (sha256 E) K ch n = Some (pcp, priv) \<Longrightarrow> r = finalize_prepared alloc out (sign_keypath alloc E K S priv
      (\<lambda>rvk. to_local_root E (to_self_delay ch) (use_revocation_leaf ch) rvk y) (keypath_only_spk E (local_payment_basepoint ch))
      (\<lambda>dest. penalty_outputs (fee_rate_sat_per_kvb ch) 165 152 (remote_amount old) dest anchor)
      (\<lambda>outputs. built_bytes (build_unsigned_tx_v alloc (sha256 E) (tx_buf_init alloc 256) True txid 0 0xFFFFFFFD outputs 3))
      (build_p2tr_script_pubkey E q) (remote_amount old))" for pcp priv
    using penalty_keys_revocation(1)[OF assms(2,1,7)] c(3,4) unfolding assms(8) o channel_build_penalty_tx_def by simp
  have none: "penalty_keys (sha256 E) K ch n = None \<Longrightarrow> \<not> fst r"
    unfolding assms(8) channel_build_penalty_tx_def by (simp add: finalize_prepared_def)
  show ?thesis unfolding o
    using revocation_penalty[OF assms(1-4,7) c(1,2) _ to_local_root_length[OF assms(1) c(5)] c(6) build_v_built_bytes[OF assms(4)] r
        none] c(5) by simp
qed

text \<open>Keys and signatures over bytes: a pair is its public key, and a signature names its key.\<close>

definition sample_sign :: "u8 sign_ops" where
  "sample_sign = \<lparr>keypair_create = (\<lambda>s. Some (hd s)), keypair_xonly_tweak_add = (\<lambda>kp t. Some (kp + hd t)),
     schnorrsig_sign32 = (\<lambda>kp m. Some (replicate 64 kp))\<rparr>"

definition sample_verify :: "bytes \<Rightarrow> bytes \<Rightarrow> bytes \<Rightarrow> bool" where
  "sample_verify key m sig \<longleftrightarrow> sig = replicate 64 (hd key)"

definition sample_revoked :: "u8 channel" where
  "sample_revoked = sample_channel\<lparr>received_revocations := [None, Some (replicate 32 21)], local_amount := 90000, remote_amount := 110000\<rparr>"

lemma sample_sign_laws [simp]: "sign_laws sample_secp8 sample_ec sample_sign id sample_verify"
  by (simp add: sign_laws_def sample_sign_def sample_verify_def sample_secp8_def)

lemma sample_privkeys [simp]:
  "\<exists>k. channel_derive_privkey sha sample_ec s p = Some k" "\<exists>k. channel_derive_revocation_privkey sha sample_ec s s' q p = Some k"
  by (simp_all add: channel_derive_privkey_def channel_derive_revocation_privkey_def sample_ec_def Let_def)

lemma sample_penalty_signs:
  assumes "holds_revocation sample_ec ch n p"
  shows "penalty_signs sample_secp8 sample_ec sample_sign ch n"
proof -
  obtain secret where s: "channel_get_received_revocation ch n = Some secret" "ec_pubkey_create sample_ec secret = Some p"
    using assms by (auto simp: holds_revocation_def)
  obtain priv where "channel_derive_revocation_privkey (sha256 sample_secp8) sample_ec (local_revocation_basepoint_secret ch) secret
      (local_revocation_basepoint ch) p = Some priv" using sample_privkeys(2) by blast
  with s have "penalty_keys (sha256 sample_secp8) sample_ec ch n = Some (p, priv)" by (simp add: penalty_keys_def)
  then show ?thesis by (simp add: penalty_signs_def keypath_only_spk_def sample_sign_def)
qed

lemma sample_revoked_held [simp]: "same_terms sample_channel sample_revoked" "holds_revocation sample_ec sample_revoked 1 21"
  by (simp_all add: same_terms_def holds_revocation_def sample_revoked_def sample_channel_def channel_get_received_revocation_def)

theorem penalty_spends_revoked_to_local_witness:
  "\<exists>outs t sig. commitment_outputs sample_secp8 sample_ec (remote_view sample_channel) 21 = Some outs
     \<and> buf_data (snd (channel_build_penalty_tx (\<lambda>_. True) sample_secp8 sample_ec sample_sign sample_revoked
         (tx_buf_init (\<lambda>_. True) 0) (replicate 32 5) 0 (amount_sats (outs ! 0)) (script_pubkey (outs ! 0)) 1 None)) = ser_segwit t [[sig]]
     \<and> keypath_valid sample_verify (sha256 sample_secp8) t (script_pubkey (outs ! 0)) 100000 sig"
proof -
  have "htlcs (remote_view sample_channel) = []" "ptlcs (remote_view sample_channel) = []"
    by (simp_all add: remote_view_def sample_channel_def)
  then obtain outs where o: "commitment_outputs sample_secp8 sample_ec (remote_view sample_channel) 21 = Some outs"
    using sample_outputs by blast
  have a: "remote_amount sample_channel = 100000" "fee_rate_sat_per_kvb sample_revoked = 1000"
    by (simp_all add: sample_channel_def sample_revoked_def)
  have l: "length (replicate 32 5 :: bytes) = 32" by simp
  have "penalty_outputs 1000 165 152 100000 [] None \<noteq> None"
    by (simp add: penalty_outputs_def CHANNEL_DUST_LIMIT_SATS_def)
  then show ?thesis
    using penalty_spends_revoked_to_local[OF sample_secp8_lengths sample_ec_homomorphic sample_sign_laws l o
        sample_revoked_held refl, of "\<lambda>_. True" "tx_buf_init (\<lambda>_. True) 0" None, unfolded a] o
      sample_penalty_signs[OF sample_revoked_held(2)] by blast
qed

end
