(* ===== verification/Script.thy ===== *)
theory Script
  imports Tapscript
begin

text \<open>
  What the leaf scripts of \<^verbatim>\<open>src/tapscript.c\<close> enforce.  The specification is the fragment of the
  tapscript interpreter (BIPs 65, 112, 119, 341 and 342) that their opcodes need, executed on
  the script bytes the builders emit; every other opcode fails here.  The theorem gives,
  for each HTLC leaf, exactly the witness stacks that satisfy it.
\<close>

section \<open>The interpreter\<close>

text \<open>What a script sees of the spending transaction: version, lock time and sequence number of the
  input, the digest function, and signature checking against the message of this input.\<close>

record script_ctx =
  ctx_version :: u32
  ctx_locktime :: u32
  ctx_sequence :: u32
  ctx_sha256 :: "bytes \<Rightarrow> bytes"
  ctx_check :: "bytes \<Rightarrow> bytes \<Rightarrow> bool"

definition cltv_ok :: "script_ctx \<Rightarrow> int \<Rightarrow> bool" where
  "cltv_ok c n \<longleftrightarrow>
     0 \<le> n \<and> (n < 500000000 \<longleftrightarrow> uint (ctx_locktime c) < 500000000) \<and> n \<le> uint (ctx_locktime c)
     \<and> ctx_sequence c \<noteq> 0xFFFFFFFF"

definition csv_ok :: "script_ctx \<Rightarrow> int \<Rightarrow> bool" where
  "csv_ok c n \<longleftrightarrow>
     0 \<le> n \<and> (bit n 31 \<or>
       2 \<le> ctx_version c \<and> \<not> bit (uint (ctx_sequence c)) 31
       \<and> (n AND 0x40FFFF < 0x400000 \<longleftrightarrow> uint (ctx_sequence c) AND 0x40FFFF < 0x400000)
       \<and> n AND 0x40FFFF \<le> uint (ctx_sequence c) AND 0x40FFFF)"

definition num_bytes :: "nat \<Rightarrow> bytes" where
  "num_bytes n =
     (if n = 0 then []
      else let t = scriptnum_loop (of_nat n) in if last t AND 0x80 \<noteq> 0 then t @ [0] else t)"

definition lock_operand :: "bytes \<Rightarrow> int option" where
  "lock_operand x = (if length x \<le> 5 \<and> scriptnum_minimal x then Some (scriptnum_value x) else None)"

definition check_sig :: "script_ctx \<Rightarrow> bytes \<Rightarrow> bytes \<Rightarrow> bytes option" where
  "check_sig c key sig =
     (if key = [] then None
      else if sig = [] then Some []
      else if length key = 32 then (if ctx_check c key sig then Some [1] else None)
      else Some [1])"

definition exec_op :: "script_ctx \<Rightarrow> u8 \<Rightarrow> bytes list \<Rightarrow> bytes list option" where
  "exec_op c opc st =
     (if opc = 0x75 then (case st of x # s \<Rightarrow> Some s | _ \<Rightarrow> None)
      else if opc = 0x82 then (case st of x # s \<Rightarrow> Some (num_bytes (length x) # st) | _ \<Rightarrow> None)
      else if opc = 0x87 then (case st of x # y # s \<Rightarrow> Some ((if x = y then [1] else []) # s) | _ \<Rightarrow> None)
      else if opc = 0x88 then (case st of x # y # s \<Rightarrow> if x = y then Some s else None | _ \<Rightarrow> None)
      else if opc = 0xa8 then (case st of x # s \<Rightarrow> Some (ctx_sha256 c x # s) | _ \<Rightarrow> None)
      else if opc = 0xac then
        (case st of key # sig # s \<Rightarrow> map_option (\<lambda>r. r # s) (check_sig c key sig) | _ \<Rightarrow> None)
      else if opc = 0xb1 then
        (case st of x # s \<Rightarrow> (case lock_operand x of Some n \<Rightarrow> if cltv_ok c n then Some st else None | None \<Rightarrow> None) | _ \<Rightarrow> None)
      else if opc = 0xb2 then
        (case st of x # s \<Rightarrow> (case lock_operand x of Some n \<Rightarrow> if csv_ok c n then Some st else None | None \<Rightarrow> None) | _ \<Rightarrow> None)
      else None)"

function exec :: "script_ctx \<Rightarrow> bytes \<Rightarrow> bytes list \<Rightarrow> bytes list option" where
  "exec c [] st = Some st"
| "exec c (opc # r) st =
     (if opc \<le> 0x4b then
        (if length r < unat opc then None else exec c (drop (unat opc) r) (take (unat opc) r # st))
      else if 0x51 \<le> opc \<and> opc \<le> 0x60 then exec c r ([opc - 0x50] # st)
      else case exec_op c opc st of None \<Rightarrow> None | Some st' \<Rightarrow> exec c r st')"
  by pat_completeness auto
termination by (relation "measure (\<lambda>(c, s, st). length s)") auto

declare exec.simps(2) [simp del]

definition script_true :: "bytes \<Rightarrow> bool" where
  "script_true x \<longleftrightarrow> (\<exists>b\<in>set (butlast x). b \<noteq> 0) \<or> (x \<noteq> [] \<and> last x \<noteq> 0 \<and> last x \<noteq> 0x80)"

text \<open>A witness, first item first, satisfies a leaf when the run ends with one true item.\<close>

definition leaf_satisfied :: "script_ctx \<Rightarrow> tapscript_leaf \<Rightarrow> bytes list \<Rightarrow> bool" where
  "leaf_satisfied c leaf witness \<longleftrightarrow>
     (case exec c (leaf_script leaf) (rev witness) of Some [x] \<Rightarrow> script_true x | _ \<Rightarrow> False)"

section \<open>Runs of the leaf scripts\<close>

lemma exec_push:
  "length d = 32 \<Longrightarrow> exec c (0x20 # d @ r) st = exec c r (d # st)"
  by (subst exec.simps) simp

lemma exec_opcode:
  "opc \<in> {0x75, 0x82, 0x87, 0x88, 0xa8, 0xac, 0xb1, 0xb2} \<Longrightarrow>
   exec c (opc # r) st = (case exec_op c opc st of None \<Rightarrow> None | Some st' \<Rightarrow> exec c r st')"
  by (subst exec.simps) auto

lemma exec_data:
  "opc \<le> 0x4b \<Longrightarrow> unat opc \<le> length r \<Longrightarrow> exec c (opc # r) st = exec c (drop (unat opc) r) (take (unat opc) r # st)"
  by (subst exec.simps) simp

lemma exec_small_int:
  "0x51 \<le> opc \<Longrightarrow> opc \<le> 0x60 \<Longrightarrow> exec c (opc # r) st = exec c r ([opc - 0x50] # st)"
  by (subst exec.simps) (simp add: word_le_nat_alt)

lemma low_byte:
  assumes "unat (w :: u8) < 128" and "unat w \<noteq> 0"
  shows "w AND 0x80 = 0" and "w AND 0x7f \<noteq> 0"
proof -
  have "\<not> bit (unat w) 7" using assms(1) by (simp add: bit_iff_odd)
  then have "\<not> bit w 7" by (simp add: bit_unsigned_iff)
  then show h: "w AND 0x80 = 0" using and_exp_eq_0_iff_not_bit[of w 7] by simp
  show "w AND 0x7f \<noteq> 0" using high_bit_u8[OF h] assms(2) by auto
qed

lemma push_number_exec:
  assumes "push_number bs = Some (n, r)"
  shows "\<exists>d. exec c bs st = exec c r (d # st) \<and> lock_operand d = Some n"
proof -
  obtain opc rest where bs: "bs = opc # rest" using assms by (cases bs) (auto simp: push_number_def)
  consider (zero) "opc = 0" "n = 0" "r = rest"
    | (small) "opc \<noteq> 0" "0x51 \<le> opc" "opc \<le> 0x60" "n = uint opc - 0x50" "r = rest"
    | (data) "opc \<noteq> 0" "opc \<le> 5" "unat opc \<le> length rest" "scriptnum_minimal (take (unat opc) rest)"
        "n = scriptnum_value (take (unat opc) rest)" "r = drop (unat opc) rest"
  proof -
    let ?d = "take (unat opc) rest"
    have e: "(if opc = 0 then Some (0, rest) else if 0x51 \<le> opc \<and> opc \<le> 0x60 then Some (uint opc - 0x50, rest)
        else if opc \<le> 5 \<and> unat opc \<le> length rest then
          (if scriptnum_minimal ?d \<and> \<not> (unat opc = 1 \<and> (?d ! 0 \<le> 16 \<or> ?d ! 0 = 0x81))
           then Some (scriptnum_value ?d, drop (unat opc) rest) else None) else None) = Some (n, r)"
      using assms unfolding bs push_number_def list.case Let_def .
    show thesis using e zero small data by (metis option.distinct(1) option.inject prod.inject)
  qed
  then show ?thesis
  proof cases
    case zero
    then show ?thesis using exec_data[of opc rest c st]
      by (auto simp: bs lock_operand_def scriptnum_minimal_def scriptnum_value_def intro!: exI[of _ "[]"])
  next
    case small
    have "0x50 \<le> opc" using small(2) by (simp add: word_le_nat_alt)
    from unat_minus_nowrap[OF this] have u: "unat (opc - 0x50) = unat opc - 0x50" by simp
    have b: "0x51 \<le> unat opc" "unat opc \<le> 0x60" using small by (simp_all add: word_le_nat_alt)
    have m: "(opc - 0x50) AND 0x80 = 0" "(opc - 0x50) AND 0x7f \<noteq> 0"
      using low_byte[of "opc - 0x50"] u b by simp_all
    have "uint (opc - 0x50) = n" unfolding small(4) uint_nat u using b(1) by linarith
    with m show ?thesis unfolding bs exec_small_int[OF small(2,3)] small(5)
      by (auto simp: lock_operand_def scriptnum_minimal_def scriptnum_value_def intro!: exI[of _ "[opc - 0x50]"])
  next
    case data
    have "opc \<le> 0x4b" using data(2) by (simp add: word_le_nat_alt)
    from exec_data[OF this data(3)] data show ?thesis
      by (auto simp: bs lock_operand_def word_le_nat_alt intro!: exI[of _ "take (unat opc) rest"])
  qed
qed

lemma exec_lock:
  assumes "opc = 0xb1 \<or> opc = 0xb2"
  shows "exec c (encode_scriptnum v @ opc # 0x75 # r) st =
    (if (if opc = 0xb1 then cltv_ok c (uint v) else csv_ok c (uint v)) then exec c r st else None)"
proof -
  obtain d where d: "exec c (encode_scriptnum v @ opc # 0x75 # r) st = exec c (opc # 0x75 # r) (d # st)"
    and n: "lock_operand d = Some (uint v)"
    using push_number_exec[OF push_number_encode_scriptnum[of v "opc # 0x75 # r"]] by blast
  show ?thesis unfolding d using assms n by (auto simp: exec_opcode exec_op_def)
qed

lemmas exec_cltv = exec_lock[of "0xb1", simplified] and exec_csv = exec_lock[of "0xb2", simplified]

lemma exec_checksig:
  "length key = 32 \<Longrightarrow>
   exec c (0x20 # key @ [0xac]) st =
     (case st of sig # s \<Rightarrow> if sig = [] then Some ([] # s) else if ctx_check c key sig then Some ([1] # s) else None | [] \<Rightarrow> None)"
  by (auto simp: exec_push exec_opcode exec_op_def check_sig_def split: list.splits)

lemma num_bytes_32: "num_bytes n = [0x20] \<longleftrightarrow> n = 32" if "n < 2 ^ 32"
proof
  assume e: "num_bytes n = [0x20]"
  then have n: "n \<noteq> 0" by (cases "n = 0") (simp_all add: num_bytes_def)
  let ?t = "scriptnum_loop (of_nat n)"
  have "?t = [0x20]"
    using e n by (auto simp: num_bytes_def Let_def split: if_splits)
  then have "le_value ?t = 32" by simp
  then show "n = 32" using that by (simp add: le_value_scriptnum_loop unat_of_nat)
next
  assume "n = 32"
  moreover have "scriptnum_loop 32 = [0x20]" by (simp add: scriptnum_loop.simps)
  ultimately show "num_bytes n = [0x20]" by (simp add: num_bytes_def)
qed

lemma exec_hashlock:
  assumes "length h = 32"
  shows "exec c ([0x82, 0x01, 0x20, 0x88, 0xa8, 0x20] @ h @ 0x88 # r) st =
    (case st of pre # s \<Rightarrow> if num_bytes (length pre) = [0x20] \<and> ctx_sha256 c pre = h then exec c r s else None | [] \<Rightarrow> None)"
proof -
  have one: "exec c (0x01 # 0x20 # r) st = exec c r ([0x20] # st)" for r st by (subst exec.simps) simp
  show ?thesis by (auto simp: exec_opcode exec_op_def one exec_push[OF assms] split: list.splits)
qed

section \<open>Exactly who can spend\<close>

lemma satisfied_checksig:
  assumes "length key = 32"
  shows "(case exec c (0x20 # key @ [0xac]) st of Some [x] \<Rightarrow> script_true x | _ \<Rightarrow> False) \<longleftrightarrow>
    (\<exists>sig. st = [sig] \<and> sig \<noteq> [] \<and> ctx_check c key sig)"
  by (auto simp: exec_checksig[OF assms] script_true_def split: list.splits if_splits)

lemma rev_singleton: "(rev w = [x]) = (w = [x])" and rev_pair: "(rev w = [x, y]) = (w = [y, x])"
  by (cases w rule: rev_cases; auto)+

lemma secp_len [simp]: "secp_lengths E \<Longrightarrow> length (xonly_serialize E k) = 32"
  by (simp add: secp_lengths_def)

lemmas leaf_run_simps = leaf_satisfied_def leaf_builder_defs exec_cltv exec_csv satisfied_checksig rev_singleton

lemma satisfied_timeout_leaves:
  assumes "secp_lengths E"
  shows "leaf_satisfied c (tapscript_build_htlc_offered_timeout E cltv delay k) w \<longleftrightarrow>
      (\<exists>sig. w = [sig] \<and> sig \<noteq> [] \<and> ctx_check c (xonly_serialize E k) sig) \<and> cltv_ok c (uint cltv) \<and> csv_ok c (uint delay)"
    and "leaf_satisfied c (tapscript_build_htlc_received_timeout E cltv k) w \<longleftrightarrow>
      (\<exists>sig. w = [sig] \<and> sig \<noteq> [] \<and> ctx_check c (xonly_serialize E k) sig) \<and> cltv_ok c (uint cltv)"
    and "leaf_satisfied c (tapscript_build_csv_delay E delay k) w \<longleftrightarrow>
      (\<exists>sig. w = [sig] \<and> sig \<noteq> [] \<and> ctx_check c (xonly_serialize E k) sig) \<and> csv_ok c (uint delay)"
    and "leaf_satisfied c (tapscript_build_revocation_checksig E k) w \<longleftrightarrow>
      (\<exists>sig. w = [sig] \<and> sig \<noteq> [] \<and> ctx_check c (xonly_serialize E k) sig)"
  using assms by (simp_all add: leaf_run_simps)

lemma satisfied_after_hashlock:
  assumes "length h = 32" and "\<forall>x\<in>set w. length x < 2 ^ 32"
    and "\<And>st. (case exec c r st of Some [x] \<Rightarrow> script_true x | _ \<Rightarrow> False) \<longleftrightarrow> P st"
  shows "(case exec c ([0x82, 0x01, 0x20, 0x88, 0xa8, 0x20] @ h @ 0x88 # r) (rev w) of Some [x] \<Rightarrow> script_true x | _ \<Rightarrow> False)
    \<longleftrightarrow> (\<exists>v pre. w = v @ [pre] \<and> length pre = 32 \<and> ctx_sha256 c pre = h \<and> P (rev v))"
proof (cases w rule: rev_cases)
  case Nil
  then show ?thesis by (simp add: exec_hashlock[OF assms(1), simplified])
next
  case (snoc v pre)
  have "num_bytes (length pre) = [0x20] \<longleftrightarrow> length pre = 32" using assms(2) snoc by (intro num_bytes_32) simp
  then show ?thesis using assms(3)[of "rev v"] by (auto simp: snoc exec_hashlock[OF assms(1), simplified])
qed

lemma satisfied_success_leaves:
  assumes "secp_lengths E" and "length hash = 32" and "\<forall>x\<in>set w. length x < 2 ^ 32"
  shows "leaf_satisfied c (tapscript_build_htlc_offered_success E hash k) w \<longleftrightarrow>
      (\<exists>sig pre. w = [sig, pre] \<and> length pre = 32 \<and> ctx_sha256 c pre = hash \<and> sig \<noteq> [] \<and> ctx_check c (xonly_serialize E k) sig)"
    and "leaf_satisfied c (tapscript_build_htlc_received_success E hash delay k) w \<longleftrightarrow>
      (\<exists>sig pre. w = [sig, pre] \<and> length pre = 32 \<and> ctx_sha256 c pre = hash \<and> sig \<noteq> [] \<and> ctx_check c (xonly_serialize E k) sig
         \<and> csv_ok c (uint delay))"
proof -
  have h: "take 32 hash = hash" and k: "length (xonly_serialize E k) = 32" using assms(1,2) by simp_all
  have d: "(case exec c (encode_scriptnum delay @ 0xb2 # 0x75 # 0x20 # xonly_serialize E k @ [0xac]) st of
        Some [x] \<Rightarrow> script_true x | _ \<Rightarrow> False)
      \<longleftrightarrow> csv_ok c (uint delay) \<and> (\<exists>sig. st = [sig] \<and> sig \<noteq> [] \<and> ctx_check c (xonly_serialize E k) sig)" for st
    by (simp add: exec_csv satisfied_checksig[OF k])
  have "leaf_satisfied c (tapscript_build_htlc_offered_success E hash k) w \<longleftrightarrow>
      (\<exists>v pre. w = v @ [pre] \<and> length pre = 32 \<and> ctx_sha256 c pre = hash
         \<and> (\<exists>sig. rev v = [sig] \<and> sig \<noteq> [] \<and> ctx_check c (xonly_serialize E k) sig))"
    using satisfied_after_hashlock[OF assms(2,3) satisfied_checksig[OF k]]
    by (simp add: leaf_satisfied_def leaf_builder_defs h)
  then show "leaf_satisfied c (tapscript_build_htlc_offered_success E hash k) w \<longleftrightarrow>
      (\<exists>sig pre. w = [sig, pre] \<and> length pre = 32 \<and> ctx_sha256 c pre = hash \<and> sig \<noteq> [] \<and> ctx_check c (xonly_serialize E k) sig)"
    by (auto simp: rev_singleton)
  have "leaf_satisfied c (tapscript_build_htlc_received_success E hash delay k) w \<longleftrightarrow>
      (\<exists>v pre. w = v @ [pre] \<and> length pre = 32 \<and> ctx_sha256 c pre = hash \<and> csv_ok c (uint delay)
         \<and> (\<exists>sig. rev v = [sig] \<and> sig \<noteq> [] \<and> ctx_check c (xonly_serialize E k) sig))"
    using satisfied_after_hashlock[OF assms(2,3) d] by (simp add: leaf_satisfied_def leaf_builder_defs h)
  then show "leaf_satisfied c (tapscript_build_htlc_received_success E hash delay k) w \<longleftrightarrow>
      (\<exists>sig pre. w = [sig, pre] \<and> length pre = 32 \<and> ctx_sha256 c pre = hash \<and> sig \<noteq> [] \<and> ctx_check c (xonly_serialize E k) sig
         \<and> csv_ok c (uint delay))"
    by (auto simp: rev_singleton)
qed

text \<open>C8: HTLC outputs enforce the contract.  Run on the interpreter, the four HTLC leaves are
  satisfied by exactly these witnesses: the success leaves by a valid signature of their key
  and a 32-byte preimage of the payment hash (on the broadcaster's own claim also only after
  the relative delay), the timeout leaves by a valid signature of their key in a transaction
  whose lock time has reached the expiry (on the broadcaster's own claim also after the
  delay).  No other stack, of any size below the consensus limit, passes.\<close>

theorem htlc_leaves_enforce_contract:
  assumes "secp_lengths E" and "length hash = 32" and "\<forall>x\<in>set w. length x < 2 ^ 32"
  shows "(leaf_satisfied c (tapscript_build_htlc_offered_success E hash k) w \<longleftrightarrow>
           (\<exists>sig pre. w = [sig, pre] \<and> length pre = 32 \<and> ctx_sha256 c pre = hash
              \<and> sig \<noteq> [] \<and> ctx_check c (xonly_serialize E k) sig))
    \<and> (leaf_satisfied c (tapscript_build_htlc_received_success E hash delay k) w \<longleftrightarrow>
           (\<exists>sig pre. w = [sig, pre] \<and> length pre = 32 \<and> ctx_sha256 c pre = hash
              \<and> sig \<noteq> [] \<and> ctx_check c (xonly_serialize E k) sig \<and> csv_ok c (uint delay)))
    \<and> (leaf_satisfied c (tapscript_build_htlc_offered_timeout E cltv delay k) w \<longleftrightarrow>
           (\<exists>sig. w = [sig] \<and> sig \<noteq> [] \<and> ctx_check c (xonly_serialize E k) sig
              \<and> cltv_ok c (uint cltv) \<and> csv_ok c (uint delay)))
    \<and> (leaf_satisfied c (tapscript_build_htlc_received_timeout E cltv k) w \<longleftrightarrow>
           (\<exists>sig. w = [sig] \<and> sig \<noteq> [] \<and> ctx_check c (xonly_serialize E k) sig \<and> cltv_ok c (uint cltv)))"
  using satisfied_success_leaves[OF assms] satisfied_timeout_leaves[OF assms(1)] by auto

theorem htlc_leaves_enforce_contract_witness:
  "leaf_satisfied \<lparr>ctx_version = 2, ctx_locktime = 0, ctx_sequence = 144, ctx_sha256 = (\<lambda>_. replicate 32 9), ctx_check = (\<lambda>_ _. True)\<rparr>
     (tapscript_build_htlc_received_success sample_secp (replicate 32 9) 144 [1]) [[7], replicate 32 3]
   \<and> \<not> leaf_satisfied \<lparr>ctx_version = 2, ctx_locktime = 0, ctx_sequence = 144, ctx_sha256 = (\<lambda>_. replicate 32 9), ctx_check = (\<lambda>_ _. True)\<rparr>
     (tapscript_build_htlc_offered_timeout sample_secp 500 144 [1]) [[7], replicate 32 3]"
proof -
  let ?c = "\<lparr>ctx_version = 2, ctx_locktime = 0, ctx_sequence = 144, ctx_sha256 = (\<lambda>_. replicate 32 9), ctx_check = (\<lambda>_ _. True)\<rparr>"
  have csv: "csv_ok ?c (uint (144 :: u32))" by (simp add: csv_ok_def bit_iff_odd)
  have w: "\<forall>x\<in>set [[7], replicate 32 (3 :: u8)]. length x < 2 ^ 32" by simp
  from htlc_leaves_enforce_contract[OF sample_secp_lengths _ w, of "replicate 32 9" ?c "[1]" 144 500] csv show ?thesis by simp
qed

end
