(* ===== verification/Resolution.thy ===== *)
theory Resolution
  imports Penalty Script
begin

text \<open>
  Claiming HTLC and PTLC outputs of our own commitment, \<^verbatim>\<open>src/channel.c\<close>: the success and timeout
  transactions, judged by the interpreter of the theory Script, and the penalties for the
  HTLC outputs of a revoked commitment.  As in the code the HTLC index is the caller's to
  keep in range.  The PTLC builders hand a buffer to the transaction builder that was
  never initialised; its content is an argument of the model.
\<close>

section \<open>Model\<close>

definition channel_rebuild_htlc_leaves ::
  "('pk, 'xo, 'ca) secp \<Rightarrow> 'pk ec_ops \<Rightarrow> 'pk channel \<Rightarrow> nat \<Rightarrow> u64 \<Rightarrow> ((tapscript_leaf \<times> tapscript_leaf) \<times> 'xo) option" where
  "channel_rebuild_htlc_leaves E K ch htlc_index commit_num = do {
     let h = htlcs ch ! htlc_index;
     pcp \<leftarrow> channel_get_per_commitment_point K ch commit_num;
     revocation_pubkey \<leftarrow> channel_derive_revocation_pubkey (sha256 E) K (remote_revocation_basepoint ch) pcp;
     (revocation_xonly, _) \<leftarrow> xonly_from_pubkey E revocation_pubkey;
     (local_htlc_xonly, remote_htlc_xonly) \<leftarrow> htlc_keys E K ch pcp;
     Some (htlc_leaf_pair E (to_self_delay ch) local_htlc_xonly remote_htlc_xonly (direction h = HTLC_OFFERED)
             (payment_hash h) (cltv_expiry h), revocation_xonly) }"

text \<open>The single output of a claim, at 180 virtual bytes, or nothing when it would be dust.\<close>

definition claim_output :: "('pk, 'xo, 'ca) secp \<Rightarrow> 'pk channel \<Rightarrow> u64 \<Rightarrow> tx_output option" where
  "claim_output E ch amount = do {
     dest_spk \<leftarrow> keypath_only_spk E (local_payment_basepoint ch);
     let fee = (fee_rate_sat_per_kvb ch * 180 + 999) div 1000;
     let out_amount = (if amount > fee then amount - fee else 0);
     if out_amount < CHANNEL_DUST_LIMIT_SATS then None
     else Some \<lparr>amount_sats = out_amount, script_pubkey = dest_spk\<rparr> }"

definition claim_signature ::
  "('pk, 'xo, 'ca) secp \<Rightarrow> 'pk ec_ops \<Rightarrow> 'kp sign_ops \<Rightarrow> 'pk channel \<Rightarrow> bytes \<Rightarrow> bytes option" where
  "claim_signature E K S ch sighash = do {
     pcp \<leftarrow> channel_get_per_commitment_point K ch (commitment_number ch);
     signing_key \<leftarrow> channel_derive_privkey (sha256 E) K (local_htlc_basepoint_secret ch) pcp;
     kp \<leftarrow> keypair_create S signing_key;
     schnorrsig_sign32 S kp sighash }"

definition claim_control_block ::
  "('pk, 'xo, 'ca) secp \<Rightarrow> 'xo \<Rightarrow> tapscript_leaf \<times> tapscript_leaf \<Rightarrow> tapscript_leaf \<Rightarrow> bytes option" where
  "claim_control_block E revocation_xonly leaves sibling = do {
     merkle \<leftarrow> tapscript_merkle_root E [fst leaves, snd leaves];
     (_, output_parity) \<leftarrow> tapscript_tweak_pubkey E revocation_xonly merkle;
     Some (tapscript_build_control_block_2leaf E output_parity revocation_xonly sibling) }"

definition channel_build_htlc_success_tx ::
  "(nat \<Rightarrow> bool) \<Rightarrow> ('pk, 'xo, 'ca) secp \<Rightarrow> 'pk ec_ops \<Rightarrow> 'kp sign_ops \<Rightarrow> 'pk channel \<Rightarrow> tx_buf \<Rightarrow> bytes \<Rightarrow> u32 \<Rightarrow> u64 \<Rightarrow> bytes
   \<Rightarrow> nat \<Rightarrow> bool \<times> tx_buf" where
  "channel_build_htlc_success_tx alloc E K S ch out commitment_txid htlc_vout amount htlc_spk htlc_index =
     (let h = htlcs ch ! htlc_index;
          nseq = (if direction h = HTLC_RECEIVED then to_self_delay ch else 0xFFFFFFFD)
      in case do {
        ((success_leaf, timeout_leaf), revocation_xonly) \<leftarrow> channel_rebuild_htlc_leaves E K ch htlc_index (commitment_number ch);
        output \<leftarrow> claim_output E ch amount;
        unsigned_tx \<leftarrow> built_bytes (build_unsigned_tx alloc (sha256 E) (tx_buf_init alloc 256) True commitment_txid htlc_vout
          nseq [output]);
        sig64 \<leftarrow> claim_signature E K S ch
          (compute_tapscript_sighash (sha256 E) unsigned_tx 0 htlc_spk amount nseq success_leaf);
        control_block \<leftarrow> claim_control_block E revocation_xonly (success_leaf, timeout_leaf) timeout_leaf;
        Some (finalize_script_path_tx_preimage alloc out unsigned_tx sig64 (payment_preimage h) (leaf_script success_leaf)
                control_block) }
      of None \<Rightarrow> (False, out) | Some b \<Rightarrow> (True, b))"

definition channel_build_htlc_timeout_tx ::
  "(nat \<Rightarrow> bool) \<Rightarrow> ('pk, 'xo, 'ca) secp \<Rightarrow> 'pk ec_ops \<Rightarrow> 'kp sign_ops \<Rightarrow> 'pk channel \<Rightarrow> tx_buf \<Rightarrow> bytes \<Rightarrow> u32 \<Rightarrow> u64 \<Rightarrow> bytes
   \<Rightarrow> nat \<Rightarrow> bool \<times> tx_buf" where
  "channel_build_htlc_timeout_tx alloc E K S ch out commitment_txid htlc_vout amount htlc_spk htlc_index =
     (let h = htlcs ch ! htlc_index;
          nseq = (if direction h = HTLC_OFFERED then to_self_delay ch else 0xFFFFFFFD)
      in case do {
        ((success_leaf, timeout_leaf), revocation_xonly) \<leftarrow> channel_rebuild_htlc_leaves E K ch htlc_index (commitment_number ch);
        output \<leftarrow> claim_output E ch amount;
        unsigned_tx \<leftarrow> built_bytes (build_unsigned_tx_locktime alloc (sha256 E) (tx_buf_init alloc 256) True commitment_txid
          htlc_vout nseq (cltv_expiry h) [output]);
        sig64 \<leftarrow> claim_signature E K S ch
          (compute_tapscript_sighash (sha256 E) unsigned_tx 0 htlc_spk amount nseq timeout_leaf);
        control_block \<leftarrow> claim_control_block E revocation_xonly (success_leaf, timeout_leaf) success_leaf;
        Some (finalize_script_path_tx alloc out unsigned_tx sig64 (leaf_script timeout_leaf) control_block) }
      of None \<Rightarrow> (False, out) | Some b \<Rightarrow> (True, b))"

definition channel_rebuild_ptlc_leaves ::
  "('pk, 'xo, 'ca) secp \<Rightarrow> 'pk ec_ops \<Rightarrow> 'pk channel \<Rightarrow> nat \<Rightarrow> u64 \<Rightarrow> ((tapscript_leaf \<times> tapscript_leaf) \<times> 'xo) option" where
  "channel_rebuild_ptlc_leaves E K ch ptlc_index commit_num =
     (if ptlc_index \<ge> length (ptlcs ch) then None
      else do {
        let p = ptlcs ch ! ptlc_index;
        pcp \<leftarrow> channel_get_per_commitment_point K ch commit_num;
        revocation_pubkey \<leftarrow> channel_derive_revocation_pubkey (sha256 E) K (remote_revocation_basepoint ch) pcp;
        (revocation_xonly, _) \<leftarrow> xonly_from_pubkey E revocation_pubkey;
        (local_xonly, remote_xonly) \<leftarrow> htlc_keys E K ch pcp;
        (pp_xonly, _) \<leftarrow> xonly_from_pubkey E (payment_point p);
        Some (htlc_leaf_pair E (to_self_delay ch) local_xonly remote_xonly (ptlc_dir p = PTLC_OFFERED)
                (xonly_serialize E pp_xonly) (ptlc_expiry p), revocation_xonly) })"

definition channel_build_ptlc_success_tx ::
  "(nat \<Rightarrow> bool) \<Rightarrow> ('pk, 'xo, 'ca) secp \<Rightarrow> 'pk ec_ops \<Rightarrow> 'kp sign_ops \<Rightarrow> 'pk channel \<Rightarrow> tx_buf \<Rightarrow> tx_buf \<Rightarrow> bytes \<Rightarrow> u32 \<Rightarrow> u64
   \<Rightarrow> bytes \<Rightarrow> nat \<Rightarrow> bool \<times> tx_buf" where
  "channel_build_ptlc_success_tx alloc E K S ch uninit out commitment_txid ptlc_vout amount ptlc_spk ptlc_index =
     (if ptlc_index \<ge> length (ptlcs ch) then (False, out)
      else let p = ptlcs ch ! ptlc_index;
               nseq = (if ptlc_dir p = PTLC_RECEIVED then to_self_delay ch else 0xFFFFFFFD)
      in case do {
        ((success_leaf, timeout_leaf), revocation_xonly) \<leftarrow> channel_rebuild_ptlc_leaves E K ch ptlc_index (commitment_number ch);
        output \<leftarrow> claim_output E ch amount;
        unsigned_tx \<leftarrow> built_bytes (build_unsigned_tx_v alloc (sha256 E) uninit True commitment_txid ptlc_vout nseq [output] 3);
        sig64 \<leftarrow> claim_signature E K S ch
          (compute_tapscript_sighash (sha256 E) unsigned_tx 0 ptlc_spk amount nseq success_leaf);
        control_block \<leftarrow> claim_control_block E revocation_xonly (success_leaf, timeout_leaf) timeout_leaf;
        Some (finalize_script_path_tx alloc out unsigned_tx sig64 (leaf_script success_leaf) control_block) }
      of None \<Rightarrow> (False, out) | Some b \<Rightarrow> (True, b))"

definition channel_build_ptlc_timeout_tx ::
  "(nat \<Rightarrow> bool) \<Rightarrow> ('pk, 'xo, 'ca) secp \<Rightarrow> 'pk ec_ops \<Rightarrow> 'kp sign_ops \<Rightarrow> 'pk channel \<Rightarrow> tx_buf \<Rightarrow> tx_buf \<Rightarrow> bytes \<Rightarrow> u32 \<Rightarrow> u64
   \<Rightarrow> bytes \<Rightarrow> nat \<Rightarrow> bool \<times> tx_buf" where
  "channel_build_ptlc_timeout_tx alloc E K S ch uninit out commitment_txid ptlc_vout amount ptlc_spk ptlc_index =
     (if ptlc_index \<ge> length (ptlcs ch) then (False, out)
      else let p = ptlcs ch ! ptlc_index;
               nseq = (if ptlc_dir p = PTLC_OFFERED then to_self_delay ch else 0xFFFFFFFD)
      in case do {
        ((success_leaf, timeout_leaf), revocation_xonly) \<leftarrow> channel_rebuild_ptlc_leaves E K ch ptlc_index (commitment_number ch);
        output \<leftarrow> claim_output E ch amount;
        unsigned_tx \<leftarrow> built_bytes (build_unsigned_tx_v alloc (sha256 E) uninit True commitment_txid ptlc_vout nseq [output] 3);
        sig64 \<leftarrow> claim_signature E K S ch
          (compute_tapscript_sighash (sha256 E) unsigned_tx 0 ptlc_spk amount nseq timeout_leaf);
        control_block \<leftarrow> claim_control_block E revocation_xonly (success_leaf, timeout_leaf) success_leaf;
        Some (finalize_script_path_tx alloc out unsigned_tx sig64 (leaf_script timeout_leaf) control_block) }
      of None \<Rightarrow> (False, out) | Some b \<Rightarrow> (True, b))"

section \<open>Script-path spends as the network checks them\<close>

definition leaf_ctx ::
  "(bytes \<Rightarrow> bytes \<Rightarrow> bytes \<Rightarrow> bool) \<Rightarrow> ('pk, 'xo, 'ca) secp \<Rightarrow> tx \<Rightarrow> bytes \<Rightarrow> u64 \<Rightarrow> bytes \<Rightarrow> script_ctx" where
  "leaf_ctx verify E t spk amount script =
     \<lparr>ctx_version = tx_version t, ctx_locktime = tx_locktime t, ctx_sequence = nsequence (hd (tx_ins t)), ctx_sha256 = sha256 E,
      ctx_check = (\<lambda>key sig. verify key
        (sha256_tagged (sha256 E) ''TapSighash'' (bip342_msg (sha256 E) t 0 [(spk, amount)] (bip341_leaf E script))) sig)\<rparr>"

definition scriptpath_valid ::
  "(bytes \<Rightarrow> bytes \<Rightarrow> bytes \<Rightarrow> bool) \<Rightarrow> ('pk, 'xo, 'ca) secp \<Rightarrow> tx \<Rightarrow> bytes \<Rightarrow> u64 \<Rightarrow> bytes list \<Rightarrow> bytes \<Rightarrow> bytes \<Rightarrow> bool" where
  "scriptpath_valid verify E t spk amount stack script cb \<longleftrightarrow>
     script_path_opens E spk script cb
     \<and> leaf_satisfied (leaf_ctx verify E t spk amount script) (tapscript_compute_leaf_hash E script) stack"

text \<open>The buffer holds a claim of the given outpoint with the given items after the signature.\<close>

definition claims ::
  "(bytes \<Rightarrow> bytes \<Rightarrow> bytes \<Rightarrow> bool) \<Rightarrow> ('pk, 'xo, 'ca) secp \<Rightarrow> tx_buf \<Rightarrow> tx_input \<Rightarrow> u32 \<Rightarrow> tx_output \<Rightarrow> tx_output \<Rightarrow> bytes list \<Rightarrow> bool" where
  "claims verify E b i lt spent output items \<longleftrightarrow>
     (\<exists>v sig script cb. buf_data b = ser_segwit (one_input_tx v i [output] lt) [sig # items @ [script, cb]]
        \<and> scriptpath_valid verify E (one_input_tx v i [output] lt) (script_pubkey spent) (amount_sats spent) (sig # items) script cb)"

section \<open>HTLC outputs of a commitment\<close>

lemma htlc_outputs_nth:
  "htlc_outputs E d rvk lx rx hs = Some outs \<Longrightarrow>
   list_all (\<lambda>h. hstate h = HTLC_STATE_ACTIVE \<and> CHANNEL_DUST_LIMIT_SATS \<le> htlc_amount h) hs \<Longrightarrow>
   length outs = length hs \<and> (\<forall>i<length hs. amount_sats (outs ! i) = htlc_amount (hs ! i)
     \<and> two_leaf_spk E rvk (htlc_leaf_pair E d lx rx (direction (hs ! i) = HTLC_OFFERED) (payment_hash (hs ! i)) (cltv_expiry (hs ! i)))
         = Some (script_pubkey (outs ! i)))"
proof (induction hs arbitrary: outs)
  case (Cons h hs)
  then obtain spk rest where r: "outs = \<lparr>amount_sats = htlc_amount h, script_pubkey = spk\<rparr> # rest"
    "htlc_outputs E d rvk lx rx hs = Some rest"
    "two_leaf_spk E rvk (htlc_leaf_pair E d lx rx (direction h = HTLC_OFFERED) (payment_hash h) (cltv_expiry h)) = Some spk"
    by (auto simp: bind_eq_Some_conv not_less[symmetric])
  then show ?case using Cons.IH[OF r(2)] Cons.prems(2) by (auto simp: nth_Cons less_Suc_eq_0_disj split: nat.split)
qed simp

lemma commitment_htlc_output:
  assumes "commitment_outputs E K ch p = Some outs" and "i < length (htlcs ch)"
    and "list_all (\<lambda>h. hstate h = HTLC_STATE_ACTIVE \<and> CHANNEL_DUST_LIMIT_SATS \<le> htlc_amount h) (htlcs ch)"
  obtains R rvk par lx rx root q par' where
    "channel_derive_revocation_pubkey (sha256 E) K (remote_revocation_basepoint ch) p = Some R"
    "xonly_from_pubkey E R = Some (rvk, par)" "htlc_keys E K ch p = Some (lx, rx)"
    "tapscript_merkle_root E [fst (htlc_leaf_pair E (to_self_delay ch) lx rx (direction (htlcs ch ! i) = HTLC_OFFERED)
          (payment_hash (htlcs ch ! i)) (cltv_expiry (htlcs ch ! i))),
        snd (htlc_leaf_pair E (to_self_delay ch) lx rx (direction (htlcs ch ! i) = HTLC_OFFERED)
          (payment_hash (htlcs ch ! i)) (cltv_expiry (htlcs ch ! i)))] = Some root"
    "tapscript_tweak_pubkey E rvk root = Some (q, par')"
    "outs ! (2 + i) = \<lparr>amount_sats = htlc_amount (htlcs ch ! i), script_pubkey = build_p2tr_script_pubkey E q\<rparr>"
proof -
  have "n_active_htlcs (htlcs ch) > 0"
    using assms(2,3) by (auto simp: n_active_htlcs_def filter_empty_conv list_all_iff dest!: nth_mem)
  then obtain R rvk par lx rx o0 o1 ho po where c:
    "channel_derive_revocation_pubkey (sha256 E) K (remote_revocation_basepoint ch) p = Some R"
    "xonly_from_pubkey E R = Some (rvk, par)" "htlc_keys E K ch p = Some (lx, rx)"
    "htlc_outputs E (to_self_delay ch) rvk lx rx (htlcs ch) = Some ho" "outs = o0 # o1 # ho @ po"
    using assms(1) unfolding commitment_outputs_def by (auto simp: bind_eq_Some_conv split: if_splits)
  note n = htlc_outputs_nth[OF c(4) assms(3)]
  have o: "outs ! (2 + i) = ho ! i" using n assms(2) by (simp add: c(5) nth_append)
  from n assms(2) have a: "amount_sats (ho ! i) = htlc_amount (htlcs ch ! i)"
    and s: "two_leaf_spk E rvk (htlc_leaf_pair E (to_self_delay ch) lx rx (direction (htlcs ch ! i) = HTLC_OFFERED)
          (payment_hash (htlcs ch ! i)) (cltv_expiry (htlcs ch ! i))) = Some (script_pubkey (ho ! i))" by auto
  from s obtain root q par' where "tapscript_merkle_root E [fst (htlc_leaf_pair E (to_self_delay ch) lx rx (direction (htlcs ch ! i) = HTLC_OFFERED)
          (payment_hash (htlcs ch ! i)) (cltv_expiry (htlcs ch ! i))),
        snd (htlc_leaf_pair E (to_self_delay ch) lx rx (direction (htlcs ch ! i) = HTLC_OFFERED)
          (payment_hash (htlcs ch ! i)) (cltv_expiry (htlcs ch ! i)))] = Some root" "tapscript_tweak_pubkey E rvk root = Some (q, par')"
    "script_pubkey (ho ! i) = build_p2tr_script_pubkey E q"
    by (auto simp: two_leaf_spk_def bind_eq_Some_conv)
  with that[OF c(1-3)] a show thesis unfolding o by (metis tx_output.surjective old.unit.exhaust)
qed

section \<open>Claims on our own commitment\<close>

lemma leaf_pair_compute:
  assumes "secp_lengths E" and "htlc_leaf_pair E d lx rx off hash cl = (sleaf, tleaf)"
  shows "tapscript_compute_leaf_hash E (leaf_script sleaf) = sleaf" "length (leaf_script sleaf) < 253"
    "tapscript_compute_leaf_hash E (leaf_script tleaf) = tleaf" "length (leaf_script tleaf) < 253"
proof -
  have n: "length (encode_scriptnum cl) \<le> 6" "length (encode_scriptnum d) \<le> 6" by (rule length_encode_scriptnum)+
  have m: "min (length hash) 32 \<le> 32" by (rule min.cobounded2)
  show "tapscript_compute_leaf_hash E (leaf_script sleaf) = sleaf" "length (leaf_script sleaf) < 253"
    "tapscript_compute_leaf_hash E (leaf_script tleaf) = tleaf" "length (leaf_script tleaf) < 253"
    using assms n m by (auto simp: htlc_leaf_pair_def leaf_builder_defs split: if_splits)
qed

lemma claim_opens:
  assumes "secp_lengths E" and "htlc_leaf_pair E d lx rx off hash cl = (sleaf, tleaf)"
    and "tapscript_merkle_root E [sleaf, tleaf] = Some root" and "tapscript_tweak_pubkey E rvk root = Some (q, par)"
  shows "claim_control_block E rvk (sleaf, tleaf) tleaf = Some cb \<Longrightarrow>
           script_path_opens E (build_p2tr_script_pubkey E q) (leaf_script sleaf) cb"
    and "claim_control_block E rvk (sleaf, tleaf) sleaf = Some cb \<Longrightarrow>
           script_path_opens E (build_p2tr_script_pubkey E q) (leaf_script tleaf) cb"
proof -
  note s = leaf_pair_compute[OF assms(1,2)]
  note b = two_leaf_both_open[OF assms(1) s(2,4), unfolded s(1,3), OF assms(3,4)]
  show "claim_control_block E rvk (sleaf, tleaf) tleaf = Some cb \<Longrightarrow>
      script_path_opens E (build_p2tr_script_pubkey E q) (leaf_script sleaf) cb"
    "claim_control_block E rvk (sleaf, tleaf) sleaf = Some cb \<Longrightarrow>
      script_path_opens E (build_p2tr_script_pubkey E q) (leaf_script tleaf) cb"
    using b assms(3,4) by (auto simp: claim_control_block_def)
qed

definition holds_htlc_key :: "'pk ec_ops \<Rightarrow> 'pk channel \<Rightarrow> bool" where
  "holds_htlc_key K ch \<longleftrightarrow> length (local_htlc_basepoint_secret ch) = 32
     \<and> ec_pubkey_create K (local_htlc_basepoint_secret ch) = Some (local_htlc_basepoint ch)"

lemma claim_signed:
  assumes "secp_lengths E" and "ec_homomorphic K" and "sign_laws E K S pub verify" and "holds_htlc_key K ch"
    and "channel_get_per_commitment_point K ch (commitment_number ch) = Some p" and "htlc_keys E K ch p = Some (lx, rx)"
    and "claim_signature E K S ch m = Some sig"
  shows "length sig = 64 \<and> verify (xonly_serialize E lx) m sig"
proof -
  obtain key kp where k: "channel_derive_privkey (sha256 E) K (local_htlc_basepoint_secret ch) p = Some key"
    "keypair_create S key = Some kp" "schnorrsig_sign32 S kp m = Some sig"
    using assms(5,7) by (auto simp: claim_signature_def bind_eq_Some_conv)
  have sh: "length (sha256 E x) = 32" for x using assms(1) by (simp add: secp_lengths_def)
  have h: "length (local_htlc_basepoint_secret ch) = 32"
    "ec_pubkey_create K (local_htlc_basepoint_secret ch) = Some (local_htlc_basepoint ch)"
    using assms(4) by (simp_all add: holds_htlc_key_def)
  obtain P where P: "ec_pubkey_create K key = Some P" "channel_derive_pubkey (sha256 E) K (local_htlc_basepoint ch) p = Some P"
    using derived_key_pair[OF assms(2) sh h k(1)] by blast
  obtain b where x: "xonly_from_pubkey E P = Some (lx, b)"
    using assms(6) P(2) by (auto simp: htlc_keys_def bind_eq_Some_conv)
  have "pub kp = P" using assms(3) k(2) P(1) unfolding sign_laws_def by blast
  with assms(3) k(3) x show ?thesis unfolding sign_laws_def by blast
qed

lemma csv_ok_self: "2 \<le> ctx_version c \<Longrightarrow> csv_ok c (uint (ctx_sequence c))"
  by (simp add: csv_ok_def)

lemma cltv_ok_self: "ctx_sequence c \<noteq> 0xFFFFFFFF \<Longrightarrow> cltv_ok c (uint (ctx_locktime c))"
  by (simp add: cltv_ok_def)

lemma build_unsigned_built:
  "length txid = 32 \<Longrightarrow> build_unsigned_tx alloc sha out w txid vout nseq outs =
     built alloc sha out w (one_input_tx 2 \<lparr>prev_txid = txid, prev_vout = vout, nsequence = nseq\<rparr> outs 0)"
  by (simp add: build_unsigned_tx_def build_locktime_built)

text \<open>The signature covers the transaction that carries it.\<close>

lemma claim_leaf_check:
  assumes "secp_lengths E" and "length txid = 32" and "leaf = tapscript_compute_leaf_hash E s" and "length s < 253"
    and "i = \<lparr>prev_txid = txid, prev_vout = vout, nsequence = nseq\<rparr>"
    and "verify key (compute_tapscript_sighash (sha256 E) (ser_tx (one_input_tx v i [output] lt)) 0 (build_p2tr_script_pubkey E q) amount nseq leaf) sig"
  shows "ctx_check (leaf_ctx verify E (one_input_tx v i [output] lt) (build_p2tr_script_pubkey E q) amount (leaf_script leaf)) key sig"
proof -
  have "compute_tapscript_sighash (sha256 E) (ser_tx (one_input_tx v i [output] lt)) 0 (build_p2tr_script_pubkey E q) amount (nsequence i) leaf
      = sha256_tagged (sha256 E) ''TapSighash'' (bip342_msg (sha256 E) (one_input_tx v i [output] lt) 0
          [(build_p2tr_script_pubkey E q, amount)] (leaf_hash leaf))"
    by (rule tapscript_sighash_msg) (use assms(1,2,5) in \<open>simp_all add: valid_input_def build_p2tr_script_pubkey_def\<close>)
  then show ?thesis using assms(3-6) by (simp add: leaf_ctx_def leaf_hash_bip341)
qed

lemma finalize_path_data:
  assumes "length sig = 64" and "\<And>n. alloc n"
  shows "buf_data (finalize_script_path_tx alloc out (ser_tx t) sig script cb) = ser_segwit t [[sig, script, cb]]"
    and "buf_data (finalize_script_path_tx_preimage alloc out (ser_tx t) sig pre script cb) = ser_segwit t [[sig, pre, script, cb]]"
  unfolding finalize_script_path_chunks[OF assms(1)]
  using writes_result buf_writes_total assms(2) by (simp_all add: concat_stack_chunks)

lemma built_bytes_Some_iff: "(\<And>n. alloc n) \<Longrightarrow> built_bytes (built alloc sha out w t) = Some (ser_tx t)"
  using built_bytes_total[of alloc sha out w t] built_bytes_Some[of alloc sha out w t] by auto

text \<open>The leaves the claims rebuild are those of the output.\<close>

lemma commitment_htlc_leaves:
  assumes "secp_lengths E" and "commitment_outputs E K ch p = Some outs" and "i < length (htlcs ch)" and "chan_inv T m ch"
    and "channel_get_per_commitment_point K ch (commitment_number ch) = Some p" and "h = htlcs ch ! i"
  obtains rvk lx rx sleaf tleaf cs ct q where "htlc_keys E K ch p = Some (lx, rx)"
    "htlc_leaf_pair E (to_self_delay ch) lx rx (direction h = HTLC_OFFERED) (payment_hash h) (cltv_expiry h) = (sleaf, tleaf)"
    "channel_rebuild_htlc_leaves E K ch i (commitment_number ch) = Some ((sleaf, tleaf), rvk)"
    "claim_control_block E rvk (sleaf, tleaf) tleaf = Some cs" "script_path_opens E (build_p2tr_script_pubkey E q) (leaf_script sleaf) cs"
    "claim_control_block E rvk (sleaf, tleaf) sleaf = Some ct" "script_path_opens E (build_p2tr_script_pubkey E q) (leaf_script tleaf) ct"
    "outs ! (2 + i) = \<lparr>amount_sats = htlc_amount h, script_pubkey = build_p2tr_script_pubkey E q\<rparr>"
proof -
  have act: "list_all (\<lambda>h. hstate h = HTLC_STATE_ACTIVE \<and> CHANNEL_DUST_LIMIT_SATS \<le> htlc_amount h) (htlcs ch)"
    using assms(4) by (auto simp: chan_inv_def all_active_def list_all_iff)
  obtain R rvk par lx rx root q par' where c:
    "channel_derive_revocation_pubkey (sha256 E) K (remote_revocation_basepoint ch) p = Some R"
    "xonly_from_pubkey E R = Some (rvk, par)" "htlc_keys E K ch p = Some (lx, rx)"
    and r: "tapscript_merkle_root E [fst (htlc_leaf_pair E (to_self_delay ch) lx rx (direction h = HTLC_OFFERED)
          (payment_hash h) (cltv_expiry h)), snd (htlc_leaf_pair E (to_self_delay ch) lx rx (direction h = HTLC_OFFERED)
          (payment_hash h) (cltv_expiry h))] = Some root"
    and t: "tapscript_tweak_pubkey E rvk root = Some (q, par')"
    and o: "outs ! (2 + i) = \<lparr>amount_sats = htlc_amount h, script_pubkey = build_p2tr_script_pubkey E q\<rparr>"
    using commitment_htlc_output[OF assms(2,3) act] unfolding assms(6)[symmetric] .
  obtain sleaf tleaf where p: "htlc_leaf_pair E (to_self_delay ch) lx rx (direction h = HTLC_OFFERED) (payment_hash h) (cltv_expiry h)
      = (sleaf, tleaf)" by (rule prod.exhaust)
  have r': "tapscript_merkle_root E [sleaf, tleaf] = Some root" using r by (simp add: p)
  have l: "channel_rebuild_htlc_leaves E K ch i (commitment_number ch) = Some ((sleaf, tleaf), rvk)"
    using assms(5,6) c p by (simp add: channel_rebuild_htlc_leaves_def)
  have cb: "claim_control_block E rvk (sleaf, tleaf) leaf = Some (tapscript_build_control_block_2leaf E par' rvk leaf)" for leaf
    using r' t by (simp add: claim_control_block_def)
  show thesis
    by (rule that[OF c(3) p l cb claim_opens(1)[OF assms(1) p r' t cb] cb claim_opens(2)[OF assms(1) p r' t cb] o])
qed

lemma claimsI:
  assumes "secp_lengths E" and "length txid = 32" and "i = \<lparr>prev_txid = txid, prev_vout = vout, nsequence = nseq\<rparr>"
    and "tapscript_compute_leaf_hash E (leaf_script leaf) = leaf" and "length (leaf_script leaf) < 253"
    and "script_path_opens E (build_p2tr_script_pubkey E q) (leaf_script leaf) cb"
    and "verify key (compute_tapscript_sighash (sha256 E) (ser_tx (one_input_tx v i [output] lt)) 0 (build_p2tr_script_pubkey E q) amount nseq leaf) sig"
    and "buf_data b = ser_segwit (one_input_tx v i [output] lt) [sig # items @ [leaf_script leaf, cb]]"
    and "\<And>c. ctx_version c = v \<Longrightarrow> ctx_locktime c = lt \<Longrightarrow> ctx_sequence c = nseq \<Longrightarrow> ctx_sha256 c = sha256 E \<Longrightarrow>
          ctx_check c key sig \<Longrightarrow> leaf_satisfied c leaf (sig # items)"
  shows "claims verify E b i lt \<lparr>amount_sats = amount, script_pubkey = build_p2tr_script_pubkey E q\<rparr> output items"
proof -
  let ?t = "one_input_tx v i [output] lt"
  let ?c = "leaf_ctx verify E ?t (build_p2tr_script_pubkey E q) amount (leaf_script leaf)"
  have "ctx_check ?c key sig" using assms(7)
    by (intro claim_leaf_check[OF assms(1,2) assms(4)[symmetric] assms(5,3), where verify = verify]) simp
  then have "leaf_satisfied ?c leaf (sig # items)" by (intro assms(9)) (simp_all add: leaf_ctx_def assms(3))
  then have "scriptpath_valid verify E ?t (build_p2tr_script_pubkey E q) amount (sig # items) (leaf_script leaf) cb"
    using assms(4,6) by (simp add: scriptpath_valid_def)
  with assms(8) show ?thesis unfolding claims_def by auto
qed

lemma success_claims:
  assumes "secp_lengths E" and "ec_homomorphic K" and "sign_laws E K S pub verify" and "length txid = 32"
    and "\<And>n. alloc n" and "chan_inv T m ch" and "i < length (htlcs ch)" and "h = htlcs ch ! i" and "holds_htlc_key K ch"
    and "channel_get_per_commitment_point K ch (commitment_number ch) = Some p" and "commitment_outputs E K ch p = Some outs"
    and "direction h = HTLC_RECEIVED" and "length (payment_preimage h) = 32" and "sha256 E (payment_preimage h) = payment_hash h"
    and "r = channel_build_htlc_success_tx alloc E K S ch out txid vout (amount_sats (outs ! (2 + i))) (script_pubkey (outs ! (2 + i))) i"
  shows "(fst r \<longrightarrow> (\<exists>output. claim_output E ch (htlc_amount h) = Some output
           \<and> claims verify E (snd r) \<lparr>prev_txid = txid, prev_vout = vout, nsequence = to_self_delay ch\<rparr> 0 (outs ! (2 + i)) output
               [payment_preimage h]))
       \<and> (claim_output E ch (htlc_amount h) \<noteq> None \<longrightarrow> (\<forall>m. claim_signature E K S ch m \<noteq> None) \<longrightarrow> fst r)"
proof -
  from commitment_htlc_leaves[OF assms(1,11,7,6,10,8)] obtain rvk lx rx sleaf tleaf cs ct q where
    k: "htlc_keys E K ch p = Some (lx, rx)"
    and l: "htlc_leaf_pair E (to_self_delay ch) lx rx (direction h = HTLC_OFFERED) (payment_hash h) (cltv_expiry h) = (sleaf, tleaf)"
    and rb: "channel_rebuild_htlc_leaves E K ch i (commitment_number ch) = Some ((sleaf, tleaf), rvk)"
    and cb: "claim_control_block E rvk (sleaf, tleaf) tleaf = Some cs" "script_path_opens E (build_p2tr_script_pubkey E q) (leaf_script sleaf) cs"
    and o: "outs ! (2 + i) = \<lparr>amount_sats = htlc_amount h, script_pubkey = build_p2tr_script_pubkey E q\<rparr>" .
  let ?i = "\<lparr>prev_txid = txid, prev_vout = vout, nsequence = to_self_delay ch\<rparr>"
  let ?t = "\<lambda>output. one_input_tx 2 ?i [output] 0" and ?spk = "build_p2tr_script_pubkey E q"
  let ?m = "\<lambda>output. compute_tapscript_sighash (sha256 E) (ser_tx (?t output)) 0 ?spk (htlc_amount h) (to_self_delay ch) sleaf"
  let ?b = "\<lambda>output sig. finalize_script_path_tx_preimage alloc out (ser_tx (?t output)) sig (payment_preimage h) (leaf_script sleaf) cs"
  have r: "r = (case claim_output E ch (htlc_amount h) of None \<Rightarrow> (False, out)
      | Some output \<Rightarrow> (case claim_signature E K S ch (?m output) of None \<Rightarrow> (False, out) | Some sig \<Rightarrow> (True, ?b output sig)))"
    using assms(5,8,12,15) rb cb(1) unfolding o
    by (simp add: channel_build_htlc_success_tx_def build_unsigned_built[OF assms(4)] built_bytes_Some_iff Let_def split: option.split)
  have hl: "length (payment_hash h) = 32" using assms(1) assms(14)[symmetric] by (simp add: secp_lengths_def)
  have sl: "sleaf = tapscript_build_htlc_received_success E (payment_hash h) (to_self_delay ch) lx"
    using l assms(12) by (simp add: htlc_leaf_pair_def)
  have valid: "claims verify E (?b paid sig) ?i 0 \<lparr>amount_sats = htlc_amount h, script_pubkey = ?spk\<rparr> paid [payment_preimage h]"
    if sg: "claim_signature E K S ch (?m paid) = Some sig" for paid sig
  proof -
    note v = claim_signed[OF assms(1-3,9,10) k sg]
    have w: "\<forall>x\<in>set [sig, payment_preimage h]. length x < 2 ^ 32" using v assms(13) by simp
    have sat: "leaf_satisfied c sleaf (sig # [payment_preimage h])"
      if "ctx_version c = 2" "ctx_sequence c = to_self_delay ch" "ctx_sha256 c = sha256 E" "ctx_check c (xonly_serialize E lx) sig" for c
      using satisfied_success_leaves(2)[OF assms(1) hl w] that csv_ok_self[of c] v assms(13,14) by (auto simp: sl)
    show ?thesis
      by (rule claimsI[where verify = verify, OF assms(1,4) refl leaf_pair_compute(1,2)[OF assms(1) l] cb(2) conjunct2[OF v]])
        (use finalize_path_data(2)[OF conjunct1[OF v] assms(5)] sat in simp_all)
  qed
  show ?thesis unfolding r o using valid by (auto split: option.splits)
qed

lemma timeout_claims:
  assumes "secp_lengths E" and "ec_homomorphic K" and "sign_laws E K S pub verify" and "length txid = 32"
    and "\<And>n. alloc n" and "chan_inv T m ch" and "i < length (htlcs ch)" and "h = htlcs ch ! i" and "holds_htlc_key K ch"
    and "channel_get_per_commitment_point K ch (commitment_number ch) = Some p" and "commitment_outputs E K ch p = Some outs"
    and "direction h = HTLC_OFFERED" and "to_self_delay ch \<noteq> 0xFFFFFFFF"
    and "r = channel_build_htlc_timeout_tx alloc E K S ch out txid vout (amount_sats (outs ! (2 + i))) (script_pubkey (outs ! (2 + i))) i"
  shows "(fst r \<longrightarrow> (\<exists>output. claim_output E ch (htlc_amount h) = Some output
           \<and> claims verify E (snd r) \<lparr>prev_txid = txid, prev_vout = vout, nsequence = to_self_delay ch\<rparr> (cltv_expiry h) (outs ! (2 + i))
               output []))
       \<and> (claim_output E ch (htlc_amount h) \<noteq> None \<longrightarrow> (\<forall>m. claim_signature E K S ch m \<noteq> None) \<longrightarrow> fst r)"
proof -
  from commitment_htlc_leaves[OF assms(1,11,7,6,10,8)] obtain rvk lx rx sleaf tleaf cs ct q where
    k: "htlc_keys E K ch p = Some (lx, rx)"
    and l: "htlc_leaf_pair E (to_self_delay ch) lx rx (direction h = HTLC_OFFERED) (payment_hash h) (cltv_expiry h) = (sleaf, tleaf)"
    and rb: "channel_rebuild_htlc_leaves E K ch i (commitment_number ch) = Some ((sleaf, tleaf), rvk)"
    and cb: "claim_control_block E rvk (sleaf, tleaf) sleaf = Some ct" "script_path_opens E (build_p2tr_script_pubkey E q) (leaf_script tleaf) ct"
    and o: "outs ! (2 + i) = \<lparr>amount_sats = htlc_amount h, script_pubkey = build_p2tr_script_pubkey E q\<rparr>" .
  let ?i = "\<lparr>prev_txid = txid, prev_vout = vout, nsequence = to_self_delay ch\<rparr>"
  let ?t = "\<lambda>output. one_input_tx 2 ?i [output] (cltv_expiry h)" and ?spk = "build_p2tr_script_pubkey E q"
  let ?m = "\<lambda>output. compute_tapscript_sighash (sha256 E) (ser_tx (?t output)) 0 ?spk (htlc_amount h) (to_self_delay ch) tleaf"
  let ?b = "\<lambda>output sig. finalize_script_path_tx alloc out (ser_tx (?t output)) sig (leaf_script tleaf) ct"
  have r: "r = (case claim_output E ch (htlc_amount h) of None \<Rightarrow> (False, out)
      | Some output \<Rightarrow> (case claim_signature E K S ch (?m output) of None \<Rightarrow> (False, out) | Some sig \<Rightarrow> (True, ?b output sig)))"
    using assms(5,8,12,14) rb cb(1) unfolding o
    by (simp add: channel_build_htlc_timeout_tx_def build_unsigned_tx_locktime_built[OF assms(4,5)] built_bytes_Some_iff Let_def
        split: option.split)
  have tl: "tleaf = tapscript_build_htlc_offered_timeout E (cltv_expiry h) (to_self_delay ch) lx"
    using l assms(12) by (simp add: htlc_leaf_pair_def)
  have valid: "claims verify E (?b paid sig) ?i (cltv_expiry h) \<lparr>amount_sats = htlc_amount h, script_pubkey = ?spk\<rparr> paid []"
    if sg: "claim_signature E K S ch (?m paid) = Some sig" for paid sig
  proof -
    note v = claim_signed[OF assms(1-3,9,10) k sg]
    have sat: "leaf_satisfied c tleaf (sig # [])"
      if "ctx_version c = 2" "ctx_locktime c = cltv_expiry h" "ctx_sequence c = to_self_delay ch" "ctx_check c (xonly_serialize E lx) sig" for c
      using satisfied_timeout_leaves(1)[OF assms(1)] that csv_ok_self[of c] cltv_ok_self[of c] v assms(13) by (auto simp: tl)
    show ?thesis
      by (rule claimsI[where verify = verify, OF assms(1,4) refl leaf_pair_compute(3,4)[OF assms(1) l] cb(2) conjunct2[OF v]])
        (use finalize_path_data(1)[OF conjunct1[OF v] assms(5)] sat in simp_all)
  qed
  show ?thesis unfolding r o using valid by (auto split: option.splits)
qed


text \<open>The sample channel with an offered and a received HTLC, the preimage of the latter known.\<close>

definition sample_claimant :: "u8 channel" where
  "sample_claimant = sample_local\<lparr>next_htlc_id := 2, local_amount := 97914,
     htlcs := [sample_htlc 0 500, (sample_htlc 1 600)\<lparr>direction := HTLC_RECEIVED, payment_hash := replicate 32 32\<rparr>]\<rparr>"

lemma sample_claim_signature:
  "channel_get_per_commitment_point sample_ec ch (commitment_number ch) = Some p \<Longrightarrow>
   \<exists>sig. claim_signature sample_secp8 sample_ec sample_sign ch m = Some sig"
proof -
  assume p: "channel_get_per_commitment_point sample_ec ch (commitment_number ch) = Some p"
  obtain k where "channel_derive_privkey (sha256 sample_secp8) sample_ec (local_htlc_basepoint_secret ch) p = Some k"
    using sample_privkeys(1) by blast
  with p show ?thesis by (simp add: claim_signature_def sample_sign_def)
qed


section \<open>HTLC outputs of a revoked commitment\<close>

lemma peer_htlc_root_leaves:
  assumes "htlc_keys E K (remote_view old) p = Some (lx, rx)" and "same_terms old ch" and "g = flip_htlc h"
    and "(sleaf, tleaf) = htlc_leaf_pair E (to_self_delay ch) lx rx (direction g = HTLC_OFFERED) (payment_hash g) (cltv_expiry g)"
  shows "peer_htlc_root E K ch p (direction h = HTLC_OFFERED) (payment_hash h) (cltv_expiry h) = tapscript_merkle_root E [sleaf, tleaf]"
  using assms by (cases "direction h")
    (auto simp: peer_htlc_root_def htlc_keys_def remote_view_def same_terms_def flip_htlc_def htlc_leaf_pair_def bind_eq_Some_conv)

lemma leaf_pair_hash_length:
  assumes "secp_lengths E"
  shows "length (leaf_hash (fst (htlc_leaf_pair E d lx rx off hash cl))) = 32" "length (leaf_hash (snd (htlc_leaf_pair E d lx rx off hash cl))) = 32"
  using assms by (simp_all add: htlc_leaf_pair_def leaf_builder_defs)

lemma build_v2_built_bytes:
  "length txid = 32 \<Longrightarrow> built_bytes (build_unsigned_tx alloc sha out w txid vout nseq outs) =
     built_bytes (built alloc sha out w (one_input_tx 2 \<lparr>prev_txid = txid, prev_vout = vout, nsequence = nseq\<rparr> outs 0))"
  by (simp add: build_unsigned_built)

text \<open>C10: Justice for HTLCs.  When a revoked commitment carries HTLCs, the HTLC penalty the code builds
  from our record of an HTLC spends its output on the peer's commitment, with a signature
  the network accepts for that output and amount, whichever side offered the HTLC; and it
  is built when memory suffices, the library derives and signs with the revocation key, and the amount covers fee
  and dust.\<close>

theorem htlc_penalty_spends_revoked_htlc:
  fixes E :: "('pk, 'xo, 'ca) secp" and K :: "'pk ec_ops" and S :: "'kp sign_ops" and ch :: "'pk channel"
  assumes "secp_lengths E" and "ec_homomorphic K" and "sign_laws E K S pub verify" and "length txid = 32"
    and "commitment_outputs E K (remote_view old) p = Some outs" and "same_terms old ch" and "holds_revocation K ch n p"
    and "chan_inv T m old" and "i < length (htlcs old)" and "htlcs ch ! k = htlcs old ! i" and "spent = outs ! (2 + i)"
    and "r = channel_build_htlc_penalty_tx alloc E K S ch out txid (of_nat (2 + i)) (amount_sats spent) (script_pubkey spent) n k anchor"
  shows "(fst r \<longrightarrow> (\<exists>t sig dest. buf_data (snd r) = ser_segwit t [[sig]]
             \<and> tx_ins t = [\<lparr>prev_txid = txid, prev_vout = of_nat (2 + i), nsequence = 0xFFFFFFFD\<rparr>]
             \<and> keypath_only_spk E (local_payment_basepoint ch) = Some dest
             \<and> penalty_outputs (fee_rate_sat_per_kvb ch) 165 152 (htlc_amount (htlcs old ! i)) dest anchor = Some (tx_outs t)
             \<and> keypath_valid verify (sha256 E) t (script_pubkey spent) (htlc_amount (htlcs old ! i)) sig))
       \<and> (penalty_signs E K S ch n \<longrightarrow> (\<forall>k. alloc k) \<longrightarrow>
            penalty_outputs (fee_rate_sat_per_kvb ch) 165 152 (htlc_amount (htlcs old ! i)) [] anchor \<noteq> None \<longrightarrow> fst r)"
proof -
  let ?h = "htlcs old ! i" and ?rv = "remote_view old"
  have rv: "remote_revocation_basepoint ?rv = local_revocation_basepoint ch" "to_self_delay ?rv = to_self_delay ch"
    "htlcs ?rv ! i = flip_htlc ?h" "htlc_amount (flip_htlc ?h) = htlc_amount ?h" "i < length (htlcs ?rv)"
    using assms(6,9) by (simp_all add: remote_view_def same_terms_def flip_htlc_def)
  have act: "list_all (\<lambda>h. hstate h = HTLC_STATE_ACTIVE \<and> CHANNEL_DUST_LIMIT_SATS \<le> htlc_amount h) (htlcs ?rv)"
    using assms(8) by (auto simp: chan_inv_def all_active_def list_all_iff remote_view_def flip_htlc_def)
  from commitment_htlc_output[OF assms(5) rv(5) act, unfolded rv(1-4)] obtain R x par lx rx root q par' where
    c: "channel_derive_revocation_pubkey (sha256 E) K (local_revocation_basepoint ch) p = Some R" "xonly_from_pubkey E R = Some (x, par)"
    and hk: "htlc_keys E K ?rv p = Some (lx, rx)"
    and m: "tapscript_merkle_root E [fst (htlc_leaf_pair E (to_self_delay ch) lx rx (direction (flip_htlc ?h) = HTLC_OFFERED)
          (payment_hash (flip_htlc ?h)) (cltv_expiry (flip_htlc ?h))), snd (htlc_leaf_pair E (to_self_delay ch) lx rx
          (direction (flip_htlc ?h) = HTLC_OFFERED) (payment_hash (flip_htlc ?h)) (cltv_expiry (flip_htlc ?h)))] = Some root"
    and t: "tapscript_tweak_pubkey E x root = Some (q, par')"
    and o: "spent = \<lparr>amount_sats = htlc_amount ?h, script_pubkey = build_p2tr_script_pubkey E q\<rparr>" unfolding assms(11) .
  have root: "peer_htlc_root E K ch p (direction ?h = HTLC_OFFERED) (payment_hash ?h) (cltv_expiry ?h) = Some root"
    unfolding peer_htlc_root_leaves[OF hk assms(6) refl prod.collapse] by (rule m)
  have len: "length root = 32" by (rule length_merkle_root[OF assms(1) _ m]) (use leaf_pair_hash_length[OF assms(1)] in simp)
  have r: "penalty_keys (sha256 E) K ch n = Some (pcp, priv) \<Longrightarrow> r = finalize_prepared alloc out (sign_keypath alloc E K S priv
      (\<lambda>_. Some root) (keypath_only_spk E (local_payment_basepoint ch))
      (\<lambda>dest. penalty_outputs (fee_rate_sat_per_kvb ch) 165 152 (htlc_amount ?h) dest anchor)
      (\<lambda>outputs. built_bytes (build_unsigned_tx alloc (sha256 E) (tx_buf_init alloc 256) True txid (of_nat (2 + i)) 0xFFFFFFFD outputs))
      (build_p2tr_script_pubkey E q) (htlc_amount ?h))" for pcp priv
    using penalty_keys_revocation(1)[OF assms(2,1,7)] root unfolding assms(12) o channel_build_htlc_penalty_tx_def
    by (simp add: assms(10) Let_def)
  have none: "penalty_keys (sha256 E) K ch n = None \<Longrightarrow> \<not> fst r"
    unfolding assms(12) channel_build_htlc_penalty_tx_def by (simp add: finalize_prepared_def)
  show ?thesis unfolding o
    using revocation_penalty[OF assms(1-4,7) c refl len t build_v2_built_bytes[OF assms(4)] r none] by simp
qed

definition sample_revoked_htlc :: "u8 channel" where
  "sample_revoked_htlc = sample_revoked\<lparr>htlcs := htlcs sample_claimant\<rparr>"

theorem htlc_penalty_spends_revoked_htlc_witness:
  "\<exists>outs t sig. commitment_outputs sample_secp8 sample_ec (remote_view sample_claimant) 21 = Some outs
     \<and> buf_data (snd (channel_build_htlc_penalty_tx (\<lambda>_. True) sample_secp8 sample_ec sample_sign sample_revoked_htlc
         (tx_buf_init (\<lambda>_. True) 0) (replicate 32 5) 3 (amount_sats (outs ! 3)) (script_pubkey (outs ! 3)) 1 1 None)) = ser_segwit t [[sig]]
     \<and> keypath_valid sample_verify (sha256 sample_secp8) t (script_pubkey (outs ! 3)) 1000 sig"
proof -
  have inv: "chan_inv 200000 0 sample_claimant" by (simp add: chan_inv_eval sample_claimant_def sample_local_def)
  have f: "same_terms sample_claimant sample_revoked_htlc" "holds_revocation sample_ec sample_revoked_htlc 1 21"
    "1 < length (htlcs sample_claimant)" "htlcs sample_revoked_htlc ! 1 = htlcs sample_claimant ! 1"
    and g: "htlc_amount (htlcs sample_claimant ! 1) = 1000" "fee_rate_sat_per_kvb sample_revoked_htlc = 1000"
    by (simp_all add: same_terms_def holds_revocation_def sample_revoked_htlc_def sample_revoked_def sample_claimant_def
        sample_local_def sample_channel_def sample_htlc_def channel_get_received_revocation_def)
  have "ptlcs (remote_view sample_claimant) = []"
    by (simp add: remote_view_def sample_claimant_def sample_local_def sample_channel_def)
  then obtain outs where o: "commitment_outputs sample_secp8 sample_ec (remote_view sample_claimant) 21 = Some outs"
    using sample_outputs by blast
  have l: "length (replicate 32 5 :: bytes) = 32" by simp
  have p: "penalty_outputs 1000 165 152 1000 [] None \<noteq> None" by (simp add: penalty_outputs_def CHANNEL_DUST_LIMIT_SATS_def)
  have two: "2 + 1 = (3 :: nat)" "of_nat 3 = (3 :: u32)" by simp_all
  note T = htlc_penalty_spends_revoked_htlc[OF sample_secp8_lengths sample_ec_homomorphic sample_sign_laws l o f(1,2) inv f(3,4) refl refl,
      of "\<lambda>_. True" "tx_buf_init (\<lambda>_. True) 0" None, unfolded g two]
  from T p sample_penalty_signs[OF f(2)] o show ?thesis by blast
qed

section \<open>PTLC outputs\<close>

lemma claim_signature_length: "sign_laws E K S pub verify \<Longrightarrow> claim_signature E K S ch m = Some sig \<Longrightarrow> length sig = 64"
  unfolding sign_laws_def claim_signature_def by (auto simp: bind_eq_Some_conv)

lemma finalize_path_written:
  assumes "length sig = 64" and "\<not> oom (finalize_script_path_tx alloc out (ser_tx t) sig script cb)"
  shows "buf_data (finalize_script_path_tx alloc out (ser_tx t) sig script cb) = ser_segwit t [[sig, script, cb]]"
  using assms(2) writes_result unfolding finalize_script_path_chunks[OF assms(1)] by (simp add: concat_stack_chunks)

lemma ptlc_leaves_Some:
  assumes "channel_rebuild_ptlc_leaves E K ch k n = Some ((sleaf, tleaf), rvk)"
  shows "\<exists>lx rx x. htlc_leaf_pair E (to_self_delay ch) lx rx (ptlc_dir (ptlcs ch ! k) = PTLC_OFFERED) (xonly_serialize E x)
    (ptlc_expiry (ptlcs ch ! k)) = (sleaf, tleaf)"
  using assms by (auto simp: channel_rebuild_ptlc_leaves_def Let_def bind_eq_Some_conv split: if_splits)

lemma leaf_pair_rejects:
  assumes "secp_lengths E" and "htlc_leaf_pair E d lx rx off (xonly_serialize E x) cl = (sleaf, tleaf)" and "length sig = 64"
  shows "\<not> leaf_satisfied c sleaf [sig]"
    and "ctx_locktime c = 0 \<Longrightarrow> 0 < cl \<Longrightarrow> \<not> leaf_satisfied c tleaf [sig]"
proof -
  have w: "\<forall>x\<in>set [sig]. length x < 2 ^ 32" using assms(3) by simp
  show "\<not> leaf_satisfied c sleaf [sig]"
    using assms(2) satisfied_success_leaves[OF assms(1) length_xonly[OF assms(1)] w] by (auto simp: htlc_leaf_pair_def split: if_splits)
  assume "ctx_locktime c = 0" "0 < cl"
  then have "\<not> cltv_ok c (uint cl)" by (simp add: cltv_ok_def word_less_def)
  then show "\<not> leaf_satisfied c tleaf [sig]"
    using assms(2) satisfied_timeout_leaves[OF assms(1)] by (auto simp: htlc_leaf_pair_def split: if_splits)
qed

lemma ptlc_success_parts:
  assumes "channel_build_ptlc_success_tx alloc E K S ch uninit out txid vout amount spk k = (True, b)"
  obtains sleaf tleaf rvk paid nseq u sig cb where
    "channel_rebuild_ptlc_leaves E K ch k (commitment_number ch) = Some ((sleaf, tleaf), rvk)"
    "built_bytes (build_unsigned_tx_v alloc (sha256 E) uninit True txid vout nseq [paid] 3) = Some u"
    "claim_signature E K S ch (compute_tapscript_sighash (sha256 E) u 0 spk amount nseq sleaf) = Some sig"
    "b = finalize_script_path_tx alloc out u sig (leaf_script sleaf) cb"
proof -
  define nseq where "nseq = (if ptlc_dir (ptlcs ch ! k) = PTLC_RECEIVED then to_self_delay ch else 0xFFFFFFFD)"
  from assms show thesis unfolding channel_build_ptlc_success_tx_def Let_def nseq_def[symmetric]
    by (auto simp: bind_eq_Some_conv split: if_split_asm option.split_asm intro: that)
qed

lemma ptlc_timeout_parts:
  assumes "channel_build_ptlc_timeout_tx alloc E K S ch uninit out txid vout amount spk k = (True, b)"
  obtains sleaf tleaf rvk paid nseq u sig cb where
    "channel_rebuild_ptlc_leaves E K ch k (commitment_number ch) = Some ((sleaf, tleaf), rvk)"
    "built_bytes (build_unsigned_tx_v alloc (sha256 E) uninit True txid vout nseq [paid] 3) = Some u"
    "claim_signature E K S ch (compute_tapscript_sighash (sha256 E) u 0 spk amount nseq tleaf) = Some sig"
    "b = finalize_script_path_tx alloc out u sig (leaf_script tleaf) cb"
proof -
  define nseq where "nseq = (if ptlc_dir (ptlcs ch ! k) = PTLC_OFFERED then to_self_delay ch else 0xFFFFFFFD)"
  from assms show thesis unfolding channel_build_ptlc_timeout_tx_def Let_def nseq_def[symmetric]
    by (auto simp: bind_eq_Some_conv split: if_split_asm option.split_asm intro: that)
qed

lemma ptlc_claim_rejected:
  assumes "secp_lengths E" and "sign_laws E K S pub verify'" and "length txid = 32"
    and "channel_rebuild_ptlc_leaves E K ch k (commitment_number ch) = Some ((sleaf, tleaf), rvk)"
    and "built_bytes (build_unsigned_tx_v alloc (sha256 E) uninit True txid vout nseq [paid] 3) = Some u"
    and "claim_signature E K S ch (compute_tapscript_sighash (sha256 E) u 0 spk amount nseq leaf) = Some sig"
    and "b = finalize_script_path_tx alloc out u sig (leaf_script leaf) cb" and "\<not> oom b" and "leaf = sleaf \<or> leaf = tleaf \<and> 0 < ptlc_expiry (ptlcs ch ! k)"
  shows "\<exists>t sig script cb. buf_data b = ser_segwit t [[sig, script, cb]] \<and> map prev_txid (tx_ins t) = [txid] \<and> map prev_vout (tx_ins t) = [vout]
     \<and> \<not> scriptpath_valid verify E t spk amount [sig] script cb"
proof -
  let ?t = "one_input_tx 3 \<lparr>prev_txid = txid, prev_vout = vout, nsequence = nseq\<rparr> [paid] 0"
  have ut: "u = ser_tx ?t" using assms(5) unfolding build_v_built_bytes[OF assms(3)] by (rule built_bytes_Some)
  have sl: "length sig = 64" by (rule claim_signature_length[OF assms(2,6)])
  obtain lx rx x where p: "htlc_leaf_pair E (to_self_delay ch) lx rx (ptlc_dir (ptlcs ch ! k) = PTLC_OFFERED) (xonly_serialize E x)
      (ptlc_expiry (ptlcs ch ! k)) = (sleaf, tleaf)" using ptlc_leaves_Some[OF assms(4)] by blast
  have "\<not> leaf_satisfied (leaf_ctx verify E ?t spk amount (leaf_script leaf)) leaf [sig]"
    using leaf_pair_rejects[OF assms(1) p sl] assms(9) by (auto simp: leaf_ctx_def)
  then have "\<not> scriptpath_valid verify E ?t spk amount [sig] (leaf_script leaf) cb"
    using leaf_pair_compute(1,3)[OF assms(1) p] assms(9) by (auto simp: scriptpath_valid_def)
  moreover have "buf_data b = ser_segwit ?t [[sig, leaf_script leaf, cb]]"
    using finalize_path_written[OF sl] assms(8) unfolding assms(7) ut by blast
  ultimately show ?thesis by (intro exI[of _ ?t]) auto
qed

text \<open>C24: PTLC outputs cannot be claimed.  Whatever signature check the network makes, the success
  transaction the code builds for a PTLC, and the timeout transaction for a PTLC of positive expiry, never satisfy the script they reveal.
  The success script wants a SHA-256 preimage of the payment point's x coordinate, and the
  witness carries none; the timeout script wants the lock time to have reached the expiry,
  and the transaction is built with lock time zero.\<close>

theorem ptlc_claims_never_valid:
  assumes "secp_lengths E" and "sign_laws E K S pub verify'" and "length txid = 32"
    and "channel_build_ptlc_success_tx alloc E K S ch uninit out txid vout amount spk k = (True, b)
       \<or> 0 < ptlc_expiry (ptlcs ch ! k) \<and> channel_build_ptlc_timeout_tx alloc E K S ch uninit out txid vout amount spk k = (True, b)"
    and "\<not> oom b"
  shows "\<exists>t sig script cb. buf_data b = ser_segwit t [[sig, script, cb]] \<and> map prev_txid (tx_ins t) = [txid] \<and> map prev_vout (tx_ins t) = [vout]
     \<and> \<not> scriptpath_valid verify E t spk amount [sig] script cb"
  using assms(4)
  apply (elim disjE conjE ptlc_success_parts ptlc_timeout_parts)
  subgoal premises p by (rule ptlc_claim_rejected[OF assms(1-3) p assms(5)]) simp
  subgoal premises p by (rule ptlc_claim_rejected[OF assms(1-3) p(2-) assms(5)]) (simp add: p(1))
  done

definition sample_ptlc_channel :: "u8 channel" where
  "sample_ptlc_channel = sample_local\<lparr>ptlcs := [\<lparr>ptlc_dir = PTLC_RECEIVED, pstate = PTLC_STATE_ACTIVE, ptlc_amount = 1000,
     payment_point = 9, ptlc_expiry = 500\<rparr>]\<rparr>"

lemma ptlc_sample_built:
  "\<exists>b. channel_build_ptlc_success_tx (\<lambda>_. True) sample_secp8 sample_ec sample_sign sample_ptlc_channel u out (replicate 32 5) 2 1000 spk 0
     = (True, b) \<and> \<not> oom b"
proof -
  have f: "length (ptlcs sample_ptlc_channel) = 1" "ptlc_dir (ptlcs sample_ptlc_channel ! 0) = PTLC_RECEIVED"
    and p: "channel_get_per_commitment_point sample_ec sample_ptlc_channel (commitment_number sample_ptlc_channel) = Some 21"
    by (simp_all add: sample_ptlc_channel_def sample_local_def sample_channel_def channel_get_per_commitment_point_def channel_get_local_pcs_def)
  obtain rv lx rx where k: "channel_derive_revocation_pubkey (sha256 sample_secp8) sample_ec (remote_revocation_basepoint sample_ptlc_channel) 21 = Some rv"
    "htlc_keys sample_secp8 sample_ec sample_ptlc_channel 21 = Some (lx, rx)"
    by (simp add: channel_derive_pubkey_def channel_derive_revocation_pubkey_def htlc_keys_def Let_def)
  obtain sleaf tleaf rvk where l: "channel_rebuild_ptlc_leaves sample_secp8 sample_ec sample_ptlc_channel 0 (commitment_number sample_ptlc_channel)
      = Some ((sleaf, tleaf), rvk)"
    using k p f by (simp add: channel_rebuild_ptlc_leaves_def Let_def htlc_leaf_pair_def)
  obtain paid where c: "claim_output sample_secp8 sample_ptlc_channel 1000 = Some paid"
    by (simp add: claim_output_def keypath_only_spk_def sample_ptlc_channel_def sample_local_def sample_channel_def CHANNEL_DUST_LIMIT_SATS_def)
  obtain cb where cb: "claim_control_block sample_secp8 rvk (sleaf, tleaf) tleaf = Some cb"
    using merkle_root_total[of "[sleaf, tleaf]" sample_secp8] by (auto simp: claim_control_block_def tapscript_tweak_pubkey_def)
  have l32: "length (replicate 32 5 :: bytes) = 32" by simp
  let ?t = "one_input_tx 3 \<lparr>prev_txid = replicate 32 5, prev_vout = 2, nsequence = to_self_delay sample_ptlc_channel\<rparr> [paid] 0"
  obtain sig where sg: "claim_signature sample_secp8 sample_ec sample_sign sample_ptlc_channel (compute_tapscript_sighash (sha256 sample_secp8)
      (ser_tx ?t) 0 spk 1000 (to_self_delay sample_ptlc_channel) sleaf) = Some sig" using sample_claim_signature[OF p] by blast
  have "\<not> oom (finalize_script_path_tx (\<lambda>_. True) out (ser_tx ?t) sig (leaf_script sleaf) cb)"
    unfolding finalize_script_path_chunks[OF claim_signature_length[OF sample_sign_laws sg]] by (simp add: buf_writes_total)
  moreover have "built_bytes (build_unsigned_tx_v (\<lambda>_. True) (sha256 sample_secp8) u True (replicate 32 5) 2
      (to_self_delay sample_ptlc_channel) [paid] 3) = Some (ser_tx ?t)"
    unfolding build_v_built_bytes[OF l32] by (rule built_bytes_Some_iff) simp
  ultimately show ?thesis using l c cb sg f by (simp add: channel_build_ptlc_success_tx_def Let_def)
qed

theorem ptlc_claims_never_valid_witness:
  "\<exists>b t sig script cb. channel_build_ptlc_success_tx (\<lambda>_. True) sample_secp8 sample_ec sample_sign sample_ptlc_channel
        (tx_buf_init (\<lambda>_. True) 256) (tx_buf_init (\<lambda>_. True) 0) (replicate 32 5) 2 1000 [1] 0 = (True, b)
     \<and> buf_data b = ser_segwit t [[sig, script, cb]] \<and> \<not> scriptpath_valid (\<lambda>_ _ _. True) sample_secp8 t [1] 1000 [sig] script cb"
proof -
  obtain b where b: "channel_build_ptlc_success_tx (\<lambda>_. True) sample_secp8 sample_ec sample_sign sample_ptlc_channel
      (tx_buf_init (\<lambda>_. True) 256) (tx_buf_init (\<lambda>_. True) 0) (replicate 32 5) 2 1000 [1] 0 = (True, b)" "\<not> oom b"
    using ptlc_sample_built by blast
  have e: "length (replicate 32 5 :: bytes) = 32" by simp
  from ptlc_claims_never_valid[OF sample_secp8_lengths sample_sign_laws e disjI1[OF b(1)] b(2)] b(1) show ?thesis by blast
qed

section \<open>The preimage of a settled HTLC\<close>

definition zero_preimages :: "'pk channel \<Rightarrow> bool" where
  "zero_preimages ch \<longleftrightarrow> list_all (\<lambda>h. payment_preimage h = replicate 32 0) (htlcs ch)"

lemma zero_settled:
  "hstate h' \<noteq> HTLC_STATE_ACTIVE \<Longrightarrow> zero_preimages ch \<Longrightarrow> zero_preimages (settled alloc rnd b ch k h')"
  by (auto simp: zero_preimages_def settled_def list_all_iff dest!: set_update_subset_insert[THEN subsetD])

lemma zero_cong: "htlcs ch' = htlcs ch \<Longrightarrow> zero_preimages ch' = zero_preimages ch"
  by (simp add: zero_preimages_def)

lemma zero_fail: "zero_preimages ch \<Longrightarrow> zero_preimages (snd (channel_fail_htlc alloc rnd ch i))"
  by (cases "find_htlc i (htlcs ch)") (simp_all add: fail_settled zero_settled, simp add: channel_fail_htlc_def)

lemma zero_fulfill: "zero_preimages ch \<Longrightarrow> zero_preimages (snd (channel_fulfill_htlc alloc rnd sha ch i pre))"
  by (cases "find_htlc i (htlcs ch)"; cases "sha (take 32 pre) = payment_hash (htlcs ch ! the (find_htlc i (htlcs ch)))")
    (simp_all add: fulfill_settled zero_settled, simp_all add: channel_fulfill_htlc_def Let_def)

lemma zero_timeouts: "zero_preimages ch \<Longrightarrow> zero_preimages (snd (timeout_loop fuel alloc rnd height i failed ch))"
  by (induction fuel arbitrary: i failed ch) (auto simp: Let_def intro: zero_fail)

lemma zero_add: "zero_preimages ch \<Longrightarrow> zero_preimages (snd (channel_add_htlc alloc rnd ch dir amount hash expiry))"
  by (cases rule: add_htlc_cases[of alloc rnd ch dir amount hash expiry]) (simp_all add: zero_preimages_def new_htlc_def)

lemma zero_stores:
  "zero_preimages (channel_set_fee_rate ch rate) = zero_preimages ch"
  "zero_preimages (snd (channel_receive_revocation alloc ch m secret)) = zero_preimages ch"
  "zero_preimages (channel_set_remote_pcp ch m point) = zero_preimages ch"
  "zero_preimages (channel_set_local_pcs alloc ch m secret) = zero_preimages ch"
  "zero_preimages (channel_update_funding ch txid vout amount spk) = zero_preimages ch"
  "zero_preimages (snd (channel_update alloc rnd ch delta)) = zero_preimages ch"
  by (rule zero_cong;
      auto simp: channel_set_fee_rate_def channel_receive_revocation_def channel_receive_revocation_flat_def
        channel_ensure_revocations_cap_def channel_set_remote_pcp_def channel_set_local_pcs_def channel_ensure_pcs_cap_def
        channel_update_funding_def channel_update_def Let_def split: option.splits prod.splits)+

interpretation preimage_run: budget_invariant "chan_step sha" "\<lambda>_. zero_preimages" for sha :: "bytes \<Rightarrow> bytes"
proof unfold_locales
  fix s :: "'pk channel" and call :: "'pk chan_call"
  obtain alloc rnd op where call: "call = (alloc, rnd, op)" by (cases call)
  assume "zero_preimages s"
  then show "zero_preimages (chan_step sha call s)"
    by (cases op) (auto simp: call chan_step_def zero_stores channel_check_htlc_timeouts_def zero_cong[of "_\<lparr>last_htlc_check_height := _\<rparr>"]
        intro: zero_add zero_fulfill zero_fail zero_timeouts)
qed

lemma htlc_success_parts:
  assumes "channel_build_htlc_success_tx alloc E K S ch out txid vout amount spk k = (True, b)"
  obtains sleaf tleaf rvk paid nseq u sig cb where
    "channel_rebuild_htlc_leaves E K ch k (commitment_number ch) = Some ((sleaf, tleaf), rvk)"
    "built_bytes (build_unsigned_tx alloc (sha256 E) (tx_buf_init alloc 256) True txid vout nseq [paid]) = Some u"
    "claim_signature E K S ch (compute_tapscript_sighash (sha256 E) u 0 spk amount nseq sleaf) = Some sig"
    "b = finalize_script_path_tx_preimage alloc out u sig (payment_preimage (htlcs ch ! k)) (leaf_script sleaf) cb"
proof -
  define nseq where "nseq = (if direction (htlcs ch ! k) = HTLC_RECEIVED then to_self_delay ch else 0xFFFFFFFD)"
  from assms show thesis unfolding channel_build_htlc_success_tx_def Let_def nseq_def[symmetric]
    by (auto simp: bind_eq_Some_conv split: if_split_asm option.split_asm intro: that)
qed

lemma htlc_leaves_Some:
  assumes "channel_rebuild_htlc_leaves E K ch k n = Some ((sleaf, tleaf), rvk)"
  shows "\<exists>lx rx. htlc_leaf_pair E (to_self_delay ch) lx rx (direction (htlcs ch ! k) = HTLC_OFFERED) (payment_hash (htlcs ch ! k))
    (cltv_expiry (htlcs ch ! k)) = (sleaf, tleaf)"
  using assms by (auto simp: channel_rebuild_htlc_leaves_def Let_def bind_eq_Some_conv)

text \<open>C25: A fulfilled HTLC's preimage never reaches the chain.  Fulfilling an HTLC stores its preimage
  and at once deletes the entry, so over any history every entry still holds 32 zero
  bytes.  The success transaction therefore reveals zeros and, whatever signature check the
  network makes, is rejected for every HTLC whose payment hash is not the digest of
  zeros.\<close>

theorem fulfilled_preimage_is_lost:
  assumes "secp_lengths E" and "sign_laws E K S pub verify'" and "length txid = 32" and "zero_preimages ch"
    and "ch' = fold (chan_step sha) calls ch" and "i < length (htlcs ch')" and "h = htlcs ch' ! i"
    and "length (payment_hash h) = 32" and "payment_hash h \<noteq> sha256 E (replicate 32 0)"
    and "channel_build_htlc_success_tx alloc E K S ch' out txid vout amount spk i = (True, b)" and "\<not> oom b"
  shows "\<exists>t sig script cb. buf_data b = ser_segwit t [[sig, replicate 32 0, script, cb]]
     \<and> \<not> scriptpath_valid verify E t spk amount [sig, replicate 32 0] script cb"
proof -
  have z: "payment_preimage h = replicate 32 0"
    using preimage_run.run_inv[where ops = calls and s = ch and sha = sha] assms(4-7) by (auto simp: zero_preimages_def list_all_iff)
  obtain sleaf tleaf rvk paid nseq u sig cb where l: "channel_rebuild_htlc_leaves E K ch' i (commitment_number ch') = Some ((sleaf, tleaf), rvk)"
    and u: "built_bytes (build_unsigned_tx alloc (sha256 E) (tx_buf_init alloc 256) True txid vout nseq [paid]) = Some u"
    and sg: "claim_signature E K S ch' (compute_tapscript_sighash (sha256 E) u 0 spk amount nseq sleaf) = Some sig"
    and b: "b = finalize_script_path_tx_preimage alloc out u sig (payment_preimage (htlcs ch' ! i)) (leaf_script sleaf) cb"
    using htlc_success_parts[OF assms(10)] .
  let ?t = "one_input_tx 2 \<lparr>prev_txid = txid, prev_vout = vout, nsequence = nseq\<rparr> [paid] 0" and ?z = "replicate 32 0 :: bytes"
  have ut: "u = ser_tx ?t" using u unfolding build_v2_built_bytes[OF assms(3)] by (rule built_bytes_Some)
  have sl: "length sig = 64" by (rule claim_signature_length[OF assms(2) sg])
  have "buf_data b = ser_segwit ?t [[sig, ?z, leaf_script sleaf, cb]]"
    using assms(11) writes_result z unfolding b ut assms(7)[symmetric] finalize_script_path_chunks[OF sl] by (simp add: concat_stack_chunks)
  moreover obtain lx rx where p: "htlc_leaf_pair E (to_self_delay ch') lx rx (direction h = HTLC_OFFERED) (payment_hash h) (cltv_expiry h)
      = (sleaf, tleaf)" using htlc_leaves_Some[OF l] unfolding assms(7)[symmetric] by blast
  have w: "\<forall>x\<in>set [sig, ?z]. length x < 2 ^ 32" using sl by simp
  have "\<not> leaf_satisfied (leaf_ctx verify E ?t spk amount (leaf_script sleaf)) sleaf [sig, ?z]"
    using p satisfied_success_leaves[OF assms(1,8) w] assms(9) by (auto simp: htlc_leaf_pair_def leaf_ctx_def split: if_splits)
  then have "\<not> scriptpath_valid verify E ?t spk amount [sig, ?z] (leaf_script sleaf) cb"
    using leaf_pair_compute(1)[OF assms(1) p] by (simp add: scriptpath_valid_def)
  ultimately show ?thesis by blast
qed

lemma htlc_success_total:
  assumes "\<And>m. \<exists>sig. claim_signature E K S ch m = Some sig" and "sign_laws E K S pub verify" and "length txid = 32" and "\<And>n. alloc n"
    and "channel_rebuild_htlc_leaves E K ch k (commitment_number ch) = Some ((sleaf, tleaf), rvk)"
    and "claim_output E ch amount = Some paid" and "claim_control_block E rvk (sleaf, tleaf) tleaf = Some cb"
  shows "\<exists>b. channel_build_htlc_success_tx alloc E K S ch out txid vout amount spk k = (True, b) \<and> \<not> oom b"
proof -
  define nseq where "nseq = (if direction (htlcs ch ! k) = HTLC_RECEIVED then to_self_delay ch else 0xFFFFFFFD)"
  let ?t = "one_input_tx 2 \<lparr>prev_txid = txid, prev_vout = vout, nsequence = nseq\<rparr> [paid] 0"
  obtain sig where sg: "claim_signature E K S ch (compute_tapscript_sighash (sha256 E) (ser_tx ?t) 0 spk amount nseq sleaf) = Some sig"
    using assms(1) by blast
  have "\<not> oom (finalize_script_path_tx_preimage alloc out (ser_tx ?t) sig pre (leaf_script sleaf) cb)" for pre
    unfolding finalize_script_path_chunks[OF claim_signature_length[OF assms(2) sg]] using assms(4) by (simp add: buf_writes_total)
  moreover have "built_bytes (build_unsigned_tx alloc (sha256 E) (tx_buf_init alloc 256) True txid vout nseq [paid]) = Some (ser_tx ?t)"
    unfolding build_v2_built_bytes[OF assms(3)] by (rule built_bytes_Some_iff) (rule assms(4))
  ultimately show ?thesis using assms(5-7) sg unfolding channel_build_htlc_success_tx_def Let_def nseq_def[symmetric] by simp
qed

theorem fulfilled_preimage_is_lost_witness:
  "\<exists>outs b t sig script cb. commitment_outputs sample_secp8 sample_ec sample_claimant 21 = Some outs
     \<and> channel_build_htlc_success_tx (\<lambda>_. True) sample_secp8 sample_ec sample_sign sample_claimant (tx_buf_init (\<lambda>_. True) 0)
         (replicate 32 5) 2 1000 (script_pubkey (outs ! 2)) 0 = (True, b)
     \<and> buf_data b = ser_segwit t [[sig, replicate 32 0, script, cb]]
     \<and> \<not> scriptpath_valid (\<lambda>_ _ _. True) sample_secp8 t (script_pubkey (outs ! 2)) 1000 [sig, replicate 32 0] script cb"
proof -
  let ?ch = sample_claimant
  have inv: "chan_inv 200000 0 ?ch" by (simp add: chan_inv_eval sample_claimant_def sample_local_def)
  have f: "0 < length (htlcs ?ch)" "ptlcs ?ch = []" "htlcs ?ch ! 0 = sample_htlc 0 500" "zero_preimages ?ch"
    and p: "channel_get_per_commitment_point sample_ec ?ch (commitment_number ?ch) = Some 21"
    by (simp_all add: sample_claimant_def sample_local_def sample_channel_def zero_preimages_def sample_htlc_def
        channel_get_per_commitment_point_def channel_get_local_pcs_def)
  obtain outs where o: "commitment_outputs sample_secp8 sample_ec ?ch 21 = Some outs" using sample_outputs[OF f(2)] by blast
  obtain rvk lx rx sleaf tleaf cs ct q where
    l: "channel_rebuild_htlc_leaves sample_secp8 sample_ec ?ch 0 (commitment_number ?ch) = Some ((sleaf, tleaf), rvk)"
    and cb: "claim_control_block sample_secp8 rvk (sleaf, tleaf) tleaf = Some cs"
    using commitment_htlc_leaves[OF sample_secp8_lengths o f(1) inv p refl] .
  obtain paid where c: "claim_output sample_secp8 ?ch 1000 = Some paid"
    by (simp add: claim_output_def keypath_only_spk_def sample_claimant_def sample_local_def sample_channel_def CHANNEL_DUST_LIMIT_SATS_def)
  have l32: "length (replicate 32 5 :: bytes) = 32" by simp
  obtain b where b: "channel_build_htlc_success_tx (\<lambda>_. True) sample_secp8 sample_ec sample_sign ?ch (tx_buf_init (\<lambda>_. True) 0)
      (replicate 32 5) 2 1000 (script_pubkey (outs ! 2)) 0 = (True, b)" "\<not> oom b"
    using htlc_success_total[OF sample_claim_signature[OF p] sample_sign_laws l32 TrueI l c cb] by blast
  have h: "length (payment_hash (sample_htlc 0 500)) = 32" "payment_hash (sample_htlc 0 500) \<noteq> sha256 sample_secp8 (replicate 32 0)"
    by (simp_all add: sample_htlc_def sample_secp8_def)
  from fulfilled_preimage_is_lost[where calls = "[]" and ch = ?ch and ch' = ?ch, OF sample_secp8_lengths sample_sign_laws l32 f(4) _ f(1)
      f(3)[symmetric] h b] o b(1) show ?thesis by (simp only: fold_simps id_apply simp_thms) blast
qed

end
