(* ===== verification/Funding.thy ===== *)
theory Funding
  imports Tapscript "HOL-Library.Monad_Syntax"
begin

text \<open>
  Recovering how a channel's funding key was aggregated, \<^verbatim>\<open>src/channel.c\<close>.  The factory fixes the order
  of the two keys and the optional timeout leaf under the funding output; a channel that
  only knows the output script tries the combinations.
\<close>

section \<open>Model\<close>

text \<open>One combination: the aggregate, our index and the tree root if it yields the target key.\<close>

definition channel_funding_keyagg_try_combo ::
  "('pk, 'xo, 'ca) secp \<Rightarrow> 'pk list \<Rightarrow> u32 \<Rightarrow> u32 \<Rightarrow> 'pk \<Rightarrow> bytes \<Rightarrow> (('xo, 'ca) musig_keyagg \<times> u32 \<times> bytes option) option" where
  "channel_funding_keyagg_try_combo E pks_ordered my_idx cltv_timeout lsp_pubkey target_xonly = do {
     merkle_root \<leftarrow> (if cltv_timeout > 0 then do {
         (lsp_xonly, _) \<leftarrow> xonly_from_pubkey E lsp_pubkey;
         root \<leftarrow> tapscript_merkle_root E [tapscript_build_cltv_timeout E cltv_timeout lsp_xonly];
         Some (Some root) }
       else Some None);
     ka \<leftarrow> musig_aggregate_keys E pks_ordered;
     let internal_ser = xonly_serialize E (agg_pubkey ka);
     let tweak = sha256_tagged (sha256 E) ''TapTweak''
       (case merkle_root of Some root \<Rightarrow> internal_ser @ root | None \<Rightarrow> internal_ser);
     tweaked_full \<leftarrow> xonly_tweak_add E (agg_pubkey ka) tweak;
     (tweaked_xonly, _) \<leftarrow> xonly_from_pubkey E tweaked_full;
     if xonly_serialize E tweaked_xonly \<noteq> target_xonly then None else Some (ka, my_idx, merkle_root) }"

text \<open>The loop over the two orders and the two timeouts, skipping an equal second timeout.\<close>

definition channel_discover_funding_keyagg ::
  "('pk, 'xo, 'ca) secp \<Rightarrow> 'pk \<Rightarrow> 'pk \<Rightarrow> 'pk \<Rightarrow> u32 \<Rightarrow> u32 \<Rightarrow> bytes \<Rightarrow> (('xo, 'ca) musig_keyagg \<times> u32 \<times> bytes option) option" where
  "channel_discover_funding_keyagg E my_pubkey peer_pubkey lsp_pubkey factory_cltv node_cltv funding_spk =
     (if length funding_spk \<noteq> 34 \<or> take 2 funding_spk \<noteq> [0x51, 0x20] then None
      else fold (\<lambda>(pks, idx, cltv) found. case found of Some r \<Rightarrow> Some r
             | None \<Rightarrow> channel_funding_keyagg_try_combo E pks idx cltv lsp_pubkey (drop 2 funding_spk))
           (concat (map (\<lambda>(pks, idx). map (\<lambda>cltv. (pks, idx, cltv))
               (if factory_cltv = node_cltv then [factory_cltv] else [factory_cltv, node_cltv]))
             [([my_pubkey, peer_pubkey], 0), ([peer_pubkey, my_pubkey], 1)])) None)"

section \<open>Correctness\<close>

text \<open>The script a factory gives a channel: two keys in some order, under an optional timeout leaf.\<close>

definition channel_funding_spk :: "('pk, 'xo, 'ca) secp \<Rightarrow> 'pk list \<Rightarrow> u32 \<Rightarrow> 'pk \<Rightarrow> bytes option" where
  "channel_funding_spk E pks cltv lsp_pubkey = do {
     ka \<leftarrow> musig_aggregate_keys E pks;
     (tweaked, _) \<leftarrow> (if cltv = 0
       then xonly_tweak_add E (agg_pubkey ka) (sha256_tagged (sha256 E) ''TapTweak'' (xonly_serialize E (agg_pubkey ka)))
              \<bind> xonly_from_pubkey E
       else do {
         (lsp_xonly, _) \<leftarrow> xonly_from_pubkey E lsp_pubkey;
         tapscript_tweak_pubkey E (agg_pubkey ka) (leaf_hash (tapscript_build_cltv_timeout E cltv lsp_xonly)) });
     Some (build_p2tr_script_pubkey E tweaked) }"

lemma single_leaf_root [simp]: "tapscript_merkle_root E [leaf] = Some (leaf_hash leaf)"
  by (subst tapscript_merkle_root.simps) simp

text \<open>The tree root the code reports for a timeout.\<close>

definition funding_root :: "('pk, 'xo, 'ca) secp \<Rightarrow> u32 \<Rightarrow> 'pk \<Rightarrow> bytes option" where
  "funding_root E cltv lsp_pubkey =
     (if cltv = 0 then None
      else map_option (\<lambda>(lsp_xonly, _). leaf_hash (tapscript_build_cltv_timeout E cltv lsp_xonly)) (xonly_from_pubkey E lsp_pubkey))"

text \<open>A combination is accepted exactly when its script is the funding script.\<close>

lemma try_combo_eq:
  assumes "secp_lengths E" and "length spk = 34" and "take 2 spk = [0x51, 0x20]"
  shows "channel_funding_keyagg_try_combo E pks idx cltv lsp (drop 2 spk) =
    (if channel_funding_spk E pks cltv lsp = Some spk
     then map_option (\<lambda>ka. (ka, idx, funding_root E cltv lsp)) (musig_aggregate_keys E pks) else None)"
proof -
  have s: "build_p2tr_script_pubkey E x = spk \<longleftrightarrow> xonly_serialize E x = drop 2 spk" for x
    using assms(3) append_take_drop_id[of 2 spk] unfolding build_p2tr_script_pubkey_def by (metis append_eq_append_conv)
  have len: "length (leaf_hash (tapscript_build_cltv_timeout E c k)) = 32" for c k
    using assms(1) by (simp add: tapscript_build_cltv_timeout_def)
  note defs = channel_funding_keyagg_try_combo_def channel_funding_spk_def funding_root_def tapscript_tweak_pubkey_def Let_def
  show ?thesis
  proof (cases "musig_aggregate_keys E pks")
    case (Some ka)
    let ?tw = "\<lambda>m. xonly_tweak_add E (agg_pubkey ka) (sha256_tagged (sha256 E) ''TapTweak'' m)"
    show ?thesis
    proof (cases "cltv = 0")
      case True
      with Some show ?thesis
        by (cases "?tw (xonly_serialize E (agg_pubkey ka))"; cases "xonly_from_pubkey E (the (?tw (xonly_serialize E (agg_pubkey ka))))")
          (simp_all add: defs s split: prod.split)
    next
      case False
      then have pos: "0 < cltv" by (simp add: word_neq_0_conv)
      show ?thesis
      proof (cases "xonly_from_pubkey E lsp")
        case l: (Some y)
        let ?m = "xonly_serialize E (agg_pubkey ka) @ leaf_hash (tapscript_build_cltv_timeout E cltv (fst y))"
        show ?thesis using Some False pos l len
          by (cases y; cases "?tw ?m"; cases "xonly_from_pubkey E (the (?tw ?m))") (simp_all add: defs s split: prod.split)
      qed (use Some False pos in \<open>simp add: defs\<close>)
    qed
  qed (auto simp: defs bind_eq_None_conv)
qed

text \<open>C27: A channel finds its funding key.  From the funding script alone, discovery returns an aggregate,
  our position in it and the tree root exactly when the script was built from the two keys,
  in either order and under either of the two timeouts; and what it returns is one of
  those, so signing with it spends the funding output.\<close>

theorem discover_funding_keyagg_correct:
  assumes "secp_lengths E" and "match = (\<lambda>idx cltv. channel_funding_spk E (if idx = 0 then [my, peer] else [peer, my]) cltv lsp = Some spk)"
  shows "(channel_discover_funding_keyagg E my peer lsp c0 c1 spk \<noteq> None \<longleftrightarrow>
           (\<exists>idx cltv. (idx = 0 \<or> idx = 1) \<and> (cltv = c0 \<or> cltv = c1) \<and> match idx cltv))
       \<and> (\<forall>ka idx root. channel_discover_funding_keyagg E my peer lsp c0 c1 spk = Some (ka, idx, root) \<longrightarrow>
           (idx = 0 \<or> idx = 1) \<and> musig_aggregate_keys E (if idx = 0 then [my, peer] else [peer, my]) = Some ka
           \<and> (\<exists>cltv. (cltv = c0 \<or> cltv = c1) \<and> root = funding_root E cltv lsp \<and> match idx cltv))"
proof (cases "length spk = 34 \<and> take 2 spk = [0x51, 0x20]")
  case True
  define agg where "agg = (\<lambda>idx :: u32. musig_aggregate_keys E (if idx = 0 then [my, peer] else [peer, my]))"
  define res where "res = (\<lambda>idx c. map_option (\<lambda>ka. (ka, idx, funding_root E c lsp)) (agg idx))"
  have some: "match idx c \<Longrightarrow> \<exists>ka. agg idx = Some ka" for idx c
    by (auto simp: assms(2) agg_def channel_funding_spk_def bind_eq_Some_conv)
  have t: "channel_funding_keyagg_try_combo E (if idx = 0 then [my, peer] else [peer, my]) idx c lsp (drop 2 spk) =
      (if match idx c then res idx c else None)" for idx c
    using True by (simp add: try_combo_eq[OF assms(1)] assms(2) res_def agg_def)
  have r: "match idx c \<Longrightarrow> res idx c \<noteq> None" for idx c using some by (auto simp: res_def)
  have d: "channel_discover_funding_keyagg E my peer lsp c0 c1 spk =
      (if match 0 c0 then res 0 c0 else if match 0 c1 then res 0 c1 else if match 1 c0 then res 1 c0
       else if match 1 c1 then res 1 c1 else None)"
    using True t[of 0] t[of 1] r[of 0 c0] r[of 0 c1] r[of 1 c0] r[of 1 c1]
    by (simp add: channel_discover_funding_keyagg_def) (auto split: option.split)
  have ex: "(\<exists>idx cltv. (idx = 0 \<or> idx = 1) \<and> (cltv = c0 \<or> cltv = c1) \<and> match idx cltv) \<longleftrightarrow>
      match 0 c0 \<or> match 0 c1 \<or> match 1 c0 \<or> match 1 c1" by blast
  show ?thesis
  proof (intro conjI allI impI)
    show "channel_discover_funding_keyagg E my peer lsp c0 c1 spk \<noteq> None \<longleftrightarrow>
        (\<exists>idx cltv. (idx = 0 \<or> idx = 1) \<and> (cltv = c0 \<or> cltv = c1) \<and> match idx cltv)" unfolding d ex using r by (simp split: if_split)
    fix ka idx root
    assume "channel_discover_funding_keyagg E my peer lsp c0 c1 spk = Some (ka, idx, root)"
    then obtain i c where i: "i = 0 \<or> i = 1" "c = c0 \<or> c = c1" "match i c" "res i c = Some (ka, idx, root)"
      unfolding d by (simp split: if_split_asm) blast+
    then show "idx = 0 \<or> idx = 1" "musig_aggregate_keys E (if idx = 0 then [my, peer] else [peer, my]) = Some ka"
      "\<exists>cltv. (cltv = c0 \<or> cltv = c1) \<and> root = funding_root E cltv lsp \<and> match idx cltv"
      by (auto simp: res_def agg_def)
  qed
next
  case False
  have "\<not> match idx cltv" for idx cltv
    using False assms(1) by (auto simp: assms(2) channel_funding_spk_def bind_eq_Some_conv build_p2tr_script_pubkey_def)
  with False show ?thesis by (auto simp: channel_discover_funding_keyagg_def)
qed

lemma sample_fields:
  "xonly_from_pubkey sample_secp p = Some (p, odd (length p))" "xonly_tweak_add sample_secp k t = Some (map2 (+) k t)"
  "musig_pubkey_agg sample_secp (p # ps) = Some (p, p)"
  by (simp_all add: sample_secp_def)

theorem discover_funding_keyagg_correct_witness:
  "\<exists>spk. channel_funding_spk sample_secp [[2], [1]] 500 [3] = Some spk
     \<and> channel_discover_funding_keyagg sample_secp [1] [2] [3] 144 500 spk \<noteq> None
     \<and> channel_discover_funding_keyagg sample_secp [1] [2] [3] 144 500 (take 33 spk) = None"
proof -
  obtain spk where s: "channel_funding_spk sample_secp [[2], [1]] 500 [3] = Some spk"
    unfolding channel_funding_spk_def musig_aggregate_keys_def tapscript_tweak_pubkey_def Let_def by (simp add: sample_fields)
  have l: "channel_funding_spk sample_secp pks c k = Some x \<Longrightarrow> length x = 34" for pks c k x
    using sample_secp_lengths by (auto simp: channel_funding_spk_def bind_eq_Some_conv build_p2tr_script_pubkey_def)
  have "length (take 33 spk) \<noteq> 34" by simp
  with l have "channel_funding_spk sample_secp pks c k \<noteq> Some (take 33 spk)" for pks c k by blast
  then have "channel_discover_funding_keyagg sample_secp [1] [2] [3] 144 500 (take 33 spk) = None"
    using discover_funding_keyagg_correct[OF sample_secp_lengths refl, of "[1]" "[2]" "[3]" 144 500 "take 33 spk"] by (simp only: simp_thms)
  moreover have "\<exists>idx cltv. (idx = (0 :: u32) \<or> idx = 1) \<and> (cltv = 144 \<or> cltv = 500)
      \<and> channel_funding_spk sample_secp (if idx = 0 then [[1], [2]] else [[2], [1]]) cltv [3] = Some spk"
    by (rule exI[of _ 1], rule exI[of _ 500]) (simp add: s)
  then have "channel_discover_funding_keyagg sample_secp [1] [2] [3] 144 500 spk \<noteq> None"
    by (rule discover_funding_keyagg_correct[OF sample_secp_lengths refl, THEN conjunct1, THEN iffD2])
  ultimately show ?thesis using s by (intro exI[of _ spk] conjI)
qed

end
