(* ===== verification/Fees.thy ===== *)
theory Fees
  imports SS_Prelude
begin

text \<open>
  Fee computation, \<^verbatim>\<open>src/fee.c\<close>, over the estimator interface of \<^verbatim>\<open>include/superscalar/fee_estimator.h\<close>:
  an estimator is its rate function, in satoshis per 1000 virtual bytes, and \<open>None\<close> stands
  for a null estimator or one without a rate function.
\<close>

section \<open>Model\<close>

datatype fee_target = FEE_TARGET_URGENT | FEE_TARGET_NORMAL | FEE_TARGET_ECONOMY | FEE_TARGET_MINIMUM

type_synonym fee_estimator = "(fee_target \<Rightarrow> u64) option"

definition compute_fee :: "u64 \<Rightarrow> u64 \<Rightarrow> u64" where
  "compute_fee sat_per_kvb vsize_bytes =
     (if sat_per_kvb = 0 then 0
      else if sat_per_kvb > 100000000 div (vsize_bytes + 1) then 100000000
      else (sat_per_kvb * vsize_bytes + 999) div 1000)"

definition fee_estimate :: "fee_estimator \<Rightarrow> u64 \<Rightarrow> u64" where
  "fee_estimate fe vsize_bytes =
     (case fe of None \<Rightarrow> 0 | Some get_rate \<Rightarrow> compute_fee (get_rate FEE_TARGET_NORMAL) vsize_bytes)"

definition fee_for_penalty_tx :: "fee_estimator \<Rightarrow> u64" where
  "fee_for_penalty_tx fe = (case fe of None \<Rightarrow> 0 | Some get_rate \<Rightarrow> compute_fee (get_rate FEE_TARGET_URGENT) 165)"

definition fee_for_htlc_tx :: "fee_estimator \<Rightarrow> u64" where
  "fee_for_htlc_tx fe = (case fe of None \<Rightarrow> 0 | Some get_rate \<Rightarrow> compute_fee (get_rate FEE_TARGET_URGENT) 180)"

definition fee_for_cpfp_child :: "fee_estimator \<Rightarrow> u64" where
  "fee_for_cpfp_child fe = (case fe of None \<Rightarrow> 0 | Some get_rate \<Rightarrow> compute_fee (get_rate FEE_TARGET_URGENT) 264)"

definition fee_for_commitment_tx :: "fee_estimator \<Rightarrow> u64 \<Rightarrow> u64" where
  "fee_for_commitment_tx fe n_htlcs =
     (case fe of None \<Rightarrow> 0 | Some get_rate \<Rightarrow>
        let vsize = 154 + 43 * n_htlcs in compute_fee (get_rate FEE_TARGET_NORMAL) vsize)"

definition fee_for_factory_tx :: "fee_estimator \<Rightarrow> u64 \<Rightarrow> u64" where
  "fee_for_factory_tx fe n_outputs =
     (case fe of None \<Rightarrow> 0 | Some get_rate \<Rightarrow>
        let vsize = 68 + 43 * n_outputs in compute_fee (get_rate FEE_TARGET_NORMAL) vsize)"

definition fee_should_use_anchor :: "fee_estimator \<Rightarrow> bool" where
  "fee_should_use_anchor fe = (case fe of None \<Rightarrow> True | Some get_rate \<Rightarrow> get_rate FEE_TARGET_URGENT \<ge> 1000)"

section \<open>The cap\<close>

text \<open>The guard against overflow compares the product of rate and size, in millisatoshis, with one
  bitcoin in satoshis.\<close>

lemma compute_fee_unat:
  assumes "unat v + 1 < 2 ^ 64" and "r \<noteq> 0"
  shows "unat (compute_fee r v) =
    (if unat r * (unat v + 1) > 100000000 then 100000000 else (unat r * unat v + 999) div 1000)"
proof -
  have v1: "unat (v + 1) = unat v + 1" using assms(1) by (simp add: unat_plus_nowrap)
  have g: "r > 100000000 div (v + 1) \<longleftrightarrow> unat r * (unat v + 1) > 100000000"
    by (simp add: word_less_nat_alt unat_div v1 div_less_iff_less_mult)
  show ?thesis
  proof (cases "unat r * (unat v + 1) > 100000000")
    case True
    then show ?thesis using assms(2) g by (simp add: compute_fee_def)
  next
    case False
    then have m: "unat r * unat v \<le> 100000000" by (simp add: algebra_simps)
    then have "unat (r * v) = unat r * unat v" by (simp add: unat_mult_lem[THEN iffD1])
    moreover from this m have "unat (r * v + 999) = unat r * unat v + 999" by (subst unat_plus_nowrap) simp_all
    ultimately show ?thesis using False assms(2) g by (simp add: compute_fee_def unat_div)
  qed
qed

text \<open>C28: Fees are exact or a whole bitcoin.  For every rate and size the computed fee is the exact
  rounded-up fee, at most 0.001 BTC, or it jumps to 1 BTC: there is nothing in between.  The
  jump comes as soon as rate times size passes the cap before the division by 1000, for a
  commitment with 483 HTLCs already at 5 satoshis per virtual byte.\<close>

theorem compute_fee_exact_or_one_btc:
  assumes "unat v + 1 < 2 ^ 64" and "r \<noteq> 0" and "fe = Some (\<lambda>_. r)" and "v = 154 + 43 * n"
  shows "(unat r * (unat v + 1) \<le> 100000000 \<longrightarrow>
            unat (fee_for_commitment_tx fe n) = (unat r * unat v + 999) div 1000 \<and> fee_for_commitment_tx fe n \<le> 100000)
       \<and> (unat r * (unat v + 1) > 100000000 \<longrightarrow> fee_for_commitment_tx fe n = 100000000)"
proof (intro conjI impI)
  have f: "fee_for_commitment_tx fe n = compute_fee r v" by (simp add: fee_for_commitment_tx_def assms(3,4))
  note u = compute_fee_unat[OF assms(1,2)]
  show "fee_for_commitment_tx fe n = 100000000" if "unat r * (unat v + 1) > 100000000"
    using u that by (simp add: f word_unat_eq_iff)
  assume le: "unat r * (unat v + 1) \<le> 100000000"
  then show e: "unat (fee_for_commitment_tx fe n) = (unat r * unat v + 999) div 1000" using u by (simp add: f)
  have "0 < unat r" using assms(2) by (simp add: unat_gt_0)
  with le have "unat r * unat v + 1 \<le> 100000000" by (simp add: algebra_simps)
  with e show "fee_for_commitment_tx fe n \<le> 100000" by (simp add: word_le_nat_alt)
qed

theorem compute_fee_exact_or_one_btc_witness:
  "unat (fee_for_commitment_tx (Some (\<lambda>_. 4000)) 483) = 83692 \<and> fee_for_commitment_tx (Some (\<lambda>_. 5000)) 483 = 100000000"
proof -
  have v: "unat (20923 :: u64) + 1 < 2 ^ 64" "(20923 :: u64) = 154 + 43 * 483" by simp_all
  have r: "(4000 :: u64) \<noteq> 0" "(5000 :: u64) \<noteq> 0" by simp_all
  have g: "unat (4000 :: u64) * (unat (20923 :: u64) + 1) \<le> 100000000" "unat (5000 :: u64) * (unat (20923 :: u64) + 1) > 100000000"
    "(unat (4000 :: u64) * unat (20923 :: u64) + 999) div 1000 = 83692" by simp_all
  from compute_fee_exact_or_one_btc[OF v(1) r(1) refl v(2)] g(1,3) compute_fee_exact_or_one_btc[OF v(1) r(2) refl v(2)] g(2)
  show ?thesis by metis
qed

end
