(* ===== verification/Shachain.thy ===== *)
theory Shachain
  imports SS_Prelude
begin

text \<open>
  Derivation of epoch secrets from a seed, \<^verbatim>\<open>src/shachain.c\<close> (the generator of BOLT 3).  SHA-256 is
  a parameter.
\<close>

section \<open>Model\<close>

definition SHACHAIN_INDEX_BITS :: nat where
  "SHACHAIN_INDEX_BITS = 48"

definition SHACHAIN_MAX_INDEX :: u64 where
  "SHACHAIN_MAX_INDEX = push_bit SHACHAIN_INDEX_BITS 1 - 1"

text \<open>One round of the loop: flip the bit in the value and hash.\<close>

definition shachain_flip :: "(bytes \<Rightarrow> bytes) \<Rightarrow> nat \<Rightarrow> bytes \<Rightarrow> bytes" where
  "shachain_flip sha b value =
     (let byte_idx = b div 8; bit_within_byte = b mod 8
      in sha (value[byte_idx := value ! byte_idx XOR push_bit bit_within_byte 1]))"

text \<open>The loop over the bits \<open>n - 1\<close> down to 0.\<close>

fun shachain_loop :: "(bytes \<Rightarrow> bytes) \<Rightarrow> u64 \<Rightarrow> nat \<Rightarrow> bytes \<Rightarrow> bytes" where
  "shachain_loop sha index 0 value = value"
| "shachain_loop sha index (Suc b) value =
     shachain_loop sha index b (if index AND push_bit b 1 \<noteq> 0 then shachain_flip sha b value else value)"

definition shachain_from_seed :: "(bytes \<Rightarrow> bytes) \<Rightarrow> bytes \<Rightarrow> u64 \<Rightarrow> bytes" where
  "shachain_from_seed sha seed32 index = shachain_loop sha index SHACHAIN_INDEX_BITS (take 32 seed32)"

definition shachain_epoch_to_index :: "u32 \<Rightarrow> u64" where
  "shachain_epoch_to_index epoch = SHACHAIN_MAX_INDEX - ucast epoch"

section \<open>Derivation between elements\<close>

lemma shachain_loop_bit:
  "shachain_loop sha index (Suc b) v = shachain_loop sha index b (if bit index b then shachain_flip sha b v else v)"
  by (simp add: and_exp_eq_0_iff_not_bit)

declare shachain_loop.simps(2) [simp del] shachain_loop_bit [simp]

lemma shachain_loop_cong:
  "(\<And>b. b < n \<Longrightarrow> bit i b = bit j b) \<Longrightarrow> shachain_loop sha i n v = shachain_loop sha j n v"
  by (induction n arbitrary: v) auto

lemma shachain_loop_skip: "(\<And>b. b < n \<Longrightarrow> \<not> bit i b) \<Longrightarrow> shachain_loop sha i n v = v"
  by (induction n arbitrary: v) auto

lemma shachain_loop_split:
  assumes "k \<le> n" and "\<And>b. b < k \<Longrightarrow> \<not> bit hi b" and "\<And>b. k \<le> b \<Longrightarrow> \<not> bit lo b"
  shows "shachain_loop sha (hi OR lo) n v = shachain_loop sha lo n (shachain_loop sha hi n v)"
  using assms(1)
proof (induction n arbitrary: v rule: dec_induct)
  case base
  have "shachain_loop sha hi k v = v" by (rule shachain_loop_skip) (rule assms(2))
  moreover have "shachain_loop sha (hi OR lo) k v = shachain_loop sha lo k v"
    by (rule shachain_loop_cong) (simp add: assms(2) bit_or_iff)
  ultimately show ?case by simp
next
  case (step n)
  have "\<not> bit lo n" using assms(3) step(1) by simp
  then show ?case by (simp add: step.IH bit_or_iff)
qed

lemma length_shachain_loop: "(\<And>x. length (sha x) = 32) \<Longrightarrow> length v = 32 \<Longrightarrow> length (shachain_loop sha i n v) = 32"
  by (induction n arbitrary: v) (simp_all add: shachain_flip_def Let_def)

text \<open>C38: What can be derived from a revealed secret lies in the past.  The element of an index whose low \<open>k\<close> bits are zero
  yields, by the same procedure, exactly the elements that differ from it in those bits,
  so one stored secret stands for its whole subtree; and all of them belong to the same
  or an earlier epoch, since the code hands out descending indices.\<close>

theorem shachain_subtree:
  assumes "\<And>x. length (sha x) = 32" and "length seed = 32" and "take_bit k hi = 0" and "unat lo < 2 ^ k" and "k \<le> 48"
  shows "shachain_from_seed sha (shachain_from_seed sha seed hi) lo = shachain_from_seed sha seed (hi OR lo)
     \<and> (shachain_epoch_to_index e = hi \<longrightarrow> shachain_epoch_to_index e' = hi OR lo \<longrightarrow> e' \<le> e)"
proof (intro conjI impI)
  have h: "\<not> bit hi b" if "b < k" for b using arg_cong[OF assms(3), of "\<lambda>w. bit w b"] that by (simp add: bit_take_bit_iff)
  have l: "\<not> bit lo b" if "k \<le> b" for b
  proof -
    have "take_bit k lo = lo" using assms(4) by (simp add: word_unat_eq_iff unsigned_take_bit_eq take_bit_nat_eq_self_iff)
    with that show ?thesis by (metis bit_take_bit_iff not_less)
  qed
  have "length (shachain_from_seed sha seed hi) = 32"
    using length_shachain_loop[of sha "take 32 seed"] assms(1,2) by (simp add: shachain_from_seed_def)
  then show "shachain_from_seed sha (shachain_from_seed sha seed hi) lo = shachain_from_seed sha seed (hi OR lo)"
    using shachain_loop_split[of k 48 hi lo sha] h l assms(2,5) by (simp add: shachain_from_seed_def SHACHAIN_INDEX_BITS_def)
  assume e: "shachain_epoch_to_index e = hi" "shachain_epoch_to_index e' = hi OR lo"
  have u: "unat (shachain_epoch_to_index x) = 2 ^ 48 - 1 - unat x" for x
  proof -
    have "unat x < 2 ^ 32" using unsigned_less[of x, where ?'a = nat] by simp
    then have "unat (ucast x :: u64) = unat x" by (simp add: unsigned_ucast_eq take_bit_nat_eq_self_iff)
    with \<open>unat x < 2 ^ 32\<close> show ?thesis
      by (simp add: shachain_epoch_to_index_def SHACHAIN_MAX_INDEX_def SHACHAIN_INDEX_BITS_def unat_sub word_le_nat_alt)
  qed
  have "hi \<le> hi OR lo" by (rule le_word_or2)
  then have "unat (shachain_epoch_to_index e) \<le> unat (shachain_epoch_to_index e')" using e by (simp add: word_le_nat_alt)
  moreover have "unat e < 2 ^ 32" "unat e' < 2 ^ 32" using unsigned_less[of e, where ?'a = nat] unsigned_less[of e', where ?'a = nat] by simp_all
  ultimately show "e' \<le> e" unfolding u by (simp add: word_le_nat_alt)
qed

text \<open>With a digest that marks its input by its first byte.\<close>

definition sample_sha :: "bytes \<Rightarrow> bytes" where
  "sample_sha x = replicate 32 (hd (x @ [0]) + 1)"

theorem shachain_subtree_witness:
  "shachain_from_seed sample_sha (shachain_from_seed sample_sha (replicate 32 0) 16) 3
     = shachain_from_seed sample_sha (replicate 32 0) 19"
  using shachain_subtree[of sample_sha "replicate 32 0" 4 16 3] by (simp add: sample_sha_def take_bit_eq_mod)

end
