(* ===== verification/Growth.thy ===== *)
theory Growth
  imports Channel "HOL-Library.While_Combinator"
begin

text \<open>
  The capacity loop \<^verbatim>\<open>while (new_cap < needed) new_cap *= 2;\<close> of the secret stores of \<^verbatim>\<open>src/channel.c\<close>, on
  the 64-bit \<^verbatim>\<open>size_t\<close> it runs on.  The theory Channel computes the capacity on natural
  numbers (\<open>grow_cap\<close>); here is when that is what the code does.
\<close>

definition grow_loop :: "u64 \<Rightarrow> u64 \<Rightarrow> u64 option" where
  "grow_loop needed = while_option (\<lambda>new_cap. new_cap < needed) (\<lambda>new_cap. new_cap * 2)"

lemma double_power: "(2 :: u64) ^ k * 2 = 2 ^ Suc k"
  by simp

lemma unat_power_two: "k < 64 \<Longrightarrow> unat ((2 :: u64) ^ k) = 2 ^ k"
proof -
  assume k: "k < 64"
  have "(2 :: u64) ^ k = of_nat (2 ^ k)" by simp
  then have "unat ((2 :: u64) ^ k) = 2 ^ k mod 2 ^ 64" by (simp only: unat_of_nat word_size len_num0 len_num1 len_bit0 len_bit1) simp
  moreover have "(2 :: nat) ^ k < 2 ^ 64" using k by (intro power_strict_increasing) simp_all
  ultimately show ?thesis by simp
qed

lemma grow_loop_step: "c < needed \<Longrightarrow> grow_loop needed c = grow_loop needed (c * 2)"
  unfolding grow_loop_def by (subst while_option_unfold) simp

lemma grow_loop_stop: "\<not> c < needed \<Longrightarrow> grow_loop needed c = Some c"
  unfolding grow_loop_def by (subst while_option_unfold) simp

text \<open>Past the largest power of two the capacity wraps to zero and stays there.\<close>

lemma grow_loop_zero: "0 < needed \<Longrightarrow> grow_loop needed 0 = None"
proof -
  assume n: "0 < needed"
  have "\<not> 0 < needed" if "grow_loop needed 0 = Some r" for r
  proof -
    from that have stop: "\<not> r < needed" unfolding grow_loop_def by (rule while_option_stop)
    have "r = 0" using while_option_rule[of "\<lambda>c. c = 0" "\<lambda>c. c < needed" "\<lambda>c. c * 2" 0 r] that by (simp add: grow_loop_def)
    with stop show ?thesis by simp
  qed
  with n show ?thesis by (cases "grow_loop needed 0") auto
qed

lemma grow_loop_power:
  assumes "k \<le> 63"
  shows "grow_loop needed (2 ^ k) = (if unat needed \<le> 2 ^ 63 then Some (of_nat (grow_cap (2 ^ k) (unat needed))) else None)
     \<and> (unat needed \<le> 2 ^ 63 \<longrightarrow> grow_cap (2 ^ k) (unat needed) < 2 ^ 64)"
  using assms
proof (induction k rule: inc_induct)
  case base
  have u: "unat ((2 :: u64) ^ 63) = 2 ^ 63" by (rule unat_power_two) simp
  have z: "(2 :: u64) ^ 63 * 2 = 0" by simp
  show ?case
  proof (cases "unat needed \<le> 2 ^ 63")
    case True
    then have s: "\<not> (2 :: u64) ^ 63 < needed" using u by (simp add: word_less_nat_alt)
    have "grow_cap (2 ^ 63) (unat needed) = 2 ^ 63" using True by (subst grow_cap.simps) simp
    then show ?thesis using True grow_loop_stop[OF s] by simp
  next
    case False
    then have s: "(2 :: u64) ^ 63 < needed" using u by (simp add: word_less_nat_alt)
    then have "0 < needed" by (simp add: word_less_nat_alt)
    then show ?thesis using False grow_loop_step[OF s, unfolded z] grow_loop_zero by simp
  qed
next
  case (step k)
  then have u: "unat ((2 :: u64) ^ k) = 2 ^ k" by (intro unat_power_two) simp
  show ?case
  proof (cases "(2 :: u64) ^ k < needed")
    case True
    then have "2 ^ k < unat needed" using u by (simp add: word_less_nat_alt)
    then have "grow_cap (2 ^ k) (unat needed) = grow_cap (2 ^ Suc k) (unat needed)" by (subst grow_cap.simps) (simp add: mult.commute)
    then show ?thesis using step.IH grow_loop_step[OF True] by (simp only: double_power simp_thms) (elim conjE)
  next
    case False
    then have "\<not> 2 ^ k < unat needed" using u by (simp add: word_less_nat_alt)
    then have g: "grow_cap (2 ^ k) (unat needed) = 2 ^ k" by (subst grow_cap.simps) simp
    have lt: "(2 :: nat) ^ k < 2 ^ 63" using step(2) by (intro power_strict_increasing) simp_all
    have le: "unat needed \<le> 2 ^ 63" using \<open>\<not> 2 ^ k < unat needed\<close> lt by linarith
    show ?thesis using grow_loop_stop[OF False] g le lt by simp
  qed
qed

text \<open>C39: When the capacity loop ends.  Started from a power of two, as it always is, the loop returns
  exactly when the request is at most \<open>2 ^ 63\<close>, and then with the capacity the model
  computes on natural numbers, which is enough; for a larger request, a commitment number
  of \<open>2 ^ 63\<close> or more, the capacity wraps to zero and the loop never ends.\<close>

theorem grow_loop_terminates:
  assumes "k \<le> 63"
  shows "(grow_loop needed (2 ^ k) \<noteq> None \<longleftrightarrow> unat needed \<le> 2 ^ 63)
     \<and> (\<forall>c. grow_loop needed (2 ^ k) = Some c \<longrightarrow> needed \<le> c \<and> unat c = grow_cap (2 ^ k) (unat needed))"
proof (cases "unat needed \<le> 2 ^ 63")
  case True
  have p: "(0 :: nat) < 2 ^ k" by simp
  show ?thesis
    using True grow_loop_power[OF assms, of needed] grow_cap_ge[OF p, of "unat needed"]
    by (auto simp: word_le_nat_alt unat_of_nat)
next
  case False
  then show ?thesis using grow_loop_power[OF assms, of needed] by simp
qed

theorem grow_loop_terminates_witness:
  "grow_loop 1000 512 = Some 1024 \<and> grow_loop (2 ^ 63 + 1) 512 = None"
proof -
  have k: "(9 :: nat) \<le> 63" and p: "(2 :: u64) ^ 9 = 512" by simp_all
  have "grow_cap 512 1000 = 1024" by (simp add: grow_cap.simps[of 512] grow_cap.simps[of 1024])
  then have "grow_loop 1000 512 = Some 1024"
    using grow_loop_terminates[OF k, of 1000] unfolding p by (auto simp: word_unat_eq_iff)
  moreover have "grow_loop (2 ^ 63 + 1) 512 = None" using grow_loop_terminates[OF k, of "2 ^ 63 + 1"] unfolding p by simp
  ultimately show ?thesis by simp
qed

end
