(* ===== verification/Rate_Limit.thy ===== *)
theory Rate_Limit
  imports SS_Prelude
begin

text \<open>
  The per-address connection limiter, \<^verbatim>\<open>src/rate_limit.c\<close>: a table of ring buffers of time stamps,
  indexed by a hash of the address.  The clock is an argument of the call; an address is
  the list of its bytes.
\<close>

section \<open>Model\<close>

definition RATE_LIMIT_BUCKETS :: nat where
  "RATE_LIMIT_BUCKETS = 256"

definition RATE_LIMIT_RING_SIZE :: nat where
  "RATE_LIMIT_RING_SIZE = 64"

record rate_limit_bucket =
  ip_hash :: u32
  timestamps :: "int list"
  ring_head :: nat
  ring_count :: nat

record rate_limiter =
  buckets :: "rate_limit_bucket list"
  max_per_window :: int
  window_secs :: int
  max_handshakes :: int
  active_handshakes :: int

definition rate_limiter_init :: "int \<Rightarrow> int \<Rightarrow> int \<Rightarrow> rate_limiter" where
  "rate_limiter_init per_window secs handshakes =
     \<lparr>buckets = replicate RATE_LIMIT_BUCKETS
        \<lparr>ip_hash = 0, timestamps = replicate RATE_LIMIT_RING_SIZE 0, ring_head = 0, ring_count = 0\<rparr>,
      max_per_window = (if per_window > 0 then per_window else 10), window_secs = (if secs > 0 then secs else 60),
      max_handshakes = (if handshakes > 0 then handshakes else 4), active_handshakes = 0\<rparr>"

definition hash_ip :: "bytes \<Rightarrow> u32" where
  "hash_ip ip = foldl (\<lambda>h c. (push_bit 5 h + h) XOR ucast c) 5381 ip"

definition ip_bucket :: "bytes \<Rightarrow> nat" where
  "ip_bucket ip = unat (hash_ip ip) mod RATE_LIMIT_BUCKETS"

text \<open>What a call does to its bucket.\<close>

definition bucket_allow :: "int \<Rightarrow> int \<Rightarrow> u32 \<Rightarrow> int \<Rightarrow> rate_limit_bucket \<Rightarrow> bool \<times> rate_limit_bucket" where
  "bucket_allow per_window secs h now b =
     (let cutoff = now - secs;
          b = (if ring_count b > 0 \<and> ip_hash b \<noteq> h then b\<lparr>ring_count := 0, ring_head := 0\<rparr> else b);
          b = b\<lparr>ip_hash := h\<rparr>;
          recent = int (length (filter (\<lambda>t. t \<ge> cutoff) (take (min (ring_count b) RATE_LIMIT_RING_SIZE) (timestamps b))))
      in if recent \<ge> per_window then (False, b)
         else (True, b\<lparr>timestamps := (timestamps b)[ring_head b := now],
                       ring_head := (ring_head b + 1) mod RATE_LIMIT_RING_SIZE,
                       ring_count := (if ring_count b < RATE_LIMIT_RING_SIZE then ring_count b + 1 else ring_count b)\<rparr>))"

definition rate_limiter_allow :: "rate_limiter \<Rightarrow> bytes \<Rightarrow> int \<Rightarrow> bool \<times> rate_limiter" where
  "rate_limiter_allow rl ip now =
     (let idx = ip_bucket ip;
          (ok, b) = bucket_allow (max_per_window rl) (window_secs rl) (hash_ip ip) now (buckets rl ! idx)
      in (ok, rl\<lparr>buckets := (buckets rl)[idx := b]\<rparr>))"

definition rate_limiter_handshake_start :: "rate_limiter \<Rightarrow> bool \<times> rate_limiter" where
  "rate_limiter_handshake_start rl =
     (if active_handshakes rl \<ge> max_handshakes rl then (False, rl)
      else (True, rl\<lparr>active_handshakes := active_handshakes rl + 1\<rparr>))"

definition rate_limiter_handshake_end :: "rate_limiter \<Rightarrow> rate_limiter" where
  "rate_limiter_handshake_end rl =
     (if active_handshakes rl > 0 then rl\<lparr>active_handshakes := active_handshakes rl - 1\<rparr> else rl)"

section \<open>The ring buffer\<close>

text \<open>The bucket holds the last 64 accepted time stamps \<open>L\<close>, oldest at the head once it is full.\<close>

definition ring_holds :: "int list \<Rightarrow> rate_limit_bucket \<Rightarrow> bool" where
  "ring_holds L b \<longleftrightarrow> length (timestamps b) = RATE_LIMIT_RING_SIZE \<and> ring_head b = length L mod RATE_LIMIT_RING_SIZE
     \<and> ring_count b = min (length L) RATE_LIMIT_RING_SIZE
     \<and> (if length L < RATE_LIMIT_RING_SIZE then take (length L) (timestamps b) = L
        else drop (ring_head b) (timestamps b) @ take (ring_head b) (timestamps b) = drop (length L - RATE_LIMIT_RING_SIZE) L)"

lemma ring_holds_full:
  assumes "ring_holds L b" and "\<not> length L < RATE_LIMIT_RING_SIZE"
  shows "drop (ring_head b) (timestamps b) @ take (ring_head b) (timestamps b) = drop (length L - RATE_LIMIT_RING_SIZE) L"
    "length (timestamps b) = RATE_LIMIT_RING_SIZE" "ring_count b = RATE_LIMIT_RING_SIZE"
  using assms unfolding ring_holds_def by auto

lemma ring_recent:
  assumes "ring_holds L b"
  shows "length (filter P (take (min (ring_count b) RATE_LIMIT_RING_SIZE) (timestamps b)))
    = length (filter P (drop (length L - RATE_LIMIT_RING_SIZE) L))"
proof (cases "length L < RATE_LIMIT_RING_SIZE")
  case True
  with assms show ?thesis by (simp add: ring_holds_def)
next
  case False
  let ?h = "ring_head b" and ?ts = "timestamps b"
  have "length (filter P ?ts) = length (filter P (take ?h ?ts @ drop ?h ?ts))" by simp
  also have "\<dots> = length (filter P (drop ?h ?ts @ take ?h ?ts))" by (simp only: filter_append length_append add.commute)
  also have "\<dots> = length (filter P (drop (length L - RATE_LIMIT_RING_SIZE) L))" using ring_holds_full(1)[OF assms False] by simp
  finally show ?thesis using ring_holds_full(2,3)[OF assms False] by simp
qed

lemma ring_rotate:
  assumes "length ts = n" and "h < n"
  shows "drop (Suc h mod n) (ts[h := x]) @ take (Suc h mod n) (ts[h := x]) = tl (drop h ts @ take h ts) @ [x]"
proof (cases "Suc h = n")
  case True
  then have "drop h ts = [ts ! h]" using assms by (metis Cons_nth_drop_Suc drop_eq_Nil le_refl)
  moreover have "ts[h := x] = take h ts @ [x]" using True assms by (simp add: upd_conv_take_nth_drop)
  ultimately show ?thesis using True by simp
next
  case False
  then have s: "Suc h < n" using assms by simp
  have "drop (Suc h) (ts[h := x]) = drop (Suc h) ts" by simp
  moreover have "take (Suc h) (ts[h := x]) = take h ts @ [x]" using assms by (simp add: take_Suc_conv_app_nth)
  moreover have "drop h ts = ts ! h # drop (Suc h) ts" using assms by (simp add: Cons_nth_drop_Suc)
  ultimately show ?thesis using s by simp
qed

lemma ring_push:
  assumes "ring_holds L b"
  shows "ring_holds (L @ [now]) (b\<lparr>timestamps := (timestamps b)[ring_head b := now],
     ring_head := (ring_head b + 1) mod RATE_LIMIT_RING_SIZE,
     ring_count := (if ring_count b < RATE_LIMIT_RING_SIZE then ring_count b + 1 else ring_count b)\<rparr>)"
proof -
  let ?N = RATE_LIMIT_RING_SIZE and ?h = "ring_head b" and ?ts = "timestamps b"
  have N: "0 < ?N" by (simp add: RATE_LIMIT_RING_SIZE_def)
  have h: "?h = length L mod ?N" "length ?ts = ?N" "ring_count b = min (length L) ?N" using assms by (simp_all add: ring_holds_def)
  then have hN: "?h < ?N" using N by simp
  have hd: "(?h + 1) mod ?N = length (L @ [now]) mod ?N" using h(1) by (simp add: mod_simps)
  have "(if length (L @ [now]) < ?N then take (length (L @ [now])) (?ts[?h := now]) = L @ [now]
      else drop (Suc ?h mod ?N) (?ts[?h := now]) @ take (Suc ?h mod ?N) (?ts[?h := now]) = drop (length (L @ [now]) - ?N) (L @ [now]))"
  proof (cases "length L < ?N")
    case True
    then have e: "?h = length L" and t: "take (length L) ?ts = L" using h assms by (simp_all add: ring_holds_def)
    then have u: "take (Suc (length L)) (?ts[?h := now]) = L @ [now]" using True h(2) by (simp add: take_Suc_conv_app_nth)
    show ?thesis
    proof (cases "Suc (length L) < ?N")
      case False
      with True have "Suc (length L) = ?N" by simp
      then show ?thesis using u e h(2) by (simp add: take_all)
    qed (use u in simp)
  next
    case False
    from ring_holds_full(1)[OF assms False] have "drop (Suc ?h mod ?N) (?ts[?h := now]) @ take (Suc ?h mod ?N) (?ts[?h := now]) = tl (drop (length L - ?N) L) @ [now]"
      using ring_rotate[OF h(2) hN, of now] by simp
    also have "\<dots> = drop (length (L @ [now]) - ?N) (L @ [now])" using False N by (simp add: tl_drop drop_Suc[symmetric] Suc_diff_le)
    finally show ?thesis using False by simp
  qed
  with hd h(2,3) show ?thesis unfolding ring_holds_def by (auto simp: min_def)
qed

section \<open>The sliding window\<close>

definition window_bounded :: "int \<Rightarrow> int \<Rightarrow> int list \<Rightarrow> bool" where
  "window_bounded per_window secs L \<longleftrightarrow> (\<forall>t. int (length (filter (\<lambda>x. t - secs \<le> x \<and> x \<le> t) L)) \<le> per_window)"

lemma recent_suffix:
  assumes "sorted L" and "length (filter (\<lambda>t. c \<le> t) (drop (length L - n) L)) < n"
  shows "length (filter (\<lambda>t. c \<le> t) L) = length (filter (\<lambda>t. c \<le> t) (drop (length L - n) L))"
proof (cases "length L \<le> n")
  case False
  let ?k = "length L - n"
  have "length (drop ?k L) = n" using False by simp
  with assms(2) have "filter (\<lambda>t. c \<le> t) (drop ?k L) \<noteq> drop ?k L" by auto
  then obtain y where y: "y \<in> set (drop ?k L)" "\<not> c \<le> y" by (auto simp: filter_id_conv)
  have "x \<le> y" if "x \<in> set (take ?k L)" for x
    using that y(1) assms(1) sorted_append[of "take ?k L" "drop ?k L"] by auto
  with y(2) have "filter (\<lambda>t. c \<le> t) (take ?k L) = []" by (force simp: filter_empty_conv)
  then show ?thesis using filter_append[of "\<lambda>t. c \<le> t" "take ?k L" "drop ?k L"] by simp
qed simp

lemma window_push:
  assumes "window_bounded m w L" and "int (length (filter (\<lambda>x. now - w \<le> x) L)) < m"
  shows "window_bounded m w (L @ [now])"
  unfolding window_bounded_def
proof
  fix t
  show "int (length (filter (\<lambda>x. t - w \<le> x \<and> x \<le> t) (L @ [now]))) \<le> m"
  proof (cases "now \<le> t")
    case True
    have "filter (\<lambda>x. t - w \<le> x \<and> x \<le> t) L = filter (\<lambda>x. t - w \<le> x \<and> x \<le> t) (filter (\<lambda>x. now - w \<le> x) L)"
      using True by (simp add: filter_filter) (rule filter_cong; auto)
    then have "length (filter (\<lambda>x. t - w \<le> x \<and> x \<le> t) L) \<le> length (filter (\<lambda>x. now - w \<le> x) L)"
      by (metis length_filter_le)
    with assms(2) show ?thesis by simp
  qed (use assms(1) in \<open>simp add: window_bounded_def\<close>)
qed

lemma bucket_allow_step:
  assumes "ring_holds L b" and "L = [] \<or> ip_hash b = h" and "sorted L" and "window_bounded m w L" and "m \<le> 64"
    and "bucket_allow m w h now b = (ok, b')" and "L' = (if ok then L @ [now] else L)"
  shows "ring_holds L' b' \<and> ip_hash b' = h \<and> window_bounded m w L'"
proof -
  let ?b = "b\<lparr>ip_hash := h\<rparr>"
  have c: "\<not> (ring_count b > 0 \<and> ip_hash b \<noteq> h)" using assms(1,2) by (auto simp: ring_holds_def)
  have r: "ring_holds L ?b" using assms(1) by (auto simp: ring_holds_def)
  let ?n = "length (filter (\<lambda>t. now - w \<le> t) (drop (length L - RATE_LIMIT_RING_SIZE) L))"
  have rec: "length (filter (\<lambda>t. t \<ge> now - w) (take (min (ring_count b) RATE_LIMIT_RING_SIZE) (timestamps b))) = ?n"
    using ring_recent[OF assms(1), of "\<lambda>t. now - w \<le> t"] by simp
  show ?thesis
  proof (cases "int ?n \<ge> m")
    case True
    then show ?thesis using assms(4,6,7) c r rec by (auto simp: bucket_allow_def Let_def)
  next
    case False
    then have "?n < RATE_LIMIT_RING_SIZE" using assms(5) by (simp add: RATE_LIMIT_RING_SIZE_def)
    then have "int (length (filter (\<lambda>x. now - w \<le> x) L)) < m" using False recent_suffix[OF assms(3), of "now - w"] by simp
    then have "window_bounded m w (L @ [now])" by (rule window_push[OF assms(4)])
    then show ?thesis using assms(6,7) c ring_push[OF r, of now] False rec by (auto simp: bucket_allow_def Let_def)
  qed
qed

section \<open>Any sequence of calls\<close>

fun accepted :: "rate_limiter \<Rightarrow> (bytes \<times> int) list \<Rightarrow> (bytes \<times> int) list" where
  "accepted rl [] = []"
| "accepted rl ((ip, now) # calls) =
     (case rate_limiter_allow rl ip now of (ok, rl') \<Rightarrow> (if ok then [(ip, now)] else []) @ accepted rl' calls)"

definition times_of :: "u32 \<Rightarrow> (bytes \<times> int) list \<Rightarrow> int list" where
  "times_of h calls = map snd (filter (\<lambda>(ip, t). hash_ip ip = h) calls)"

lemma accepted_window:
  assumes "length (buckets rl) = RATE_LIMIT_BUCKETS" and "ring_holds L (buckets rl ! ip_bucket ip0)"
    and "L = [] \<or> ip_hash (buckets rl ! ip_bucket ip0) = hash_ip ip0"
    and "sorted (L @ map snd calls)" and "window_bounded (max_per_window rl) (window_secs rl) L" and "max_per_window rl \<le> 64"
    and "\<forall>(ip, t)\<in>set calls. ip_bucket ip = ip_bucket ip0 \<longrightarrow> hash_ip ip = hash_ip ip0"
  shows "window_bounded (max_per_window rl) (window_secs rl) (L @ times_of (hash_ip ip0) (accepted rl calls))"
  using assms
proof (induction calls arbitrary: rl L)
  case (Cons call calls)
  obtain ip now where call: "call = (ip, now)" by (cases call)
  obtain ok b' where b: "bucket_allow (max_per_window rl) (window_secs rl) (hash_ip ip) now (buckets rl ! ip_bucket ip) = (ok, b')"
    by (cases "bucket_allow (max_per_window rl) (window_secs rl) (hash_ip ip) now (buckets rl ! ip_bucket ip)")
  let ?rl = "rl\<lparr>buckets := (buckets rl)[ip_bucket ip := b']\<rparr>"
  have al: "rate_limiter_allow rl ip now = (ok, ?rl)" by (simp add: rate_limiter_allow_def Let_def b)
  have lt: "ip_bucket ip < length (buckets rl)" using Cons.prems(1) by (simp add: ip_bucket_def RATE_LIMIT_BUCKETS_def)
  have le: "\<forall>x\<in>set L. x \<le> now" and s: "sorted L" "sorted (L @ map snd calls)" "sorted ((L @ [now]) @ map snd calls)"
    using Cons.prems(4) by (auto simp: call sorted_append)
  show ?case
  proof (cases "ip_bucket ip = ip_bucket ip0")
    case True
    then have h: "hash_ip ip = hash_ip ip0" using Cons.prems(7) by (simp add: call)
    let ?L = "if ok then L @ [now] else L"
    have st: "ring_holds ?L b' \<and> ip_hash b' = hash_ip ip0 \<and> window_bounded (max_per_window rl) (window_secs rl) ?L"
      using bucket_allow_step[OF _ _ s(1) Cons.prems(5,6) b refl] Cons.prems(2,3) True h by simp
    have "window_bounded (max_per_window ?rl) (window_secs ?rl) (?L @ times_of (hash_ip ip0) (accepted ?rl calls))"
      by (rule Cons.IH) (use st True lt s Cons.prems in auto)
    then show ?thesis by (simp add: call al times_of_def h split: if_split_asm)
  next
    case False
    then have h: "hash_ip ip \<noteq> hash_ip ip0" by (auto simp: ip_bucket_def)
    have "window_bounded (max_per_window ?rl) (window_secs ?rl) (L @ times_of (hash_ip ip0) (accepted ?rl calls))"
      by (rule Cons.IH) (use False s(2) Cons.prems in auto)
    then show ?thesis by (simp add: call al times_of_def h)
  qed
qed (simp add: times_of_def)

text \<open>The ring has 64 time stamps, so a larger limit is never reached.\<close>

lemma bucket_allow_wide: "64 < m \<Longrightarrow> fst (bucket_allow m w h now b)"
proof -
  assume m: "64 < m"
  have "int (length (filter P (take (min c 64) xs))) < m" for P c and xs :: "int list"
  proof -
    have "length (filter P (take (min c 64) xs)) \<le> 64" by (rule le_trans[OF length_filter_le]) simp
    then show ?thesis using m by linarith
  qed
  then show ?thesis unfolding bucket_allow_def Let_def RATE_LIMIT_RING_SIZE_def by (simp add: not_le)
qed

lemma accepted_wide: "64 < max_per_window rl \<Longrightarrow> accepted rl calls = calls"
  using bucket_allow_wide
  by (induction calls arbitrary: rl) (auto simp: rate_limiter_allow_def Let_def split: prod.splits, metis fst_conv)



text \<open>A different address in the same bucket resets it and is always let in.\<close>

lemma rate_limiter_collision_resets:
  assumes "0 < m" and "ring_count b > 0" and "ip_hash b \<noteq> h"
  shows "fst (bucket_allow m w h now b)"
  using assms by (simp add: bucket_allow_def Let_def)

end
