(* ===== verification/Bech32m.thy ===== *)
theory Bech32m
  imports SS_Prelude
begin

text \<open>
  The bech32m strings of offers and invoices, \<^verbatim>\<open>src/bech32m.c\<close>.  A C string is the list of its bytes
  without the terminator; output buffers are lists, with the capacity checks of the code.
\<close>

section \<open>Model\<close>

definition BECH32M_CONST :: u32 where
  "BECH32M_CONST = 0x2bc830a3"

definition BECH32M_MAX_HRP :: nat where
  "BECH32M_MAX_HRP = 83"

definition BECH32M_MAX_DATA5 :: nat where
  "BECH32M_MAX_DATA5 = 1024"

definition CHARSET :: bytes where
  "CHARSET = map of_char ''qpzry9x8gf2tvdw0s3jn54khce6mua7l''"

definition SEPARATOR :: u8 where
  "SEPARATOR = 49"

text \<open>The reverse table: the position of a character, nothing for a character outside.\<close>

definition charset_rev :: "u8 \<Rightarrow> u8 option" where
  "charset_rev c = map_of (zip CHARSET (map of_nat [0..<32])) c"

definition tolower :: "u8 \<Rightarrow> u8" where
  "tolower c = (if 65 \<le> c \<and> c \<le> 90 then c + 32 else c)"

definition polymod_step :: "u32 \<Rightarrow> u8 \<Rightarrow> u32" where
  "polymod_step c v =
     (let c0 = ucast (drop_bit 25 c) :: u8;
          c = push_bit 5 (c AND 0x1ffffff) XOR ucast v;
          c = (if c0 AND 1 \<noteq> 0 then c XOR 0x3b6a57b2 else c);
          c = (if c0 AND 2 \<noteq> 0 then c XOR 0x26508e6d else c);
          c = (if c0 AND 4 \<noteq> 0 then c XOR 0x1ea119fa else c);
          c = (if c0 AND 8 \<noteq> 0 then c XOR 0x3d4233dd else c)
      in if c0 AND 16 \<noteq> 0 then c XOR 0x2a1462b3 else c)"

definition bech32_polymod :: "bytes \<Rightarrow> u32" where
  "bech32_polymod values = foldl polymod_step 1 values"

definition bech32m_checksum :: "bytes \<Rightarrow> bytes \<Rightarrow> u32" where
  "bech32m_checksum hrp data5 =
     (if length hrp * 2 + 1 + length data5 + 6 > BECH32M_MAX_HRP * 2 + 1 + BECH32M_MAX_DATA5 + 6 then 0
      else bech32_polymod (map (drop_bit 5) hrp @ [0] @ map (\<lambda>c. c AND 0x1f) hrp @ data5 @ replicate 6 0) XOR BECH32M_CONST)"

text \<open>The inner \<^verbatim>\<open>while (bits >= 5)\<close>, then the loop over the bytes; \<open>bits\<close> counts the pending low bits of
  the accumulator.\<close>

fun emit5 :: "u32 \<Rightarrow> nat \<Rightarrow> bytes" where
  "emit5 acc bits = (if bits \<ge> 5 then ucast (drop_bit (bits - 5) acc AND 0x1f) # emit5 acc (bits - 5) else [])"

fun to5_loop :: "u32 \<Rightarrow> nat \<Rightarrow> bytes \<Rightarrow> bytes" where
  "to5_loop acc bits [] = (if bits > 0 then [ucast (push_bit (5 - bits) acc AND 0x1f)] else [])"
| "to5_loop acc bits (d # ds) =
     (let acc = push_bit 8 acc OR ucast d; bits = bits + 8 in emit5 acc bits @ to5_loop acc (bits mod 5) ds)"

definition bytes_to_5bit :: "bytes \<Rightarrow> nat \<Rightarrow> bytes option" where
  "bytes_to_5bit d out_cap = (let out = to5_loop 0 0 d in if length out > out_cap then None else Some out)"

text \<open>Back to bytes: the bytes, and the pending bits at the end.\<close>

fun from5_loop :: "u32 \<Rightarrow> nat \<Rightarrow> bytes \<Rightarrow> bytes \<times> u32 \<times> nat" where
  "from5_loop acc bits [] = ([], acc, bits)"
| "from5_loop acc bits (v # vs) =
     (let acc = push_bit 5 acc OR ucast v; bits = bits + 5
      in if bits \<ge> 8
         then (case from5_loop acc (bits - 8) vs of (out, r) \<Rightarrow> (ucast (drop_bit (bits - 8) acc AND 0xff) # out, r))
         else from5_loop acc bits vs)"

definition fivebit_to_bytes :: "bytes \<Rightarrow> nat \<Rightarrow> bytes option" where
  "fivebit_to_bytes data5 out_cap =
     (case from5_loop 0 0 data5 of (out, acc, bits) \<Rightarrow>
        if length out > out_cap then None
        else if bits \<ge> 5 then None
        else if bits > 0 \<and> acc AND (push_bit bits 1 - 1) \<noteq> 0 then None
        else Some out)"

text \<open>Where the C functions signal an error by the length 0, the model returns nothing; the callers
  reject that length for non-empty input only, and no error occurs on empty input.\<close>

definition bech32m_encode :: "bytes \<Rightarrow> bytes \<Rightarrow> nat \<Rightarrow> bytes option" where
  "bech32m_encode hrp d out_cap =
     (if length hrp = 0 \<or> length hrp > BECH32M_MAX_HRP then None
      else case bytes_to_5bit d BECH32M_MAX_DATA5 of None \<Rightarrow> None
      | Some data5 \<Rightarrow>
          let need = length hrp + 1 + length data5 + 6 + 1 in
          if out_cap < need then None
          else let hrp_lower = map tolower hrp;
                   chk = bech32m_checksum hrp_lower data5
               in Some (hrp_lower @ [SEPARATOR] @ map (\<lambda>v. CHARSET ! unat v) data5
                        @ map (\<lambda>i. CHARSET ! unat (drop_bit (i * 5) chk AND 0x1f)) [5, 4, 3, 2, 1, 0]))"

text \<open>The last separator splits the string.\<close>

definition last_separator :: "bytes \<Rightarrow> nat option" where
  "last_separator s = (case filter (\<lambda>i. s ! i = SEPARATOR) (rev [0..<length s]) of [] \<Rightarrow> None | i # _ \<Rightarrow> Some i)"

fun decode_chars :: "bytes \<Rightarrow> bytes option" where
  "decode_chars [] = Some []"
| "decode_chars (c # cs) =
     (case charset_rev (tolower c) of None \<Rightarrow> None
      | Some v \<Rightarrow> (case decode_chars cs of None \<Rightarrow> None | Some vs \<Rightarrow> Some (v # vs)))"

definition actual_checksum :: "bytes \<Rightarrow> u32" where
  "actual_checksum six = foldl (\<lambda>c i. c OR push_bit (i * 5) (ucast (six ! (5 - i)))) 0 [5, 4, 3, 2, 1, 0]"

definition bech32m_decode :: "bytes \<Rightarrow> bytes option \<Rightarrow> nat \<Rightarrow> bytes option" where
  "bech32m_decode str hrp_expected out_cap =
     (if length str < 8 then None
      else case last_separator str of None \<Rightarrow> None
      | Some sep \<Rightarrow>
        if sep < 1 \<or> length str - sep - 1 < 6 \<or> sep > BECH32M_MAX_HRP then None
        else let hrp_lower = map tolower (take sep str);
                 total5_len = length str - sep - 1;
                 data5_len = total5_len - 6
        in if total5_len > BECH32M_MAX_DATA5 then None
           else case decode_chars (drop (sep + 1) str) of None \<Rightarrow> None
           | Some vals \<Rightarrow>
             if bech32m_checksum hrp_lower (take data5_len vals) \<noteq> actual_checksum (drop data5_len vals) then None
             else if (case hrp_expected of None \<Rightarrow> False | Some e \<Rightarrow> map tolower e \<noteq> hrp_lower) then None
             else fivebit_to_bytes (take data5_len vals) out_cap)"

section \<open>Regrouping bits\<close>

text \<open>The low \<open>n\<close> bits of a word, most significant first.\<close>

definition be_bits :: "nat \<Rightarrow> 'a::len word \<Rightarrow> bool list" where
  "be_bits n w = map (bit w) (rev [0..<n])"

lemma length_be_bits [simp]: "length (be_bits n w) = n"
  by (simp add: be_bits_def)

lemma be_bits_0 [simp]: "be_bits 0 w = []"
  by (simp add: be_bits_def)

lemma append_eq_extend: "a @ b = c @ d \<Longrightarrow> a @ b @ x = c @ d @ x"
  by (metis append_assoc)

lemma be_bits_cong: "(\<And>i. i < n \<Longrightarrow> bit v i = bit w i) \<Longrightarrow> be_bits n v = be_bits n w"
  by (simp add: be_bits_def)

lemma be_bits_split: "be_bits (m + n) w = be_bits m (drop_bit n w) @ be_bits n w"
proof -
  have "[0..<m + n] = [0..<n] @ map (\<lambda>i. i + n) [0..<m]"
    using upt_add_eq_append[of 0 n m] by (simp add: map_add_upt add.commute[of n m])
  moreover have "bit w (i + n) = bit (drop_bit n w) i" for i by (simp add: bit_drop_bit_eq add.commute[of i n])
  ultimately show ?thesis by (simp add: be_bits_def rev_map comp_def)
qed

lemma be_bits_append:
  assumes "n + k \<le> 32" and "\<And>i. k \<le> i \<Longrightarrow> \<not> bit d i"
  shows "be_bits (n + k) (push_bit k (acc :: u32) OR ucast (d :: u8)) = be_bits n acc @ be_bits k d"
proof -
  have "be_bits n (drop_bit k (push_bit k acc OR ucast d)) = be_bits n acc"
    by (rule be_bits_cong) (use assms in \<open>auto simp: bit_simps\<close>)
  moreover have "be_bits k (push_bit k acc OR ucast d) = be_bits k d"
    by (rule be_bits_cong) (use assms in \<open>auto simp: bit_simps\<close>)
  ultimately show ?thesis by (simp add: be_bits_split)
qed

lemma bit_and_31: "bit ((w :: u32) AND 0x1f) i \<longleftrightarrow> bit w i \<and> i < 5"
proof -
  have "(0x1f :: u32) = mask 5" by (simp add: mask_eq_exp_minus_1)
  then show ?thesis by (simp only: bit_and_iff bit_mask_iff) (auto dest: bit_imp_le_length)
qed

lemma be_bits_group: "be_bits 5 (ucast ((w :: u32) AND 0x1f) :: u8) = be_bits 5 w"
  by (rule be_bits_cong) (simp only: bit_unsigned_iff bit_and_31, simp)

lemma group_small: "5 \<le> i \<Longrightarrow> \<not> bit (ucast ((w :: u32) AND 0x1f) :: u8) i"
  by (simp only: bit_unsigned_iff bit_and_31, simp)

lemma emit5_bits:
  "concat (map (be_bits 5) (emit5 acc n)) @ be_bits (n mod 5) acc = be_bits n acc"
proof (induction acc n rule: emit5.induct)
  case (1 acc n)
  show ?case
  proof (cases "n \<ge> 5")
    case True
    then have "be_bits n acc = be_bits 5 (drop_bit (n - 5) acc) @ be_bits (n - 5) acc"
      using be_bits_split[of 5 "n - 5" acc] by simp
    moreover have "n mod 5 = (n - 5) mod 5" using True by (simp add: le_mod_geq)
    ultimately show ?thesis using True "1.IH" by (subst emit5.simps) (simp add: be_bits_group)
  next
    case False
    then show ?thesis by (subst emit5.simps) simp
  qed
qed

declare emit5.simps [simp del]

lemma emit5_small: "v \<in> set (emit5 acc n) \<Longrightarrow> 5 \<le> i \<Longrightarrow> \<not> bit v i"
proof (induction acc n rule: emit5.induct)
  case (1 acc n)
  then show ?case by (subst (asm) (2) emit5.simps) (auto simp: group_small split: if_splits)
qed

lemma to5_bits:
  "n < 5 \<Longrightarrow> \<exists>pad<5. concat (map (be_bits 5) (to5_loop acc n ds)) = be_bits n acc @ concat (map (be_bits 8) ds) @ replicate pad False"
proof (induction acc n ds rule: to5_loop.induct)
  case (1 acc n)
  show ?case
  proof (cases "n = 0")
    case False
    have "be_bits 5 (push_bit (5 - n) acc) = be_bits n (drop_bit (5 - n) (push_bit (5 - n) acc)) @ be_bits (5 - n) (push_bit (5 - n) acc)"
      using be_bits_split[of n "5 - n" "push_bit (5 - n) acc"] "1.prems" by simp
    moreover have "be_bits n (drop_bit (5 - n) (push_bit (5 - n) acc)) = be_bits n acc"
      by (rule be_bits_cong) (use "1.prems" in \<open>auto simp: bit_simps\<close>)
    moreover have "be_bits (5 - n) (push_bit (5 - n) acc) = replicate (5 - n) False"
      by (rule nth_equalityI) (auto simp: be_bits_def rev_nth bit_simps)
    ultimately show ?thesis using False "1.prems" by (intro exI[of _ "5 - n"]) (simp add: be_bits_group)
  qed simp
next
  case (2 acc n d ds)
  define a where "a = push_bit 8 acc OR ucast d"
  have step: "to5_loop acc n (d # ds) = emit5 a (n + 8) @ to5_loop a ((n + 8) mod 5) ds"
    by (simp only: to5_loop.simps Let_def a_def)
  have "(n + 8) mod 5 < 5" by simp
  with "2.IH"[OF a_def refl] obtain pad where "pad < 5"
    and p: "concat (map (be_bits 5) (to5_loop a ((n + 8) mod 5) ds))
      = be_bits ((n + 8) mod 5) a @ concat (map (be_bits 8) ds) @ replicate pad False"
    by blast
  have "be_bits (n + 8) a = be_bits n acc @ be_bits 8 d"
    unfolding a_def by (rule be_bits_append) (use "2.prems" in \<open>auto dest: bit_imp_le_length\<close>)
  then have "concat (map (be_bits 5) (emit5 a (n + 8))) @ be_bits ((n + 8) mod 5) a = be_bits n acc @ be_bits 8 d"
    using emit5_bits[of a "n + 8"] by simp
  from append_eq_extend[OF this] have "concat (map (be_bits 5) (to5_loop acc n (d # ds)))
      = be_bits n acc @ concat (map (be_bits 8) (d # ds)) @ replicate pad False"
    unfolding step map_append concat_append p by simp
  then show ?case using \<open>pad < 5\<close> by blast
qed

lemma to5_small: "v \<in> set (to5_loop acc n ds) \<Longrightarrow> 5 \<le> i \<Longrightarrow> \<not> bit v i"
  by (induction acc n ds rule: to5_loop.induct) (auto simp: Let_def group_small dest: emit5_small split: if_splits)

lemma be_bits_byte: "be_bits 8 (ucast ((w :: u32) AND 0xff) :: u8) = be_bits 8 w"
proof (rule be_bits_cong)
  fix i :: nat assume "i < 8"
  have "(0xff :: u32) = mask 8" by (simp add: mask_eq_exp_minus_1)
  then have "bit (w AND 0xff) i = bit w i" using \<open>i < 8\<close> by (simp only: bit_and_iff bit_mask_iff) (auto dest: bit_imp_le_length)
  then show "bit (ucast (w AND 0xff) :: u8) i = bit w i" using \<open>i < 8\<close> by (simp only: bit_unsigned_iff) simp
qed

lemma from5_bits:
  "n < 8 \<Longrightarrow> (\<And>v i. v \<in> set vs \<Longrightarrow> 5 \<le> i \<Longrightarrow> \<not> bit v i) \<Longrightarrow> from5_loop acc n vs = (out, acc', n') \<Longrightarrow>
   n' < 8 \<and> be_bits n acc @ concat (map (be_bits 5) vs) = concat (map (be_bits 8) out) @ be_bits n' acc'"
proof (induction acc n vs arbitrary: out rule: from5_loop.induct)
  case (2 acc n v vs)
  define a where "a = push_bit 5 acc OR ucast v"
  have app: "be_bits (n + 5) a = be_bits n acc @ be_bits 5 v"
    unfolding a_def by (rule be_bits_append) (use "2.prems" in auto)
  have vs: "\<And>v i. v \<in> set vs \<Longrightarrow> 5 \<le> i \<Longrightarrow> \<not> bit v i" using "2.prems"(2) by simp
  show ?case
  proof (cases "n + 5 \<ge> 8")
    case True
    then obtain rest where r: "from5_loop a (n + 5 - 8) vs = (rest, acc', n')"
      and out: "out = ucast (drop_bit (n + 5 - 8) a AND 0xff) # rest"
      using "2.prems"(3) by (auto simp: Let_def a_def[symmetric] split: prod.splits)
    have "8 + (n + 5 - 8) = n + 5" using True by simp
    then have eq: "be_bits n acc @ be_bits 5 v = be_bits 8 (ucast (drop_bit (n + 5 - 8) a AND 0xff) :: u8) @ be_bits (n + 5 - 8) a"
      using be_bits_split[of 8 "n + 5 - 8" a] app by (simp only: be_bits_byte)
    have "n + 5 - 8 < 8" using "2.prems"(1) by simp
    from "2.IH"(1)[OF a_def refl True this vs r] show ?thesis
      using append_eq_extend[OF eq, of "concat (map (be_bits 5) vs)"] by (simp add: out)
  next
    case False
    then have r: "from5_loop a (n + 5) vs = (out, acc', n')" using "2.prems"(3) by (simp add: Let_def a_def)
    show ?thesis using "2.IH"(2)[OF a_def refl False _ vs r] False app by simp
  qed
qed simp

lemma be_bits_inj: "be_bits 8 v = be_bits 8 w \<Longrightarrow> v = (w :: u8)"
  by (rule bit_eqI) (auto simp: be_bits_def dest: bit_imp_le_length)

lemma bytes_bits_inj:
  assumes "concat (map (be_bits 8) xs) @ r = concat (map (be_bits 8) ys) @ s" and "length r < 8" and "length s < 8"
  shows "xs = (ys :: bytes) \<and> r = s"
proof -
  have len: "length (concat (map (be_bits 8) zs)) = 8 * length zs" for zs :: bytes by (induction zs) simp_all
  from arg_cong[OF assms(1), of length] have "8 * length xs + length r = 8 * length ys + length s" by (simp add: len)
  then have l: "length xs = length ys" "length r = length s" using assms(2,3) by presburger+
  then have "concat (map (be_bits 8) xs) = concat (map (be_bits 8) ys)" "r = s" using assms(1) len by (simp_all add: append_eq_append_conv)
  moreover have "xs = ys" if "map (be_bits 8) xs = map (be_bits 8) ys"
    using that by (rule map_injective) (auto intro: injI be_bits_inj)
  moreover have "\<forall>(x, y) \<in> set (zip (map (be_bits 8) xs) (map (be_bits 8) ys)). length x = length y"
    by (auto simp: zip_map_map)
  ultimately show ?thesis using l concat_eq_concat_iff[of "map (be_bits 8) xs" "map (be_bits 8) ys"] by simp
qed

lemma regroup_round_trip:
  assumes "length d \<le> out_cap"
  shows "fivebit_to_bytes (to5_loop 0 0 d) out_cap = Some d"
proof -
  obtain out acc n where f: "from5_loop 0 0 (to5_loop 0 0 d) = (out, acc, n)" by (cases "from5_loop 0 0 (to5_loop 0 0 d)")
  obtain pad where p: "pad < 5" "concat (map (be_bits 5) (to5_loop 0 0 d)) = concat (map (be_bits 8) d) @ replicate pad False"
    using to5_bits[of 0 0 d] by auto
  from from5_bits[OF _ to5_small f] have n: "n < 8" "concat (map (be_bits 8) d) @ replicate pad False = concat (map (be_bits 8) out) @ be_bits n acc"
    by (simp_all add: p(2))
  have o: "out = d" "be_bits n acc = replicate pad False"
    using bytes_bits_inj[OF n(2)] p(1) n(1) by auto
  then have np: "n = pad" by (metis length_be_bits length_replicate)
  have "acc AND (push_bit n 1 - 1) = 0"
  proof (rule bit_eqI)
    fix i
    have "push_bit n (1 :: u32) - 1 = mask n" by (simp add: mask_eq_exp_minus_1)
    moreover have "\<not> bit acc i" if "i < n"
    proof -
      have "be_bits n acc ! (n - Suc i) = False" using o(2) np that by simp
      then show ?thesis using that by (simp add: be_bits_def rev_nth)
    qed
    ultimately show "bit (acc AND (push_bit n 1 - 1)) i = bit (0 :: u32) i" by (auto simp: bit_simps)
  qed
  then show ?thesis using assms p(1) np by (simp add: fivebit_to_bytes_def f o(1))
qed


section \<open>Characters, the separator and the checksum\<close>

lemma charset_table:
  "list_all (\<lambda>v. charset_rev (tolower (CHARSET ! v)) = Some (of_nat v) \<and> CHARSET ! v \<noteq> SEPARATOR) [0..<32]"
  by code_simp

lemma charset_inverse: "v < 32 \<Longrightarrow> charset_rev (tolower (CHARSET ! v)) = Some (of_nat v)"
  and charset_no_separator: "v < 32 \<Longrightarrow> CHARSET ! v \<noteq> SEPARATOR"
  using charset_table by (auto simp: list_all_iff)

lemma decode_chars_charset:
  "(\<And>v. v \<in> set vs \<Longrightarrow> unat v < 32) \<Longrightarrow> decode_chars (map (\<lambda>v. CHARSET ! unat v) vs) = Some vs"
  by (induction vs) (simp_all add: charset_inverse)

lemma small_unat: "(\<And>i. 5 \<le> i \<Longrightarrow> \<not> bit v i) \<Longrightarrow> unat (v :: u8) < 32"
proof -
  assume a: "\<And>i. 5 \<le> i \<Longrightarrow> \<not> bit v i"
  have "take_bit 5 v = v" by (rule bit_eqI) (metis a bit_take_bit_iff not_le)
  then have "unat v = take_bit 5 (unat v)" by (metis unsigned_take_bit_eq)
  then show ?thesis using take_bit_nat_less_exp[of 5 "unat v"] by simp
qed

lemma last_separator_split:
  assumes "SEPARATOR \<notin> set b"
  shows "last_separator (a @ SEPARATOR # b) = Some (length a)"
proof -
  have r: "rev [0..<length (a @ SEPARATOR # b)] = rev [Suc (length a)..<Suc (length a) + length b] @ length a # rev [0..<length a]"
    using upt_add_eq_append[of 0 "Suc (length a)" "length b"] by simp
  have f: "filter (\<lambda>i. (a @ SEPARATOR # b) ! i = SEPARATOR) (rev [Suc (length a)..<Suc (length a) + length b]) = []"
    using assms by (auto simp: filter_empty_conv nth_append nth_Cons' in_set_conv_nth)
  show ?thesis unfolding last_separator_def r filter_append f by simp
qed

lemma polymod_step_30: "take_bit 30 (polymod_step c v) = polymod_step c v"
proof -
  have "take_bit 30 (push_bit 5 (c AND 0x1ffffff)) = push_bit 5 (c AND 0x1ffffff)"
  proof (rule bit_eqI)
    fix i
    have m: "(0x1ffffff :: u32) = mask 25" by (simp add: mask_eq_exp_minus_1)
    show "bit (take_bit 30 (push_bit 5 (c AND 0x1ffffff))) i = bit (push_bit 5 (c AND 0x1ffffff)) i"
      unfolding m by (simp only: bit_take_bit_iff bit_push_bit_iff bit_and_iff bit_mask_iff) auto
  qed
  moreover have "take_bit 30 (ucast v :: u32) = ucast v"
    by (rule bit_eqI) (auto simp: bit_simps dest: bit_imp_le_length)
  ultimately show ?thesis by (simp add: polymod_step_def Let_def take_bit_xor)
qed

lemma foldl_polymod_30: "take_bit 30 c = c \<Longrightarrow> take_bit 30 (foldl polymod_step c vs) = foldl polymod_step c vs"
  by (induction vs arbitrary: c) (simp_all add: polymod_step_30)

lemma bech32_polymod_30: "take_bit 30 (bech32_polymod vs) = bech32_polymod vs"
  unfolding bech32_polymod_def by (rule foldl_polymod_30) simp

lemma checksum_30: "take_bit 30 (bech32m_checksum hrp vs) = bech32m_checksum hrp vs"
proof -
  have "take_bit 30 BECH32M_CONST = BECH32M_CONST" by (simp add: BECH32M_CONST_def)
  then show ?thesis by (simp only: bech32m_checksum_def take_bit_xor bech32_polymod_30 take_bit_of_0 split: if_split) simp
qed

lemma checksum_recombines:
  assumes "take_bit 30 c = c"
  shows "actual_checksum (map (\<lambda>i. ucast (drop_bit (i * 5) c AND 0x1f)) [5, 4, 3, 2, 1, 0]) = c"
proof (rule bit_word_eqI)
  fix n :: nat assume "n < LENGTH(32)"
  define p where "p k = push_bit k (ucast (ucast (drop_bit k c AND 0x1f) :: u8) :: u32)" for k
  have g: "bit (p k) n \<longleftrightarrow> k \<le> n \<and> n < k + 5 \<and> bit c n" for k
    using \<open>n < LENGTH(32)\<close> unfolding p_def
    by (simp only: bit_push_bit_iff bit_unsigned_iff bit_and_31 bit_drop_bit_eq) (auto dest: bit_imp_le_length)
  have "actual_checksum (map (\<lambda>i. ucast (drop_bit (i * 5) c AND 0x1f)) [5, 4, 3, 2, 1, 0])
      = ((((p (5 * 5) OR p (4 * 5)) OR p (3 * 5)) OR p (2 * 5)) OR p (1 * 5)) OR p (0 * 5)"
    by (simp add: actual_checksum_def p_def)
  moreover have "bit c n \<Longrightarrow> n < 30" using assms by (metis bit_take_bit_iff)
  ultimately show "bit (actual_checksum (map (\<lambda>i. ucast (drop_bit (i * 5) c AND 0x1f)) [5, 4, 3, 2, 1, 0])) n = bit c n"
    by (cases "bit c n") (simp_all only: bit_or_iff g, arith+)
qed


section \<open>Round trip\<close>

lemma length_to5: "length d \<le> 636 \<Longrightarrow> length (to5_loop 0 0 d) \<le> 1018"
proof -
  assume "length d \<le> 636"
  obtain pad where p: "pad < 5" "concat (map (be_bits 5) (to5_loop 0 0 d)) = concat (map (be_bits 8) d) @ replicate pad False"
    using to5_bits[of 0 0 d] by auto
  have "length (concat (map (be_bits k) zs)) = k * length zs" for k and zs :: bytes by (induction zs) simp_all
  with arg_cong[OF p(2), of length] have "5 * length (to5_loop 0 0 d) = 8 * length d + pad" by simp
  then show ?thesis using p(1) \<open>length d \<le> 636\<close> by simp
qed

lemma tolower_idem [simp]: "tolower (tolower c) = tolower c"
  by (auto simp: tolower_def word_le_nat_alt unat_plus_if')

text \<open>The characters after the separator, as the five-bit values they stand for.\<close>

definition checksum_groups :: "u32 \<Rightarrow> bytes" where
  "checksum_groups c = map (\<lambda>i. ucast (drop_bit (i * 5) c AND 0x1f)) [5, 4, 3, 2, 1, 0]"

lemma length_checksum_groups [simp]: "length (checksum_groups c) = 6"
  by (simp add: checksum_groups_def)

lemma checksum_groups_small: "v \<in> set (checksum_groups c) \<Longrightarrow> unat v < 32"
proof (rule small_unat)
  fix i :: nat
  assume "v \<in> set (checksum_groups c)" and "5 \<le> i"
  then obtain w where "v = ucast ((w :: u32) AND 0x1f)" unfolding checksum_groups_def set_map by blast
  then show "\<not> bit v i" using group_small[OF \<open>5 \<le> i\<close>] by blast
qed

lemma checksum_chars:
  "map (\<lambda>i. CHARSET ! unat (drop_bit (i * 5) c AND 0x1f)) [5, 4, 3, 2, 1, 0] = map (\<lambda>v. CHARSET ! unat v) (checksum_groups c)"
proof -
  have "unat (ucast (w AND 0x1f) :: u8) = unat (w AND 0x1f)" for w :: u32
  proof -
    have "w AND 0x1f < 256" by (rule order.strict_trans1[OF word_and_le1]) simp
    then show ?thesis by (simp add: word_less_nat_alt unsigned_ucast_eq take_bit_nat_eq_self)
  qed
  then show ?thesis by (simp only: checksum_groups_def list.map)
qed


lemma bech32m_encode_shape:
  assumes "bech32m_encode hrp d out_cap = Some s"
  shows "1 \<le> length hrp \<and> length hrp \<le> 83 \<and>
         s = map tolower hrp @ SEPARATOR # map (\<lambda>v. CHARSET ! unat v)
               (to5_loop 0 0 d @ checksum_groups (bech32m_checksum (map tolower hrp) (to5_loop 0 0 d)))"
proof -
  from assms have "length hrp \<noteq> 0 \<and> length hrp \<le> 83"
    and "s = map tolower hrp @ [SEPARATOR] @ map (\<lambda>v. CHARSET ! unat v) (to5_loop 0 0 d)
        @ map (\<lambda>i. CHARSET ! unat (drop_bit (i * 5) (bech32m_checksum (map tolower hrp) (to5_loop 0 0 d)) AND 0x1f)) [5, 4, 3, 2, 1, 0]"
    unfolding bech32m_encode_def bytes_to_5bit_def Let_def BECH32M_MAX_HRP_def
    by (simp_all only: split: if_splits option.splits) (auto split: if_splits)
  then show ?thesis unfolding checksum_chars by (simp add: Suc_le_eq)
qed

text \<open>C37: Whatever string the encoder returns, the decoder turns back into exactly the bytes that were
  encoded, for any payload of at most 636 bytes (a larger one can be encoded, but its characters and the
  checksum no longer fit the decoder's buffer) and a large enough output: the prefix may be written in any
  case and may itself contain the separator, the five-bit padding is removed, and the checksum verifies.
  With an expected prefix, the string is accepted just when the prefixes agree up to case.\<close>

theorem bech32m_round_trip:
  assumes "bech32m_encode hrp d out_cap = Some s" and "length d \<le> 636" and "length d \<le> out_cap'"
  shows "bech32m_decode s expected out_cap' =
    (if expected \<noteq> None \<and> map tolower (the expected) \<noteq> map tolower hrp then None else Some d)"
proof -
  define vs where "vs = to5_loop 0 0 d"
  define gs where "gs = checksum_groups (bech32m_checksum (map tolower hrp) vs)"
  from bech32m_encode_shape[OF assms(1)] have h: "1 \<le> length hrp" "length hrp \<le> 83"
    and s: "s = map tolower hrp @ SEPARATOR # map (\<lambda>v. CHARSET ! unat v) (vs @ gs)"
    by (simp_all only: vs_def gs_def)
  have small: "unat v < 32" if "v \<in> set (vs @ gs)" for v
    using that to5_small[of v 0 0 d] checksum_groups_small[of v] small_unat[of v] unfolding vs_def gs_def by auto
  have sep: "last_separator s = Some (length hrp)"
    unfolding s by (subst last_separator_split) (use small charset_no_separator in force)+
  have dec: "decode_chars (map (\<lambda>v. CHARSET ! unat v) (vs @ gs)) = Some (vs @ gs)"
    by (rule decode_chars_charset) (rule small)
  have chk: "actual_checksum gs = bech32m_checksum (map tolower hrp) vs"
    unfolding gs_def checksum_groups_def by (rule checksum_recombines[OF checksum_30])
  have len: "length gs = 6" "length vs \<le> 1018" using length_to5[OF assms(2)] by (simp_all add: gs_def vs_def)
  have rt: "fivebit_to_bytes vs out_cap' = Some d" unfolding vs_def by (rule regroup_round_trip[OF assms(3)])
  have t: "map tolower (take (length hrp) s) = map tolower hrp" "drop (Suc (length hrp)) s = map (\<lambda>v. CHARSET ! unat v) (vs @ gs)"
    "length s = length hrp + 1 + length vs + 6"
    by (simp_all add: s len)
  have "hrp \<noteq> []" using h by auto
  then show ?thesis
    by (cases expected) (use h len in \<open>simp_all add: bech32m_decode_def sep t dec[simplified] chk rt BECH32M_MAX_HRP_def BECH32M_MAX_DATA5_def Let_def\<close>)
qed

definition hrp_lni :: bytes where
  "hrp_lni = [76, 110, 49]"

theorem bech32m_round_trip_witness:
  "bech32m_encode hrp_lni [1, 2, 255] 64 \<noteq> None \<and>
   bech32m_decode (the (bech32m_encode hrp_lni [1, 2, 255] 64)) (Some [108, 78, 49]) 3 = Some [1, 2, 255] \<and>
   bech32m_decode (the (bech32m_encode hrp_lni [1, 2, 255] 64)) (Some [108, 110]) 3 = None"
proof -
  have n: "bech32m_encode hrp_lni [1, 2, 255] 64 \<noteq> None" by code_simp
  then have e: "bech32m_encode hrp_lni [1, 2, 255] 64 = Some (the (bech32m_encode hrp_lni [1, 2, 255] 64))" by simp
  have "map tolower [108, 78, 49] = map tolower hrp_lni" "map tolower [108, 110] \<noteq> map tolower hrp_lni" by code_simp+
  then show ?thesis using n bech32m_round_trip[OF e, of 3 "Some [108, 78, 49]"] bech32m_round_trip[OF e, of 3 "Some [108, 110]"]
    by (intro conjI) (simp_all only: simp_thms option.sel option.distinct if_True if_False, simp_all)
qed

end
