(* ===== verification/Mpp.thy ===== *)
theory Mpp
  imports SS_Prelude
begin

text \<open>
  The aggregation of multi-part payments, \<^verbatim>\<open>src/mpp.c\<close>: a table of 32 slots, one per payment
  secret in flight.  The array of parts with its counter is the list of the parts in use; the clock is an
  argument; a slot cleared with \<^verbatim>\<open>memset\<close> is \<open>mpp_zero\<close>.
\<close>

section \<open>Model\<close>

definition MPP_MAX_PAYMENTS :: nat where
  "MPP_MAX_PAYMENTS = 32"

definition MPP_MAX_PARTS :: nat where
  "MPP_MAX_PARTS = 10"

definition MPP_TIMEOUT_SECS :: u32 where
  "MPP_TIMEOUT_SECS = 60"

record mpp_part =
  part_htlc_id :: u64
  part_amount_msat :: u64
  part_cltv_expiry :: u32

record mpp_payment =
  payment_secret :: bytes
  total_msat :: u64
  parts :: "mpp_part list"
  collected_msat :: u64
  first_received_unix :: u32
  active :: bool

record mpp_table =
  entries :: "mpp_payment list"
  count :: int

definition mpp_zero :: mpp_payment where
  "mpp_zero = \<lparr>payment_secret = replicate 32 0, total_msat = 0, parts = [], collected_msat = 0, first_received_unix = 0,
     active = False\<rparr>"

definition mpp_init :: mpp_table where
  "mpp_init = \<lparr>entries = replicate MPP_MAX_PAYMENTS mpp_zero, count = 0\<rparr>"

text \<open>The index of the first entry of an array that satisfies a test.\<close>

fun first_index :: "('a \<Rightarrow> bool) \<Rightarrow> 'a list \<Rightarrow> nat option" where
  "first_index P [] = None"
| "first_index P (x # xs) = (if P x then Some 0 else map_option Suc (first_index P xs))"

definition mpp_find :: "mpp_table \<Rightarrow> bytes \<Rightarrow> nat option" where
  "mpp_find tbl secret = first_index (\<lambda>e. active e \<and> payment_secret e = take 32 secret) (entries tbl)"

definition mpp_alloc :: "mpp_table \<Rightarrow> nat option" where
  "mpp_alloc tbl = first_index (\<lambda>e. \<not> active e) (entries tbl)"

text \<open>The slot of the payment, a new one if it has none.\<close>

definition mpp_open :: "u32 \<Rightarrow> mpp_table \<Rightarrow> bytes \<Rightarrow> u64 \<Rightarrow> (nat \<times> mpp_table) option" where
  "mpp_open now tbl secret tot =
     (case mpp_find tbl secret of Some i \<Rightarrow> Some (i, tbl)
      | None \<Rightarrow> (case mpp_alloc tbl of None \<Rightarrow> None
        | Some i \<Rightarrow> Some (i, tbl\<lparr>entries := (entries tbl)[i := mpp_zero\<lparr>payment_secret := take 32 secret, total_msat := tot,
              first_received_unix := now, active := True\<rparr>], count := count tbl + 1\<rparr>)))"

text \<open>What a part does to its payment: refused (\<open>-1\<close>) or recorded, and then complete (\<open>1\<close>) or not (\<open>0\<close>).\<close>

definition mpp_entry_add :: "mpp_payment \<Rightarrow> u64 \<Rightarrow> u64 \<Rightarrow> u32 \<Rightarrow> int \<times> mpp_payment" where
  "mpp_entry_add e i amount cltv =
     (if length (parts e) \<ge> MPP_MAX_PARTS then (-1, e)
      else if collected_msat e + amount > 2 * total_msat e then (-1, e)
      else let e = e\<lparr>parts := parts e @ [\<lparr>part_htlc_id = i, part_amount_msat = amount, part_cltv_expiry = cltv\<rparr>],
                     collected_msat := collected_msat e + amount\<rparr>
           in (if collected_msat e \<ge> total_msat e then 1 else 0, e))"

definition mpp_add_part :: "u32 \<Rightarrow> mpp_table \<Rightarrow> bytes \<Rightarrow> u64 \<Rightarrow> u64 \<Rightarrow> u64 \<Rightarrow> u32 \<Rightarrow> int \<times> mpp_table" where
  "mpp_add_part now tbl secret i amount tot cltv =
     (case mpp_open now tbl secret tot of None \<Rightarrow> (-1, tbl)
      | Some (k, tbl) \<Rightarrow>
          (case mpp_entry_add (entries tbl ! k) i amount cltv of (r, e) \<Rightarrow> (r, tbl\<lparr>entries := (entries tbl)[k := e]\<rparr>)))"

text \<open>The timeout sweep over the slots: the ids written into an output with \<open>room\<close> left, the slots, and how
  many were cleared.\<close>

definition mpp_expired :: "u32 \<Rightarrow> mpp_payment \<Rightarrow> bool" where
  "mpp_expired now e \<longleftrightarrow> active e \<and> \<not> first_received_unix e + MPP_TIMEOUT_SECS > now"

fun mpp_timeouts_loop :: "u32 \<Rightarrow> nat \<Rightarrow> mpp_payment list \<Rightarrow> u64 list \<times> mpp_payment list \<times> nat" where
  "mpp_timeouts_loop now room [] = ([], [], 0)"
| "mpp_timeouts_loop now room (e # es) =
     (if \<not> mpp_expired now e
      then (case mpp_timeouts_loop now room es of (ids, es', n) \<Rightarrow> (ids, e # es', n))
      else let out = take room (map part_htlc_id (parts e))
           in (case mpp_timeouts_loop now (room - length out) es of (ids, es', n) \<Rightarrow> (out @ ids, mpp_zero # es', n + 1)))"

definition mpp_check_timeouts :: "mpp_table \<Rightarrow> u32 \<Rightarrow> int \<Rightarrow> u64 list \<times> mpp_table" where
  "mpp_check_timeouts tbl now max_out =
     (case mpp_timeouts_loop now (nat max_out) (entries tbl) of (ids, es, n) \<Rightarrow>
        (ids, tbl\<lparr>entries := es, count := count tbl - int n\<rparr>))"

definition mpp_get_parts :: "mpp_table \<Rightarrow> bytes \<Rightarrow> int \<Rightarrow> u64 list" where
  "mpp_get_parts tbl secret max_out =
     (case mpp_find tbl secret of None \<Rightarrow> []
      | Some k \<Rightarrow> take (nat max_out) (map part_htlc_id (parts (entries tbl ! k))))"

definition mpp_remove :: "mpp_table \<Rightarrow> bytes \<Rightarrow> mpp_table" where
  "mpp_remove tbl secret =
     (case mpp_find tbl secret of None \<Rightarrow> tbl
      | Some k \<Rightarrow> tbl\<lparr>entries := (entries tbl)[k := mpp_zero], count := count tbl - 1\<rparr>)"

section \<open>Searching and updating a slot\<close>

lemma first_index_Some: "first_index P xs = Some i \<Longrightarrow> i < length xs \<and> P (xs ! i)"
  by (induction xs arbitrary: i) (auto split: if_splits)

lemma first_index_None: "first_index P xs = None \<longleftrightarrow> (\<forall>x\<in>set xs. \<not> P x)"
  by (induction xs) auto

lemma first_index_unique:
  assumes "i < length xs" and "P (xs ! i)" and "\<And>j. j < length xs \<Longrightarrow> P (xs ! j) \<Longrightarrow> j = i"
  shows "first_index P xs = Some i"
proof (cases "first_index P xs")
  case None
  then show ?thesis using assms(1,2) by (auto simp: first_index_None)
next
  case (Some j)
  with first_index_Some[OF this] assms(3) show ?thesis by blast
qed

lemma length_filter_update:
  "i < length xs \<Longrightarrow> int (length (filter P (xs[i := y])))
     = int (length (filter P xs)) - (if P (xs ! i) then 1 else 0) + (if P y then 1 else 0)"
proof -
  assume i: "i < length xs"
  then have "xs = take i xs @ xs ! i # drop (Suc i) xs" by (rule id_take_nth_drop)
  then have "length (filter P xs) = length (filter P (take i xs @ xs ! i # drop (Suc i) xs))" by simp
  then show ?thesis by (simp only: upd_conv_take_nth_drop[OF i] filter_append) simp
qed

section \<open>The table stays well formed\<close>

text \<open>Every amount is at most the money supply, in thousandths of a satoshi.\<close>

definition MAX_MSAT :: nat where
  "MAX_MSAT = 2100000000000000000"

definition entry_wf :: "mpp_payment \<Rightarrow> bool" where
  "entry_wf e \<longleftrightarrow> (active e \<or> e = mpp_zero) \<and> length (payment_secret e) = 32 \<and> length (parts e) \<le> MPP_MAX_PARTS
     \<and> unat (total_msat e) \<le> MAX_MSAT
     \<and> unat (collected_msat e) = sum_list (map (unat \<circ> part_amount_msat) (parts e))
     \<and> unat (collected_msat e) \<le> 2 * unat (total_msat e)"

definition mpp_wf :: "mpp_table \<Rightarrow> bool" where
  "mpp_wf tbl \<longleftrightarrow> length (entries tbl) = MPP_MAX_PAYMENTS \<and> (\<forall>e\<in>set (entries tbl). entry_wf e)
     \<and> count tbl = int (length (filter active (entries tbl)))
     \<and> (\<forall>i<MPP_MAX_PAYMENTS. \<forall>j<MPP_MAX_PAYMENTS. active (entries tbl ! i) \<longrightarrow> active (entries tbl ! j) \<longrightarrow>
          payment_secret (entries tbl ! i) = payment_secret (entries tbl ! j) \<longrightarrow> i = j)"

lemma mpp_wfD:
  assumes "mpp_wf tbl"
  shows "length (entries tbl) = MPP_MAX_PAYMENTS" "i < MPP_MAX_PAYMENTS \<Longrightarrow> entry_wf (entries tbl ! i)"
    "count tbl = int (length (filter active (entries tbl)))"
    "i < MPP_MAX_PAYMENTS \<Longrightarrow> j < MPP_MAX_PAYMENTS \<Longrightarrow> active (entries tbl ! i) \<Longrightarrow> active (entries tbl ! j) \<Longrightarrow>
     payment_secret (entries tbl ! i) = payment_secret (entries tbl ! j) \<Longrightarrow> i = j"
  using assms by (auto simp: mpp_wf_def)

lemma mpp_zero_simps [simp]:
  "\<not> active mpp_zero" "entry_wf mpp_zero" "parts mpp_zero = []" "collected_msat mpp_zero = 0"
  by (simp_all add: mpp_zero_def entry_wf_def)

lemma mpp_init_wf: "mpp_wf mpp_init"
  by (simp add: mpp_wf_def mpp_init_def)

lemma mpp_find_Some:
  "mpp_find tbl s = Some k \<Longrightarrow> k < length (entries tbl) \<and> active (entries tbl ! k) \<and> payment_secret (entries tbl ! k) = take 32 s"
  unfolding mpp_find_def by (drule first_index_Some) simp

text \<open>Replacing a slot keeps the table well formed when the new payment is and its secret is not used elsewhere.\<close>

lemma mpp_wf_update:
  assumes "mpp_wf tbl" and "k < MPP_MAX_PAYMENTS" and "entry_wf e"
    and "active e \<Longrightarrow> \<forall>i<MPP_MAX_PAYMENTS. active (entries tbl ! i) \<and> payment_secret (entries tbl ! i) = payment_secret e \<longrightarrow> i = k"
    and "c = count tbl - (if active (entries tbl ! k) then 1 else 0) + (if active e then 1 else 0)"
  shows "mpp_wf (tbl\<lparr>entries := (entries tbl)[k := e], count := c\<rparr>)"
proof -
  let ?t = "tbl\<lparr>entries := (entries tbl)[k := e], count := c\<rparr>"
  have k: "k < length (entries tbl)" using assms(2) mpp_wfD(1)[OF assms(1)] by simp
  have "entry_wf x" if "x \<in> set ((entries tbl)[k := e])" for x
    using assms(1,3) set_update_subset_insert[of "entries tbl" k e] that by (auto simp: mpp_wf_def)
  moreover have "count ?t = int (length (filter active (entries ?t)))"
    using mpp_wfD(3)[OF assms(1)] by (simp add: assms(5) length_filter_update[OF k])
  moreover have "i = j" if d: "i < MPP_MAX_PAYMENTS" "j < MPP_MAX_PAYMENTS" "active ((entries tbl)[k := e] ! i)"
      "active ((entries tbl)[k := e] ! j)" "payment_secret ((entries tbl)[k := e] ! i) = payment_secret ((entries tbl)[k := e] ! j)" for i j
  proof -
    have u: "active e \<Longrightarrow> i < MPP_MAX_PAYMENTS \<Longrightarrow> active (entries tbl ! i) \<Longrightarrow>
      payment_secret (entries tbl ! i) = payment_secret e \<Longrightarrow> i = k" for i
      using assms(4) by blast
    show ?thesis using d k mpp_wfD(4)[OF assms(1), of i j] u by (metis nth_list_update_eq nth_list_update_neq)
  qed
  ultimately show ?thesis using mpp_wfD(1)[OF assms(1)] unfolding mpp_wf_def by auto
qed


lemma mpp_open_wf:
  assumes "mpp_wf tbl" and "length s = 32" and "unat tot \<le> MAX_MSAT" and "mpp_open now tbl s tot = Some (k, tbl')"
  shows "mpp_wf tbl' \<and> k < MPP_MAX_PAYMENTS \<and> active (entries tbl' ! k) \<and> payment_secret (entries tbl' ! k) = s"
proof (cases "mpp_find tbl s")
  case (Some i)
  then show ?thesis using assms mpp_find_Some[OF Some] mpp_wfD(1)[OF assms(1)] by (auto simp: mpp_open_def)
next
  case None
  then obtain a: "mpp_alloc tbl = Some k"
    and t: "tbl' = tbl\<lparr>entries := (entries tbl)[k := mpp_zero\<lparr>payment_secret := s, total_msat := tot,
              first_received_unix := now, active := True\<rparr>], count := count tbl + 1\<rparr>" (is "_ = tbl\<lparr>entries := (entries tbl)[k := ?e], count := _\<rparr>")
    using assms(2,4) by (auto simp: mpp_open_def split: option.splits)
  from first_index_Some[OF a[unfolded mpp_alloc_def]] have k: "k < MPP_MAX_PAYMENTS" "\<not> active (entries tbl ! k)"
    using mpp_wfD(1)[OF assms(1)] by auto
  have free: "\<not> (active (entries tbl ! i) \<and> payment_secret (entries tbl ! i) = s)" if "i < MPP_MAX_PAYMENTS" for i
    using None assms(2) that mpp_wfD(1)[OF assms(1)] by (auto simp: mpp_find_def first_index_None)
  have "entry_wf ?e" using assms(2,3) by (simp add: entry_wf_def mpp_zero_def)
  then have "mpp_wf tbl'" unfolding t by (rule mpp_wf_update[OF assms(1) k(1)]) (use k free in auto)
  then show ?thesis using k mpp_wfD(1)[OF assms(1)] by (simp add: t)
qed

lemma mpp_entry_add_wf:
  assumes "entry_wf e" and "active e" and "unat amount \<le> MAX_MSAT" and "mpp_entry_add e i amount cltv = (r, e')"
  shows "entry_wf e' \<and> active e' \<and> payment_secret e' = payment_secret e"
proof -
  have t: "unat (total_msat e) \<le> MAX_MSAT" "unat (collected_msat e) \<le> 2 * unat (total_msat e)" using assms(1) by (simp_all add: entry_wf_def)
  then have c: "unat (collected_msat e + amount) = unat (collected_msat e) + unat amount"
    using assms(3) by (intro unat_plus_nowrap) (simp add: MAX_MSAT_def)
  have d: "unat (2 * total_msat e) = 2 * unat (total_msat e)"
    using t unat_mult_nowrap[of 2 "total_msat e"] by (simp add: MAX_MSAT_def)
  show ?thesis using assms(1,2,4) c d
    by (auto simp: mpp_entry_add_def entry_wf_def Let_def not_less word_le_nat_alt split: if_splits)
qed

lemma mpp_add_part_wf:
  assumes "mpp_wf tbl" and "length s = 32" and "unat tot \<le> MAX_MSAT" and "unat amount \<le> MAX_MSAT"
  shows "mpp_wf (snd (mpp_add_part now tbl s i amount tot cltv))"
proof (cases "mpp_open now tbl s tot")
  case (Some p)
  obtain k tbl' where p: "p = (k, tbl')" by (cases p)
  note w = mpp_open_wf[OF assms(1,2,3) Some[unfolded p]]
  obtain r e where a: "mpp_entry_add (entries tbl' ! k) i amount cltv = (r, e)" by (cases "mpp_entry_add (entries tbl' ! k) i amount cltv")
  note v = mpp_entry_add_wf[OF mpp_wfD(2)[of tbl' k] _ assms(4) a]
  have "mpp_wf (tbl'\<lparr>entries := (entries tbl')[k := e], count := count tbl'\<rparr>)"
    by (rule mpp_wf_update) (use w v mpp_wfD(4)[of tbl'] in auto)
  then show ?thesis by (simp add: mpp_add_part_def Some p a)
qed (simp add: mpp_add_part_def assms(1))

text \<open>The timeout sweep in one step: the expired slots are cleared, and the ids of their parts are written in
  order as far as the output goes.\<close>

lemma mpp_timeouts_loop_spec:
  "mpp_timeouts_loop now room es =
     (take room (concat (map (\<lambda>e. map part_htlc_id (parts e)) (filter (mpp_expired now) es))),
      map (\<lambda>e. if mpp_expired now e then mpp_zero else e) es, length (filter (mpp_expired now) es))"
  by (induction now room es rule: mpp_timeouts_loop.induct) (auto simp: Let_def min_def)

lemma mpp_check_timeouts_wf:
  assumes "mpp_wf tbl"
  shows "mpp_wf (snd (mpp_check_timeouts tbl now max_out))"
proof -
  let ?f = "\<lambda>e. if mpp_expired now e then mpp_zero else e"
  have "int (length (filter active (map ?f es))) = int (length (filter active es)) - int (length (filter (mpp_expired now) es))" for es
    by (induction es) (auto simp: mpp_expired_def)
  moreover have "i = j" if d: "i < MPP_MAX_PAYMENTS" "j < MPP_MAX_PAYMENTS" "active (map ?f (entries tbl) ! i)"
      "active (map ?f (entries tbl) ! j)" "payment_secret (map ?f (entries tbl) ! i) = payment_secret (map ?f (entries tbl) ! j)" for i j
    using d mpp_wfD(1)[OF assms] mpp_wfD(4)[OF assms, of i j] by (simp split: if_splits)
  ultimately show ?thesis using assms
    unfolding mpp_wf_def mpp_check_timeouts_def mpp_timeouts_loop_spec by auto
qed

lemma mpp_remove_wf:
  assumes "mpp_wf tbl"
  shows "mpp_wf (mpp_remove tbl s)"
proof (cases "mpp_find tbl s")
  case (Some k)
  from mpp_find_Some[OF this] have k: "k < MPP_MAX_PAYMENTS" "active (entries tbl ! k)" using mpp_wfD(1)[OF assms] by auto
  have "mpp_wf (tbl\<lparr>entries := (entries tbl)[k := mpp_zero], count := count tbl - 1\<rparr>)"
    by (rule mpp_wf_update[OF assms k(1)]) (use k in auto)
  then show ?thesis by (simp add: mpp_remove_def Some)
qed (simp add: mpp_remove_def assms)

text \<open>The calls that change the table.\<close>

datatype mpp_call =
    AddPart u32 bytes u64 u64 u64 u32
  | CheckTimeouts u32 int
  | RemovePayment bytes

fun mpp_step :: "mpp_call \<Rightarrow> mpp_table \<Rightarrow> mpp_table" where
  "mpp_step (AddPart now s i amount tot cltv) tbl = snd (mpp_add_part now tbl s i amount tot cltv)"
| "mpp_step (CheckTimeouts now max_out) tbl = snd (mpp_check_timeouts tbl now max_out)"
| "mpp_step (RemovePayment s) tbl = mpp_remove tbl s"

fun mpp_sane :: "mpp_call \<Rightarrow> bool" where
  "mpp_sane (AddPart now s i amount tot cltv) \<longleftrightarrow> length s = 32 \<and> unat amount \<le> MAX_MSAT \<and> unat tot \<le> MAX_MSAT"
| "mpp_sane (CheckTimeouts now max_out) \<longleftrightarrow> True"
| "mpp_sane (RemovePayment s) \<longleftrightarrow> length s = 32"

lemma mpp_step_wf: "mpp_sane c \<Longrightarrow> mpp_wf tbl \<Longrightarrow> mpp_wf (mpp_step c tbl)"
  by (cases c) (auto intro: mpp_add_part_wf mpp_check_timeouts_wf mpp_remove_wf)

lemma mpp_run_wf: "list_all mpp_sane cs \<Longrightarrow> mpp_wf tbl \<Longrightarrow> mpp_wf (fold mpp_step cs tbl)"
  by (induction cs arbitrary: tbl) (simp_all add: mpp_step_wf)


text \<open>C34: Over any history of calls with amounts within the money supply, the table stays well typed:
  its 32 slots are either cleared or hold a payment with at most ten parts, no two active slots have the same
  secret, the counter is the number of active slots, the collected amount is the exact sum of the recorded
  parts, and it never exceeds twice the total that was asked for; no addition of the code wraps.\<close>

theorem mpp_table_wf:
  assumes "list_all mpp_sane cs"
  shows "mpp_wf (fold mpp_step cs mpp_init)"
  using assms mpp_init_wf by (rule mpp_run_wf)

definition sample_parts :: "mpp_call list" where
  "sample_parts = [AddPart 100 (replicate 32 1) 7 600 1000 500, AddPart 101 (replicate 32 2) 8 5 5 500,
     AddPart 102 (replicate 32 1) 9 400 1000 500, RemovePayment (replicate 32 2)]"

theorem mpp_table_wf_witness:
  "mpp_wf (fold mpp_step sample_parts mpp_init)"
  by (rule mpp_table_wf) (simp add: sample_parts_def MAX_MSAT_def)

section \<open>The table is a finite map\<close>

text \<open>First the slots: the table as a map from secrets to the payment in their slot, and adding a part on that map.\<close>

definition mpp_abs :: "mpp_table \<Rightarrow> bytes \<Rightarrow> mpp_payment option" where
  "mpp_abs tbl s = (if length s = 32 then map_option ((!) (entries tbl)) (mpp_find tbl s) else None)"

definition slot_add_part :: "u32 \<Rightarrow> (bytes \<Rightarrow> mpp_payment option) \<Rightarrow> bytes \<Rightarrow> u64 \<Rightarrow> u64 \<Rightarrow> u64 \<Rightarrow> u32 \<Rightarrow> int \<times> (bytes \<Rightarrow> mpp_payment option)" where
  "slot_add_part now m s i amount tot cltv =
     (if m s = None \<and> card (dom m) \<ge> MPP_MAX_PAYMENTS then (-1, m)
      else let e = (case m s of Some e \<Rightarrow> e
                    | None \<Rightarrow> mpp_zero\<lparr>payment_secret := s, total_msat := tot, first_received_unix := now, active := True\<rparr>)
           in (fst (mpp_entry_add e i amount cltv), m(s \<mapsto> snd (mpp_entry_add e i amount cltv))))"

lemma mpp_abs_iff:
  assumes "mpp_wf tbl"
  shows "mpp_abs tbl s = Some e \<longleftrightarrow> (\<exists>i<MPP_MAX_PAYMENTS. entries tbl ! i = e \<and> active e \<and> payment_secret e = s)"
proof
  assume "mpp_abs tbl s = Some e"
  then obtain i where "length s = 32" "mpp_find tbl s = Some i" "e = entries tbl ! i" by (auto simp: mpp_abs_def split: if_splits)
  with mpp_find_Some[of tbl s i] mpp_wfD(1)[OF assms] show "\<exists>i<MPP_MAX_PAYMENTS. entries tbl ! i = e \<and> active e \<and> payment_secret e = s" by auto
next
  assume "\<exists>i<MPP_MAX_PAYMENTS. entries tbl ! i = e \<and> active e \<and> payment_secret e = s"
  then obtain i where i: "i < MPP_MAX_PAYMENTS" "entries tbl ! i = e" "active e" "payment_secret e = s" by blast
  then have l: "length s = 32" using mpp_wfD(2)[OF assms i(1)] by (simp add: entry_wf_def)
  have "mpp_find tbl s = Some i" unfolding mpp_find_def
  proof (rule first_index_unique)
    fix j assume "j < length (entries tbl)" "active (entries tbl ! j) \<and> payment_secret (entries tbl ! j) = take 32 s"
    then show "j = i" using i l by (intro mpp_wfD(4)[OF assms]) (simp_all add: mpp_wfD(1)[OF assms])
  qed (simp_all add: i l mpp_wfD(1)[OF assms])
  then show "mpp_abs tbl s = Some e" using i l by (simp add: mpp_abs_def)
qed

lemma mpp_abs_None:
  assumes "mpp_wf tbl"
  shows "mpp_abs tbl s = None \<longleftrightarrow> (\<forall>i<MPP_MAX_PAYMENTS. \<not> (active (entries tbl ! i) \<and> payment_secret (entries tbl ! i) = s))"
  using mpp_abs_iff[OF assms, of s] by (metis not_None_eq)

lemma map_eqI: "(\<And>x v. f x = Some v \<longleftrightarrow> g x = Some v) \<Longrightarrow> f = g"
  by (rule ext) (metis option.exhaust)

text \<open>Replacing the slot of a secret, or filling a free one, updates the map at that secret; clearing a slot
  removes its secret.\<close>

lemma mpp_abs_put:
  assumes "mpp_wf tbl" and "mpp_wf tbl'" and "k < MPP_MAX_PAYMENTS" and "entries tbl' = (entries tbl)[k := e]" and "active e"
    and "active (entries tbl ! k) \<Longrightarrow> payment_secret (entries tbl ! k) = payment_secret e"
  shows "mpp_abs tbl' = (mpp_abs tbl)(payment_secret e \<mapsto> e)"
proof (rule map_eqI)
  fix x v
  have k: "k < length (entries tbl)" using assms(3) mpp_wfD(1)[OF assms(1)] by simp
  have e: "mpp_abs tbl' (payment_secret e) = Some e" unfolding mpp_abs_iff[OF assms(2)]
    using k assms(3,4,5) by (intro exI[of _ k]) simp
  show "mpp_abs tbl' x = Some v \<longleftrightarrow> ((mpp_abs tbl)(payment_secret e \<mapsto> e)) x = Some v"
  proof (cases "x = payment_secret e")
    case False
    then have "entries tbl' ! i = v \<and> active v \<and> payment_secret v = x \<longleftrightarrow> entries tbl ! i = v \<and> active v \<and> payment_secret v = x" for i
      using assms(4,6) k by (cases "i = k") auto
    with False show ?thesis by (simp add: mpp_abs_iff[OF assms(1)] mpp_abs_iff[OF assms(2)])
  qed (use e in auto)
qed

lemma mpp_abs_clear:
  assumes "mpp_wf tbl" and "mpp_wf tbl'" and "k < MPP_MAX_PAYMENTS" and "entries tbl' = (entries tbl)[k := mpp_zero]"
    and "active (entries tbl ! k)"
  shows "mpp_abs tbl' = (mpp_abs tbl)(payment_secret (entries tbl ! k) := None)"
proof (rule map_eqI)
  fix x v
  have k: "k < length (entries tbl)" using assms(3) mpp_wfD(1)[OF assms(1)] by simp
  have "(\<exists>i<MPP_MAX_PAYMENTS. (entries tbl)[k := mpp_zero] ! i = v \<and> active v \<and> payment_secret v = x)
    \<longleftrightarrow> (\<exists>i<MPP_MAX_PAYMENTS. entries tbl ! i = v \<and> active v \<and> payment_secret v = x) \<and> x \<noteq> payment_secret (entries tbl ! k)"
    (is "?L \<longleftrightarrow> ?R")
  proof
    assume ?L
    then obtain i where i: "i < MPP_MAX_PAYMENTS" "(entries tbl)[k := mpp_zero] ! i = v" "active v" "payment_secret v = x" by blast
    then have "i \<noteq> k" using k by auto
    with i(2) have v: "entries tbl ! i = v" by simp
    have "x \<noteq> payment_secret (entries tbl ! k)"
      using mpp_wfD(4)[OF assms(1) i(1) assms(3) _ assms(5)] v i(3,4) \<open>i \<noteq> k\<close> by blast
    with i v show ?R by blast
  next
    assume ?R
    then obtain i where i: "i < MPP_MAX_PAYMENTS" "entries tbl ! i = v" "active v" "payment_secret v = x" "i \<noteq> k" by blast
    then show ?L by (intro exI[of _ i]) simp
  qed
  then show "mpp_abs tbl' x = Some v \<longleftrightarrow> ((mpp_abs tbl)(payment_secret (entries tbl ! k) := None)) x = Some v"
    unfolding assms(4)[symmetric] mpp_abs_iff[OF assms(2), symmetric] mpp_abs_iff[OF assms(1), symmetric] by auto
qed

text \<open>The number of secrets is the number of active slots.\<close>

lemma card_mpp_abs:
  assumes "mpp_wf tbl"
  shows "card (dom (mpp_abs tbl)) = length (filter active (entries tbl))"
proof -
  let ?I = "{i. i < length (entries tbl) \<and> active (entries tbl ! i)}"
  have "inj_on (\<lambda>i. payment_secret (entries tbl ! i)) ?I"
  proof (rule inj_onI)
    fix i j assume "i \<in> ?I" "j \<in> ?I" "payment_secret (entries tbl ! i) = payment_secret (entries tbl ! j)"
    then show "i = j" by (intro mpp_wfD(4)[OF assms]) (simp_all add: mpp_wfD(1)[OF assms])
  qed
  moreover have "dom (mpp_abs tbl) = (\<lambda>i. payment_secret (entries tbl ! i)) ` ?I"
  proof (rule set_eqI)
    fix x
    show "x \<in> dom (mpp_abs tbl) \<longleftrightarrow> x \<in> (\<lambda>i. payment_secret (entries tbl ! i)) ` ?I"
      unfolding domIff mpp_abs_None[OF assms] mpp_wfD(1)[OF assms] by blast
  qed
  ultimately show ?thesis by (simp add: card_image length_filter_conv_card)
qed


lemma mpp_alloc_abs:
  assumes "mpp_wf tbl"
  shows "mpp_alloc tbl = None \<longleftrightarrow> card (dom (mpp_abs tbl)) \<ge> MPP_MAX_PAYMENTS"
proof -
  have "mpp_alloc tbl = None \<longleftrightarrow> filter active (entries tbl) = entries tbl"
    by (simp add: mpp_alloc_def first_index_None filter_id_conv)
  also have "\<dots> \<longleftrightarrow> length (filter active (entries tbl)) \<ge> length (entries tbl)"
    by (metis length_filter_le length_filter_less filter_id_conv le_refl not_le)
  finally show ?thesis by (simp add: card_mpp_abs[OF assms] mpp_wfD(1)[OF assms])
qed

lemma mpp_find_abs:
  assumes "length s = 32"
  shows "mpp_find tbl s = None \<Longrightarrow> mpp_abs tbl s = None" "mpp_find tbl s = Some k \<Longrightarrow> mpp_abs tbl s = Some (entries tbl ! k)"
  using assms by (simp_all add: mpp_abs_def)

lemma mpp_open_abs:
  assumes "mpp_wf tbl" and "length s = 32" and "unat tot \<le> MAX_MSAT"
  shows "case mpp_open now tbl s tot of
      None \<Rightarrow> mpp_abs tbl s = None \<and> card (dom (mpp_abs tbl)) \<ge> MPP_MAX_PAYMENTS
    | Some (k, tbl') \<Rightarrow> \<not> (mpp_abs tbl s = None \<and> card (dom (mpp_abs tbl)) \<ge> MPP_MAX_PAYMENTS)
        \<and> entries tbl' ! k = (case mpp_abs tbl s of Some e \<Rightarrow> e
            | None \<Rightarrow> mpp_zero\<lparr>payment_secret := s, total_msat := tot, first_received_unix := now, active := True\<rparr>)
        \<and> (mpp_abs tbl')(s := None) = (mpp_abs tbl)(s := None)"
proof (cases "mpp_find tbl s")
  case None
  note abs = mpp_find_abs(1)[OF assms(2) None]
  show ?thesis
  proof (cases "mpp_alloc tbl")
    case (Some k)
    from first_index_Some[OF Some[unfolded mpp_alloc_def]] have k: "k < MPP_MAX_PAYMENTS" "\<not> active (entries tbl ! k)"
      using mpp_wfD(1)[OF assms(1)] by auto
    let ?e = "mpp_zero\<lparr>payment_secret := s, total_msat := tot, first_received_unix := now, active := True\<rparr>"
    let ?t = "tbl\<lparr>entries := (entries tbl)[k := ?e], count := count tbl + 1\<rparr>"
    have o: "mpp_open now tbl s tot = Some (k, ?t)" using None Some assms(2) by (simp add: mpp_open_def)
    have "mpp_abs ?t = (mpp_abs tbl)(payment_secret ?e \<mapsto> ?e)"
      by (rule mpp_abs_put[OF assms(1) conjunct1[OF mpp_open_wf[OF assms o]] k(1)]) (use k in simp_all)
    then show ?thesis using o abs k(1) mpp_wfD(1)[OF assms(1)] mpp_alloc_abs[OF assms(1)] Some by simp
  qed (use None abs mpp_alloc_abs[OF assms(1)] in \<open>simp add: mpp_open_def\<close>)
next
  case (Some k)
  then show ?thesis using mpp_find_abs(2)[OF assms(2) Some] by (simp add: mpp_open_def)
qed

lemma mpp_add_part_abs:
  assumes "mpp_wf tbl" and "length s = 32" and "unat tot \<le> MAX_MSAT" and "unat amount \<le> MAX_MSAT"
    and "mpp_add_part now tbl s i amount tot cltv = (r, tbl')"
  shows "slot_add_part now (mpp_abs tbl) s i amount tot cltv = (r, mpp_abs tbl')"
proof (cases "mpp_open now tbl s tot")
  case None
  then show ?thesis using assms(5) mpp_open_abs[OF assms(1,2,3), of now] by (simp add: mpp_add_part_def slot_add_part_def)
next
  case (Some p)
  obtain k t where p: "p = (k, t)" by (cases p)
  note o = Some[unfolded p] and w = mpp_open_wf[OF assms(1,2,3) Some[unfolded p]]
  obtain e where e: "mpp_entry_add (entries t ! k) i amount cltv = (r, e)" and t': "tbl' = t\<lparr>entries := (entries t)[k := e]\<rparr>"
    using assms(5) by (auto simp: mpp_add_part_def o split: prod.splits)
  have wf': "mpp_wf tbl'" using mpp_add_part_wf[OF assms(1-4), of now i cltv] assms(5) by simp
  have v: "active e" "payment_secret e = s" using mpp_entry_add_wf[OF mpp_wfD(2)[of t k] _ assms(4) e] w by auto
  have "mpp_abs tbl' = (mpp_abs t)(payment_secret e \<mapsto> e)"
    by (rule mpp_abs_put[of t tbl' k]) (use w wf' v t' in simp_all)
  also have "\<dots> = (mpp_abs tbl)(s \<mapsto> e)"
    using mpp_open_abs[OF assms(1,2,3), of now] o v by (auto simp: fun_eq_iff split: if_splits)
  finally show ?thesis using mpp_open_abs[OF assms(1,2,3), of now] o e by (auto simp: slot_add_part_def Let_def)
qed

lemma mpp_remove_abs:
  assumes "mpp_wf tbl" and "length s = 32"
  shows "mpp_abs (mpp_remove tbl s) = (mpp_abs tbl)(s := None)"
proof (cases "mpp_find tbl s")
  case None
  then show ?thesis using mpp_find_abs(1)[OF assms(2)] by (simp add: mpp_remove_def fun_upd_idem)
next
  case (Some k)
  from mpp_find_Some[OF Some] assms(2) mpp_wfD(1)[OF assms(1)]
  have k: "k < MPP_MAX_PAYMENTS" "active (entries tbl ! k)" "payment_secret (entries tbl ! k) = s" by auto
  have "mpp_abs (mpp_remove tbl s) = (mpp_abs tbl)(payment_secret (entries tbl ! k) := None)"
    by (rule mpp_abs_clear[OF assms(1) mpp_remove_wf[OF assms(1)] k(1)]) (use k Some in \<open>simp_all add: mpp_remove_def\<close>)
  then show ?thesis by (simp add: k)
qed

lemma mpp_timeouts_abs:
  assumes "mpp_wf tbl"
  shows "mpp_abs (snd (mpp_check_timeouts tbl now max_out)) s = Some e \<longleftrightarrow> mpp_abs tbl s = Some e \<and> \<not> mpp_expired now e"
proof -
  have "(if mpp_expired now x then mpp_zero else x) = e \<and> active e \<and> payment_secret e = s
      \<longleftrightarrow> x = e \<and> active e \<and> payment_secret e = s \<and> \<not> mpp_expired now e" for x
    by auto
  then show ?thesis
    unfolding mpp_abs_iff[OF assms] mpp_abs_iff[OF mpp_check_timeouts_wf[OF assms]]
    by (simp add: mpp_check_timeouts_def mpp_timeouts_loop_spec mpp_wfD(1)[OF assms] cong: conj_cong) blast
qed


text \<open>The contract of the table, on numbers and without slots: a payment is what is due, the parts received
  (identifier, amount, expiry), and when the first one came.\<close>

datatype add_result = Refused | Waiting | Complete

record payment =
  due :: nat
  received :: "(u64 \<times> nat \<times> u32) list"
  since :: nat

definition received_sum :: "payment \<Rightarrow> nat" where
  "received_sum p = (\<Sum>(i, amount, cltv)\<leftarrow>received p. amount)"

definition spec_add_part ::
  "nat \<Rightarrow> (bytes \<rightharpoonup> payment) \<Rightarrow> bytes \<Rightarrow> u64 \<Rightarrow> nat \<Rightarrow> nat \<Rightarrow> u32 \<Rightarrow> add_result \<times> (bytes \<rightharpoonup> payment)" where
  "spec_add_part now m s i amount tot cltv =
     (if s \<notin> dom m \<and> card (dom m) \<ge> 32 then (Refused, m)
      else let p = (case m s of Some p \<Rightarrow> p | None \<Rightarrow> \<lparr>due = tot, received = [], since = now\<rparr>) in
        if length (received p) = 10 \<or> received_sum p + amount > 2 * due p then (Refused, m(s \<mapsto> p))
        else (if due p \<le> received_sum p + amount then Complete else Waiting,
              m(s \<mapsto> p\<lparr>received := received p @ [(i, amount, cltv)]\<rparr>)))"

text \<open>A payment is overdue 60 seconds after its first part, in the 32-bit seconds of the clock, whether it is complete or not.\<close>

definition spec_overdue :: "nat \<Rightarrow> payment \<Rightarrow> bool" where
  "spec_overdue now p \<longleftrightarrow> (since p + 60) mod 2 ^ 32 \<le> now"

fun result_code :: "add_result \<Rightarrow> int" where
  "result_code Refused = -1"
| "result_code Waiting = 0"
| "result_code Complete = 1"

definition payment_of :: "mpp_payment \<Rightarrow> payment" where
  "payment_of e = \<lparr>due = unat (total_msat e),
     received = map (\<lambda>p. (part_htlc_id p, unat (part_amount_msat p), part_cltv_expiry p)) (parts e),
     since = unat (first_received_unix e)\<rparr>"

definition mpp_view :: "mpp_table \<Rightarrow> bytes \<rightharpoonup> payment" where
  "mpp_view tbl = (\<lambda>s. map_option payment_of (mpp_abs tbl s))"

lemma payment_of_simps [simp]:
  "due (payment_of e) = unat (total_msat e)" "since (payment_of e) = unat (first_received_unix e)"
  "map fst (received (payment_of e)) = map part_htlc_id (parts e)" "length (received (payment_of e)) = length (parts e)"
  by (simp_all add: payment_of_def comp_def)

lemma received_sum_payment_of: "entry_wf e \<Longrightarrow> received_sum (payment_of e) = unat (collected_msat e)"
  by (simp add: received_sum_def payment_of_def entry_wf_def comp_def)

lemma mpp_entry_add_payment:
  assumes "entry_wf e" and "active e" and "unat amount \<le> MAX_MSAT" and "mpp_entry_add e i amount cltv = (r, e')" and "p = payment_of e"
  shows "if length (received p) = 10 \<or> received_sum p + unat amount > 2 * due p then r = -1 \<and> e' = e
    else r = result_code (if due p \<le> received_sum p + unat amount then Complete else Waiting)
       \<and> payment_of e' = p\<lparr>received := received p @ [(i, unat amount, cltv)]\<rparr>"
proof -
  have t: "unat (total_msat e) \<le> MAX_MSAT" "unat (collected_msat e) \<le> 2 * unat (total_msat e)" "length (parts e) \<le> 10"
    using assms(1) by (simp_all add: entry_wf_def MPP_MAX_PARTS_def)
  then have c: "unat (collected_msat e + amount) = unat (collected_msat e) + unat amount"
    using assms(3) by (intro unat_plus_nowrap) (simp add: MAX_MSAT_def)
  have d: "unat (2 * total_msat e) = 2 * unat (total_msat e)"
    using t unat_mult_nowrap[of 2 "total_msat e"] by (simp add: MAX_MSAT_def)
  have "MPP_MAX_PARTS \<le> length (parts e) \<longleftrightarrow> length (received p) = 10"
    using t(3) by (auto simp: MPP_MAX_PARTS_def assms(5))
  then show ?thesis using assms(4) unfolding mpp_entry_add_def assms(5) received_sum_payment_of[OF assms(1)]
    by (auto simp: Let_def word_less_nat_alt word_le_nat_alt c d payment_of_def split: if_splits)
qed

lemma dom_mpp_view [simp]: "dom (mpp_view tbl) = dom (mpp_abs tbl)"
  by (auto simp: mpp_view_def)

lemma mpp_view_upd: "mpp_abs t = (mpp_abs tbl)(s \<mapsto> e) \<Longrightarrow> mpp_view t = (mpp_view tbl)(s \<mapsto> payment_of e)"
  by (auto simp: mpp_view_def)

lemma mpp_add_part_view:
  assumes "mpp_wf tbl" and "length s = 32" and "unat tot \<le> MAX_MSAT" and "unat amount \<le> MAX_MSAT"
    and "mpp_add_part now tbl s i amount tot cltv = (r, tbl')"
  shows "case spec_add_part (unat now) (mpp_view tbl) s i (unat amount) (unat tot) cltv of (res, m) \<Rightarrow>
           r = result_code res \<and> mpp_view tbl' = m"
proof (cases "mpp_abs tbl s = None \<and> card (dom (mpp_abs tbl)) \<ge> MPP_MAX_PAYMENTS")
  case True
  then have "r = -1" "mpp_abs tbl' = mpp_abs tbl" using mpp_add_part_abs[OF assms] by (auto simp: slot_add_part_def)
  moreover have "s \<notin> dom (mpp_view tbl) \<and> card (dom (mpp_view tbl)) \<ge> 32" using True by (auto simp: MPP_MAX_PAYMENTS_def)
  ultimately show ?thesis unfolding spec_add_part_def by (simp add: mpp_view_def)
next
  case False
  define e where "e = (case mpp_abs tbl s of Some e \<Rightarrow> e
    | None \<Rightarrow> mpp_zero\<lparr>payment_secret := s, total_msat := tot, first_received_unix := now, active := True\<rparr>)"
  have e: "entry_wf e" "active e"
    using assms(2,3) mpp_wfD(2)[OF assms(1)] mpp_abs_iff[OF assms(1), of s]
    by (auto simp: e_def entry_wf_def mpp_zero_def split: option.splits)
  obtain r' e' where a: "mpp_entry_add e i amount cltv = (r', e')" by (cases "mpp_entry_add e i amount cltv")
  have r: "r' = r" "mpp_view tbl' = (mpp_view tbl)(s \<mapsto> payment_of e')"
    using mpp_add_part_abs[OF assms] False a by (auto simp: slot_add_part_def Let_def simp flip: e_def intro: mpp_view_upd)
  have p: "(case mpp_view tbl s of Some p \<Rightarrow> p | None \<Rightarrow> \<lparr>due = unat tot, received = [], since = unat now\<rparr>) = payment_of e"
    by (auto simp: e_def mpp_view_def payment_of_def mpp_zero_def split: option.splits)
  have g: "\<not> (s \<notin> dom (mpp_view tbl) \<and> card (dom (mpp_view tbl)) \<ge> 32)" using False by (auto simp: MPP_MAX_PAYMENTS_def)
  show ?thesis unfolding spec_add_part_def if_not_P[OF g] Let_def p
    using mpp_entry_add_payment[OF e assms(4) a refl] r by (auto split: if_splits)
qed

lemma mpp_expired_overdue: "active e \<Longrightarrow> mpp_expired now e \<longleftrightarrow> spec_overdue (unat now) (payment_of e)"
  by (simp add: mpp_expired_def spec_overdue_def MPP_TIMEOUT_SECS_def not_less word_le_nat_alt unat_word_ariths)

lemma mpp_timeouts_view:
  assumes "mpp_wf tbl"
  shows "mpp_view (snd (mpp_check_timeouts tbl now max_out))
    = (\<lambda>s. case mpp_view tbl s of None \<Rightarrow> None | Some p \<Rightarrow> if spec_overdue (unat now) p then None else Some p)"
proof (rule ext)
  fix s
  have a: "mpp_abs tbl s = Some e \<Longrightarrow> active e" for e using mpp_abs_iff[OF assms] by blast
  have "mpp_abs (snd (mpp_check_timeouts tbl now max_out)) s
      = (case mpp_abs tbl s of None \<Rightarrow> None | Some e \<Rightarrow> if mpp_expired now e then None else Some e)"
    using mpp_timeouts_abs[OF assms, of now max_out s] by (cases "mpp_abs tbl s") (auto intro: option.exhaust)
  then show "mpp_view (snd (mpp_check_timeouts tbl now max_out)) s
    = (case mpp_view tbl s of None \<Rightarrow> None | Some p \<Rightarrow> if spec_overdue (unat now) p then None else Some p)"
    using a mpp_expired_overdue by (auto simp: mpp_view_def split: option.splits)
qed

text \<open>The identifiers handed out by the timeout check are those of the overdue payments, payment by payment.\<close>

lemma distinct_map_filter:
  "(\<And>i j. i < length xs \<Longrightarrow> j < length xs \<Longrightarrow> P (xs ! i) \<Longrightarrow> P (xs ! j) \<Longrightarrow> f (xs ! i) = f (xs ! j) \<Longrightarrow> i = j) \<Longrightarrow>
   distinct (map f (filter P xs))"
proof (induction xs)
  case (Cons x xs)
  have "distinct (map f (filter P xs))" by (rule Cons.IH) (use Cons.prems[of "Suc _" "Suc _"] in fastforce)
  moreover have "f x \<notin> f ` set (filter P xs)" if "P x"
    using Cons.prems[of 0 "Suc _"] that by (fastforce simp: in_set_conv_nth)
  ultimately show ?case by simp
qed simp

lemma mpp_timeouts_ids:
  assumes "mpp_wf tbl"
  shows "\<exists>ss. distinct ss \<and> set ss = {s. \<exists>p. mpp_view tbl s = Some p \<and> spec_overdue (unat now) p}
    \<and> fst (mpp_check_timeouts tbl now max_out) = take (nat max_out) (concat (map (\<lambda>s. map fst (received (the (mpp_view tbl s)))) ss))"
proof (intro exI conjI)
  let ?es = "filter (mpp_expired now) (entries tbl)"
  have act: "mpp_expired now e \<Longrightarrow> active e" for e by (simp add: mpp_expired_def)
  have view: "mpp_view tbl (payment_secret e) = Some (payment_of e)" if "e \<in> set ?es" for e
  proof -
    have "mpp_abs tbl (payment_secret e) = Some e"
      using that act mpp_wfD(1)[OF assms] unfolding mpp_abs_iff[OF assms] by (auto simp: in_set_conv_nth)
    then show ?thesis by (simp add: mpp_view_def)
  qed
  show "distinct (map payment_secret ?es)"
    by (rule distinct_map_filter) (use mpp_wfD(4)[OF assms] mpp_wfD(1)[OF assms] act in auto)
  show "set (map payment_secret ?es) = {s. \<exists>p. mpp_view tbl s = Some p \<and> spec_overdue (unat now) p}" (is "?A = ?B")
  proof
    show "?A \<subseteq> ?B"
    proof
      fix s assume "s \<in> ?A"
      then obtain e where e: "e \<in> set ?es" "s = payment_secret e" by auto
      then have "spec_overdue (unat now) (payment_of e)" using mpp_expired_overdue[of e now] act[of e] by simp
      then show "s \<in> ?B" using view[OF e(1)] e(2) by simp
    qed
    show "?B \<subseteq> ?A"
    proof
      fix s assume "s \<in> ?B"
      then obtain e where e: "mpp_abs tbl s = Some e" "spec_overdue (unat now) (payment_of e)" by (auto simp: mpp_view_def)
      then show "s \<in> ?A" using mpp_expired_overdue[of e now] mpp_wfD(1)[OF assms] unfolding mpp_abs_iff[OF assms] by (auto intro: nth_mem)
    qed
  qed
  have "map (\<lambda>s. map fst (received (the (mpp_view tbl s)))) (map payment_secret ?es) = map (\<lambda>e. map part_htlc_id (parts e)) ?es"
    using view by (simp add: comp_def)
  then show "fst (mpp_check_timeouts tbl now max_out)
      = take (nat max_out) (concat (map (\<lambda>s. map fst (received (the (mpp_view tbl s)))) (map payment_secret ?es)))"
    by (simp only:) (simp add: mpp_check_timeouts_def mpp_timeouts_loop_spec)
qed



end
