(* ===== verification/Inbound.thy ===== *)
theory Inbound
  imports Mpp
begin

text \<open>
  The table of inbound HTLCs, \<^verbatim>\<open>src/htlc_inbound.c\<close>, which registers each of them as a part of a multi-part
  payment.  The array with its counter is the list of the entries in use.
\<close>

section \<open>Model\<close>

definition HTLC_INBOUND_MAX :: nat where
  "HTLC_INBOUND_MAX = 64"

datatype htlc_inbound_state = HTLC_INBOUND_PENDING | HTLC_INBOUND_FULFILLED | HTLC_INBOUND_FAILED

record htlc_inbound =
  in_htlc_id :: u64
  in_amount_msat :: u64
  in_payment_hash :: bytes
  in_payment_secret :: bytes
  in_cltv_expiry :: u32
  in_scid :: u64
  in_state :: htlc_inbound_state
  in_preimage :: bytes

record htlc_inbound_table =
  in_entries :: "htlc_inbound list"
  in_mpp :: mpp_table

definition htlc_inbound_init :: htlc_inbound_table where
  "htlc_inbound_init = \<lparr>in_entries = [], in_mpp = mpp_init\<rparr>"

definition htlc_inbound_add ::
    "u32 \<Rightarrow> htlc_inbound_table \<Rightarrow> u64 \<Rightarrow> u64 \<Rightarrow> bytes \<Rightarrow> bytes \<Rightarrow> u32 \<Rightarrow> u64 \<Rightarrow> bool \<times> htlc_inbound_table" where
  "htlc_inbound_add now tbl i amount hash secret cltv scid =
     (if length (in_entries tbl) \<ge> HTLC_INBOUND_MAX then (False, tbl)
      else if list_ex (\<lambda>e. in_htlc_id e = i) (in_entries tbl) then (False, tbl)
      else (True, tbl\<lparr>in_entries := in_entries tbl @
               [\<lparr>in_htlc_id = i, in_amount_msat = amount, in_payment_hash = take 32 hash, in_payment_secret = take 32 secret,
                 in_cltv_expiry = cltv, in_scid = scid, in_state = HTLC_INBOUND_PENDING, in_preimage = replicate 32 0\<rparr>],
             in_mpp := snd (mpp_add_part now (in_mpp tbl) secret i amount amount cltv)\<rparr>))"

definition htlc_inbound_fulfill :: "htlc_inbound_table \<Rightarrow> bytes \<Rightarrow> bytes \<Rightarrow> bool \<times> htlc_inbound_table" where
  "htlc_inbound_fulfill tbl hash preimage =
     (case first_index (\<lambda>e. in_state e = HTLC_INBOUND_PENDING \<and> in_payment_hash e = take 32 hash) (in_entries tbl) of
        None \<Rightarrow> (False, tbl)
      | Some k \<Rightarrow> (True, tbl\<lparr>in_entries := (in_entries tbl)
                     [k := (in_entries tbl ! k)\<lparr>in_state := HTLC_INBOUND_FULFILLED, in_preimage := take 32 preimage\<rparr>]\<rparr>))"

definition htlc_inbound_fail :: "htlc_inbound_table \<Rightarrow> u64 \<Rightarrow> bool \<times> htlc_inbound_table" where
  "htlc_inbound_fail tbl i =
     (case first_index (\<lambda>e. in_htlc_id e = i \<and> in_state e = HTLC_INBOUND_PENDING) (in_entries tbl) of
        None \<Rightarrow> (False, tbl)
      | Some k \<Rightarrow> (True, tbl\<lparr>in_entries := (in_entries tbl)[k := (in_entries tbl ! k)\<lparr>in_state := HTLC_INBOUND_FAILED\<rparr>]\<rparr>))"

definition inbound_expired :: "u32 \<Rightarrow> htlc_inbound \<Rightarrow> bool" where
  "inbound_expired height e \<longleftrightarrow> in_state e = HTLC_INBOUND_PENDING \<and> in_cltv_expiry e \<le> height"

definition htlc_inbound_check_timeouts :: "htlc_inbound_table \<Rightarrow> u32 \<Rightarrow> nat \<times> htlc_inbound_table" where
  "htlc_inbound_check_timeouts tbl height =
     (length (filter (inbound_expired height) (in_entries tbl)),
      tbl\<lparr>in_entries := map (\<lambda>e. if inbound_expired height e then e\<lparr>in_state := HTLC_INBOUND_FAILED\<rparr> else e) (in_entries tbl)\<rparr>)"

definition htlc_inbound_find_by_secret :: "htlc_inbound_table \<Rightarrow> bytes \<Rightarrow> htlc_inbound option" where
  "htlc_inbound_find_by_secret tbl secret =
     map_option ((!) (in_entries tbl))
       (first_index (\<lambda>e. in_state e = HTLC_INBOUND_PENDING \<and> in_payment_secret e = take 32 secret) (in_entries tbl))"

section \<open>Life of an entry\<close>

text \<open>The calls that change the table.\<close>

datatype inbound_call =
    InAdd u32 u64 u64 bytes bytes u32 u64
  | InFulfill bytes bytes
  | InFail u64
  | InTimeouts u32

fun inbound_step :: "inbound_call \<Rightarrow> htlc_inbound_table \<Rightarrow> htlc_inbound_table" where
  "inbound_step (InAdd now i amount hash secret cltv scid) tbl = snd (htlc_inbound_add now tbl i amount hash secret cltv scid)"
| "inbound_step (InFulfill hash preimage) tbl = snd (htlc_inbound_fulfill tbl hash preimage)"
| "inbound_step (InFail i) tbl = snd (htlc_inbound_fail tbl i)"
| "inbound_step (InTimeouts height) tbl = snd (htlc_inbound_check_timeouts tbl height)"

text \<open>How one entry may change: a pending one is fulfilled with a preimage or failed, once; nothing
  else changes.\<close>

inductive entry_evolves :: "htlc_inbound \<Rightarrow> htlc_inbound \<Rightarrow> bool" where
  evolves_same: "entry_evolves e e"
| evolves_fulfilled: "in_state e = HTLC_INBOUND_PENDING \<Longrightarrow>
    entry_evolves e (e\<lparr>in_state := HTLC_INBOUND_FULFILLED, in_preimage := p\<rparr>)"
| evolves_failed: "in_state e = HTLC_INBOUND_PENDING \<Longrightarrow> entry_evolves e (e\<lparr>in_state := HTLC_INBOUND_FAILED\<rparr>)"

lemma entry_evolves_trans: "entry_evolves a b \<Longrightarrow> entry_evolves b c \<Longrightarrow> entry_evolves a c"
  by (auto elim!: entry_evolves.cases intro: entry_evolves.intros)

lemma entry_evolves_id: "entry_evolves a b \<Longrightarrow> in_htlc_id b = in_htlc_id a"
  by (auto elim: entry_evolves.cases)

lemma entry_settled: "entry_evolves a b \<Longrightarrow> in_state a \<noteq> HTLC_INBOUND_PENDING \<Longrightarrow> b = a"
  by (auto elim: entry_evolves.cases)

definition table_evolves :: "htlc_inbound_table \<Rightarrow> htlc_inbound_table \<Rightarrow> bool" where
  "table_evolves s t \<longleftrightarrow> length (in_entries s) \<le> length (in_entries t)
     \<and> list_all2 entry_evolves (in_entries s) (take (length (in_entries s)) (in_entries t))"

lemma evolves_update:
  "k < length xs \<Longrightarrow> entry_evolves (xs ! k) y \<Longrightarrow> list_all2 entry_evolves xs (xs[k := y])"
  by (auto simp: list_all2_conv_all_nth nth_list_update evolves_same)

lemma table_evolves_refl: "table_evolves s s"
  by (simp add: table_evolves_def list_all2_refl evolves_same)

lemma table_evolves_trans:
  assumes "table_evolves r s" and "table_evolves s t"
  shows "table_evolves r t"
  using assms by (auto simp: table_evolves_def list_all2_conv_all_nth intro: entry_evolves_trans)

lemma inbound_step_evolves: "table_evolves tbl (inbound_step c tbl)"
proof (cases c)
  case (InFulfill hash preimage)
  then show ?thesis
    using first_index_Some[of "\<lambda>e. in_state e = HTLC_INBOUND_PENDING \<and> in_payment_hash e = take 32 hash" "in_entries tbl"]
    by (auto simp: htlc_inbound_fulfill_def table_evolves_refl split: option.splits)
      (auto simp: table_evolves_def intro!: evolves_update evolves_fulfilled)
next
  case (InFail i)
  then show ?thesis
    using first_index_Some[of "\<lambda>e. in_htlc_id e = i \<and> in_state e = HTLC_INBOUND_PENDING" "in_entries tbl"]
    by (auto simp: htlc_inbound_fail_def table_evolves_refl split: option.splits)
      (auto simp: table_evolves_def intro!: evolves_update evolves_failed)
qed (auto simp: htlc_inbound_add_def htlc_inbound_check_timeouts_def table_evolves_def list_all2_refl evolves_same
    list_all2_conv_all_nth inbound_expired_def nth_append intro: entry_evolves.intros)

lemma inbound_run_evolves: "table_evolves tbl (fold inbound_step cs tbl)"
  by (induction cs arbitrary: tbl) (auto simp: table_evolves_refl intro: table_evolves_trans inbound_step_evolves)

text \<open>Ids are never reused and the table never outgrows its array.\<close>

definition inbound_inv :: "htlc_inbound_table \<Rightarrow> bool" where
  "inbound_inv tbl \<longleftrightarrow> distinct (map in_htlc_id (in_entries tbl)) \<and> length (in_entries tbl) \<le> HTLC_INBOUND_MAX"

lemma map_update_same: "k < length xs \<Longrightarrow> f y = f (xs ! k) \<Longrightarrow> map f (xs[k := y]) = map f xs"
  by (simp add: map_update list_update_same_conv)

lemma inbound_timeout_id: "in_htlc_id (if p then e\<lparr>in_state := v\<rparr> else e) = in_htlc_id e"
  by simp

lemma inbound_step_inv:
  assumes "inbound_inv tbl"
  shows "inbound_inv (inbound_step c tbl)"
proof (cases c)
  case (InAdd now i amount hash secret cltv scid)
  then show ?thesis using assms by (auto simp: inbound_inv_def htlc_inbound_add_def list_ex_iff)
next
  case (InTimeouts height)
  then show ?thesis using assms by (simp add: inbound_inv_def htlc_inbound_check_timeouts_def comp_def inbound_timeout_id del: if_split)
qed (use assms in \<open>auto simp: inbound_inv_def htlc_inbound_fulfill_def htlc_inbound_fail_def map_update_same
      dest!: first_index_Some split: option.splits\<close>)

lemma inbound_run_inv: "inbound_inv tbl \<Longrightarrow> inbound_inv (fold inbound_step cs tbl)"
  by (induction cs arbitrary: tbl) (simp_all add: inbound_step_inv)

text \<open>C36: The table of inbound HTLCs only ever fills up.  Along any history of calls the ids are
  distinct and at most 64 entries are used; an entry keeps its place, changes at most once, from pending to
  fulfilled or failed, and nothing but its state and preimage changes.  As no call frees an
  entry, once 64 HTLCs have been taken every later one is refused, whatever became of the others.\<close>

theorem inbound_history:
  assumes "t = fold inbound_step cs htlc_inbound_init" and "t' = fold inbound_step ds t"
  shows "distinct (map in_htlc_id (in_entries t')) \<and> length (in_entries t') \<le> 64
    \<and> list_all2 entry_evolves (in_entries t) (take (length (in_entries t)) (in_entries t'))
    \<and> (length (in_entries t) = 64 \<longrightarrow> htlc_inbound_add now t' i amount hash secret cltv scid = (False, t'))"
proof -
  have "inbound_inv htlc_inbound_init" by (simp add: inbound_inv_def htlc_inbound_init_def)
  then have "inbound_inv t'" by (simp add: assms inbound_run_inv)
  moreover have "table_evolves t t'" by (simp add: assms inbound_run_evolves)
  ultimately show ?thesis by (auto simp: inbound_inv_def table_evolves_def htlc_inbound_add_def HTLC_INBOUND_MAX_def)
qed

definition sample_adds :: "inbound_call list" where
  "sample_adds = map (\<lambda>i. InAdd 0 (of_nat i) 5 [1] [2] 100 0) [0..<64]"

theorem inbound_history_witness:
  "length (in_entries (fold inbound_step sample_adds htlc_inbound_init)) = 64
    \<and> htlc_inbound_add 9 (fold inbound_step [InTimeouts 200] (fold inbound_step sample_adds htlc_inbound_init)) 99 5 [1] [2] 300 0
        = (False, fold inbound_step [InTimeouts 200] (fold inbound_step sample_adds htlc_inbound_init))"
proof -
  have "length (in_entries (fold inbound_step sample_adds htlc_inbound_init)) = 64" by code_simp
  with inbound_history[OF refl refl, of "[InTimeouts 200]" sample_adds 9 99 5 "[1]" "[2]" 300 0] show ?thesis by blast
qed

section \<open>Registration as parts of a payment\<close>

text \<open>The overpayment guard for amounts within the money supply.\<close>

lemma no_overpayment: "unat a \<le> MAX_MSAT \<Longrightarrow> \<not> a > 2 * (a :: u64)"
  using unat_mult_nowrap[of 2 a] by (simp add: MAX_MSAT_def word_less_nat_alt)

lemma overpayment: "unat a < unat b \<Longrightarrow> unat b \<le> MAX_MSAT \<Longrightarrow> a + b > 2 * (a :: u64)"
  using unat_mult_nowrap[of 2 a] unat_plus_nowrap[of a b] by (simp add: MAX_MSAT_def word_less_nat_alt)

text \<open>The parts of one payment are not aggregated.  The amount of an HTLC is also passed
  as the total of its payment, so the first part always completes it; with two HTLCs of the
  same secret, the second larger than the first, both are taken into the table of inbound HTLCs, but the second is
  not registered as a part.\<close>


lemma inbound_second_part_lost:
  assumes "list_all mpp_sane cs" and "in_mpp t = fold mpp_step cs mpp_init" and "length (in_entries t) < 63"
    and "list_all (\<lambda>e. in_htlc_id e \<noteq> i \<and> in_htlc_id e \<noteq> j) (in_entries t)" and "i \<noteq> j"
    and "length s = 32" and "mpp_abs (in_mpp t) s = None" and "card (dom (mpp_abs (in_mpp t))) < 32"
    and "unat a < unat b" and "unat b \<le> MAX_MSAT"
  shows "case htlc_inbound_add now t i a h s cltv scid of (ok, t1) \<Rightarrow>
      ok \<and> fst (htlc_inbound_add now' t1 j b h s cltv' scid)
      \<and> fst (mpp_add_part now (in_mpp t) s i a a cltv) = 1
      \<and> mpp_get_parts (in_mpp (snd (htlc_inbound_add now' t1 j b h s cltv' scid))) s 10 = [i]"
proof -
  let ?m = "in_mpp t"
  obtain r1 m1 where m1: "mpp_add_part now ?m s i a a cltv = (r1, m1)" by (cases "mpp_add_part now ?m s i a a cltv")
  obtain r2 m2 where m2: "mpp_add_part now' m1 s j b b cltv' = (r2, m2)" by (cases "mpp_add_part now' m1 s j b b cltv'")
  have a: "unat a \<le> MAX_MSAT" using assms(9,10) by simp
  have wf: "mpp_wf ?m" using mpp_run_wf[OF assms(1) mpp_init_wf] by (simp add: assms(2))
  have wf1: "mpp_wf m1" using mpp_add_part_wf[OF wf assms(6) a a, of now i cltv] m1 by simp
  have s1: "r1 = fst (slot_add_part now (mpp_abs ?m) s i a a cltv)" "mpp_abs m1 = snd (slot_add_part now (mpp_abs ?m) s i a a cltv)"
    using mpp_add_part_abs[OF wf assms(6) a a m1] by simp_all
  have s2: "mpp_abs m2 = snd (slot_add_part now' (mpp_abs m1) s j b b cltv')"
    using mpp_add_part_abs[OF wf1 assms(6,10,10) m2] by simp
  have "r1 = 1" unfolding s1 using assms(7,8) no_overpayment[OF a]
    by (simp add: slot_add_part_def mpp_entry_add_def Let_def MPP_MAX_PAYMENTS_def MPP_MAX_PARTS_def mpp_zero_def)
  obtain e where e: "mpp_abs m1 s = Some e" "map part_htlc_id (parts e) = [i]" "collected_msat e = a" "total_msat e = a"
    unfolding s1 using assms(7,8) no_overpayment[OF a]
    by (simp add: slot_add_part_def mpp_entry_add_def Let_def MPP_MAX_PAYMENTS_def MPP_MAX_PARTS_def mpp_zero_def)
  have "mpp_abs m2 s = Some e" unfolding s2 using e overpayment[OF assms(9,10)]
    by (simp add: slot_add_part_def mpp_entry_add_def Let_def)
  then have "mpp_get_parts m2 s 10 = [i]" using e(2) assms(6) by (auto simp: mpp_get_parts_def mpp_abs_def split: option.splits)
  moreover have "fst (htlc_inbound_add now t i a h s cltv scid)" "in_mpp (snd (htlc_inbound_add now t i a h s cltv scid)) = m1"
    "length (in_entries (snd (htlc_inbound_add now t i a h s cltv scid))) < 64"
    "\<not> list_ex (\<lambda>e. in_htlc_id e = j) (in_entries (snd (htlc_inbound_add now t i a h s cltv scid)))"
    using assms(3,4,5) m1 by (simp_all add: htlc_inbound_add_def HTLC_INBOUND_MAX_def list_all_iff list_ex_iff)
  ultimately show ?thesis using \<open>r1 = 1\<close> m1 m2
    by (simp add: htlc_inbound_add_def[of now'] HTLC_INBOUND_MAX_def case_prod_unfold)
qed

end
