(* ===== verification/Factory.thy ===== *)
theory Factory
  imports DW_State Channel Fees
begin

text \<open>
  The factory tree of \<^verbatim>\<open>src/factory.c\<close>: a tree of transactions over the funding output, each level a kickoff
  and a state transaction signed by the LSP and the clients below it, with the channels in the leaves.

  Node indices, client indices and counts are natural numbers, amounts and lock times keep their widths.
  The arrays with a separate counter (nodes, signers, outputs, children) are lists; \<^verbatim>\<open>parent_index\<close> is \<open>None\<close> where the
  code has \<open>-1\<close>.  A node has a time-out tree just if \<open>nd_timeout_leaf\<close> is present.  A function that
  returns 0 with the factory half built gives \<open>None\<close>: every caller gives that factory up.  The order
  in which \<^verbatim>\<open>qsort\<close> puts the clients is an argument.  Keys and signatures of the signing rounds are not part of the model.
\<close>

section \<open>Data\<close>

definition FACTORY_MAX_NODES :: nat where
  "FACTORY_MAX_NODES = 512"

definition FACTORY_MAX_OUTPUTS :: nat where
  "FACTORY_MAX_OUTPUTS = 16"

definition FACTORY_MAX_SIGNERS :: nat where
  "FACTORY_MAX_SIGNERS = 128"

definition FACTORY_MAX_LEAVES :: nat where
  "FACTORY_MAX_LEAVES = 128"

definition FACTORY_MAX_LEVELS :: nat where
  "FACTORY_MAX_LEVELS = 8"

definition NSEQUENCE_DISABLE_BIP68 :: u32 where
  "NSEQUENCE_DISABLE_BIP68 = 0xFFFFFFFF"

definition L_STOCK_CSV_DEFAULT_BLOCKS :: u32 where
  "L_STOCK_CSV_DEFAULT_BLOCKS = 144"

definition TIMEOUT_STEP_BLOCKS :: u32 where
  "TIMEOUT_STEP_BLOCKS = 5"

text \<open>An arity is a number: 1, 2 or, for pseudo-Spilman leaves, 3 as a leaf arity; any byte as the arity of a level.\<close>

definition FACTORY_ARITY_1 :: nat where
  "FACTORY_ARITY_1 = 1"

definition FACTORY_ARITY_2 :: nat where
  "FACTORY_ARITY_2 = 2"

definition FACTORY_ARITY_PS :: nat where
  "FACTORY_ARITY_PS = 3"

datatype placement_mode = PLACEMENT_SEQUENTIAL | PLACEMENT_INWARD | PLACEMENT_OUTWARD | PLACEMENT_TIMEZONE_CLUSTER

datatype factory_node_type = NODE_KICKOFF | NODE_STATE | NODE_PS_SUBFACTORY

datatype factory_state = FACTORY_ACTIVE | FACTORY_DYING | FACTORY_EXPIRED

record factory_config =
  max_signers :: nat
  max_nodes :: nat
  max_leaves :: nat
  max_outputs_per_node :: nat
  dust_limit_sats :: u64

record ('xo, 'ca) factory_node =
  nd_type :: factory_node_type
  nd_signers :: "nat list"
  nd_keyagg :: "('xo, 'ca) musig_keyagg"
  nd_tweaked :: 'xo
  nd_spk :: bytes
  nd_unsigned_tx :: tx_buf
  nd_txid :: bytes
  nd_nsequence :: u32
  nd_built :: bool
  nd_signed :: bool
  nd_outputs :: "tx_output list"
  nd_layer :: int
  nd_parent :: "nat option"
  nd_vout :: nat
  nd_children :: "nat list"
  nd_input :: u64
  nd_cltv :: u32
  nd_timeout_leaf :: "tapscript_leaf option"
  nd_parity :: bool
  nd_ps_leaf :: bool
  nd_chain_len :: nat
  nd_prev_txid :: bytes
  nd_prev_chan_amount :: u64
  nd_prev_outputs :: "tx_output list"
  nd_confirmed_height :: u32
  nd_subfactories :: "nat list"
  nd_static :: bool

record ('pk, 'xo, 'ca) factory =
  f_pubkeys :: "'pk list"
  f_participants :: nat
  f_nodes :: "('xo, 'ca) factory_node list"
  f_funding_txid :: bytes
  f_funding_vout :: u32
  f_funding_amount :: u64
  f_funding_spk :: bytes
  f_counter :: dw_counter
  f_step_blocks :: u16
  f_states_per_layer :: u32
  f_fee_per_tx :: u64
  f_fee :: fee_estimator
  f_cltv_timeout :: u32
  f_shachain :: bool
  f_leaf_layers :: "dw_layer list"
  f_n_leaf_nodes :: nat
  f_leaf_nodes :: "nat list"
  f_per_leaf :: bool
  f_leaf_arity :: nat
  f_level_arity :: "nat list"
  f_static_depth :: nat
  f_l_stock_csv :: u32
  f_ps_k :: nat
  f_created_block :: u32
  f_active_blocks :: u32
  f_dying_blocks :: u32
  f_placement :: placement_mode
  f_config :: factory_config

section \<open>Shape of the tree\<close>

definition arity_at_depth :: "('pk, 'xo, 'ca) factory \<Rightarrow> nat \<Rightarrow> nat" where
  "arity_at_depth f depth =
     (if f_level_arity f = [] then f_leaf_arity f
      else if depth < length (f_level_arity f) then f_level_arity f ! depth
      else f_level_arity f ! (length (f_level_arity f) - 1))"

definition ps_leaf_capacity :: "('pk, 'xo, 'ca) factory \<Rightarrow> nat" where
  "ps_leaf_capacity f = (if f_ps_k f \<le> 1 then 1 else f_ps_k f * f_ps_k f)"

definition subtree_is_leaf :: "('pk, 'xo, 'ca) factory \<Rightarrow> nat \<Rightarrow> nat \<Rightarrow> bool" where
  "subtree_is_leaf f a nc =
     (if a = 1 then nc \<le> 1 else if a = FACTORY_ARITY_PS then nc \<le> ps_leaf_capacity f else nc \<le> a)"

text \<open>The loop for three or more children: an even share of what remains for each child still to come.\<close>

function split_loop :: "nat \<Rightarrow> nat \<Rightarrow> nat \<Rightarrow> nat list \<times> nat" where
  "split_loop a children remaining =
     (if remaining > 0 \<and> children < a then
        let children_left = a - children;
            this_child = (remaining + children_left - 1) div children_left;
            this_child = (if this_child > remaining then remaining else this_child)
        in (case split_loop a (children + 1) (remaining - this_child) of (parts, rest) \<Rightarrow> (this_child # parts, rest))
      else ([], remaining))"
  by pat_completeness auto
termination
  by (relation "measure (\<lambda>(a, children, remaining). a - children)") auto

declare split_loop.simps [simp del]

text \<open>The callers pass an array of \<^verbatim>\<open>FACTORY_MAX_OUTPUTS\<close> (16) entries and compare the number of parts with the limit of
  the configuration only after the split, so that an arity above 16 writes outside the array before it is refused.  The model has
  the parts as a list and shows the refusal only.\<close>

definition split_clients_for_arity :: "nat \<Rightarrow> nat \<Rightarrow> nat list" where
  "split_clients_for_arity a nc =
     (if a = 1 \<or> a = FACTORY_ARITY_PS then [nc div 2, nc - nc div 2]
      else if a = 2 then
        let total_leaves_est = (nc + 1) div 2;
            left_leaves = total_leaves_est div 2;
            left_n = left_leaves * 2;
            left_n = (if left_n > nc then nc else left_n)
        in [left_n, nc - left_n]
      else case split_loop a 0 nc of (parts, rest) \<Rightarrow>
        if rest > 0 \<and> parts \<noteq> [] then butlast parts @ [last parts + rest] else parts)"

text \<open>The number of bits of \<open>v\<close>, the loop \<^verbatim>\<open>while (v > 0) { depth++; v >>= 1; }\<close>.\<close>

fun bit_count_loop :: "nat \<Rightarrow> nat" where
  "bit_count_loop v = (if v > 0 then Suc (bit_count_loop (v div 2)) else 0)"

declare bit_count_loop.simps [simp del]

definition compute_leaf_count_psk :: "nat \<Rightarrow> nat \<Rightarrow> nat \<Rightarrow> nat" where
  "compute_leaf_count_psk n_clients arity ps_leaf_cap =
     (if arity = FACTORY_ARITY_1 then n_clients
      else if arity = FACTORY_ARITY_PS then
        let cap = (if ps_leaf_cap < 1 then 1 else ps_leaf_cap) in (n_clients + cap - 1) div cap
      else (n_clients + 1) div 2)"

definition compute_tree_depth_psk :: "nat \<Rightarrow> nat \<Rightarrow> nat \<Rightarrow> nat" where
  "compute_tree_depth_psk n_clients arity ps_leaf_cap =
     (let n_leaves = (if arity = FACTORY_ARITY_1 then n_clients
            else if arity = FACTORY_ARITY_PS then
              let cap = (if ps_leaf_cap < 1 then 1 else ps_leaf_cap) in (n_clients + cap - 1) div cap
            else (n_clients + 1) div 2)
      in if n_leaves \<le> 1 then 0 else bit_count_loop (n_leaves - 1))"

definition dw_n_layers_for :: "nat \<Rightarrow> nat \<Rightarrow> nat" where
  "dw_n_layers_for tree_depth static_threshold =
     (let t = (if static_threshold > tree_depth + 1 then tree_depth + 1 else static_threshold);
          n = tree_depth + 1 - t;
          n = (if n < 1 then 1 else n)
      in if n > DW_MAX_LAYERS then DW_MAX_LAYERS else n)"

text \<open>Walking a tree of mixed arity with an explicit stack, the last pushed frame first; frames that do not fit
  the stack are dropped.  The fuel bounds the number of frames taken.\<close>

fun simulate_loop :: "nat \<Rightarrow> ('pk, 'xo, 'ca) factory \<Rightarrow> (nat \<times> nat) list \<Rightarrow> nat \<Rightarrow> nat \<Rightarrow> (nat \<times> nat) option" where
  "simulate_loop 0 f stack max_depth leaves = None"
| "simulate_loop (Suc fuel) f [] max_depth leaves = Some (max_depth, leaves)"
| "simulate_loop (Suc fuel) f ((nc, d) # stack) max_depth leaves =
     (if nc = 0 then simulate_loop fuel f stack max_depth leaves
      else let max_depth = (if d > max_depth then d else max_depth); a = arity_at_depth f d in
        if subtree_is_leaf f a nc then simulate_loop fuel f stack max_depth (leaves + 1)
        else simulate_loop fuel f
               (rev (map (\<lambda>p. (p, d + 1)) (take (FACTORY_MAX_NODES - length stack) (split_clients_for_arity a nc))) @ stack)
               max_depth leaves)"

text \<open>A tree of \<open>nc\<close> clients has fewer than \<open>2 * nc\<close> frames.\<close>

definition simulate_tree :: "('pk, 'xo, 'ca) factory \<Rightarrow> nat \<Rightarrow> nat \<times> nat" where
  "simulate_tree f n_clients = the (simulate_loop (3 * n_clients + 2) f [(n_clients, 0)] 0 0)"

text \<open>Depth and number of leaves, by simulation for mixed arities.\<close>

definition tree_metrics :: "('pk, 'xo, 'ca) factory \<Rightarrow> nat \<Rightarrow> nat \<times> nat" where
  "tree_metrics f n_clients =
     (if f_level_arity f \<noteq> [] then simulate_tree f n_clients
      else (compute_tree_depth_psk n_clients (f_leaf_arity f) (ps_leaf_capacity f),
            compute_leaf_count_psk n_clients (f_leaf_arity f) (ps_leaf_capacity f)))"

section \<open>Initialisation and settings\<close>

definition factory_config_default :: factory_config where
  "factory_config_default = \<lparr>max_signers = FACTORY_MAX_SIGNERS, max_nodes = FACTORY_MAX_NODES, max_leaves = FACTORY_MAX_LEAVES,
     max_outputs_per_node = FACTORY_MAX_OUTPUTS, dust_limit_sats = 546\<rparr>"

text \<open>The leaf layers start afresh for the leaves in use.\<close>

definition init_leaf_layers :: "nat \<Rightarrow> ('pk, 'xo, 'ca) factory \<Rightarrow> ('pk, 'xo, 'ca) factory" where
  "init_leaf_layers n f =
     f\<lparr>f_n_leaf_nodes := n,
       f_leaf_layers := map (\<lambda>i. if i < n then dw_layer_init (f_step_blocks f) (f_states_per_layer f) else f_leaf_layers f ! i)
         [0..<length (f_leaf_layers f)]\<rparr>"

definition n_clients_for_shape :: "('pk, 'xo, 'ca) factory \<Rightarrow> nat" where
  "n_clients_for_shape f = (if f_participants f > 1 then f_participants f - 1 else 1)"

definition factory_init_from_pubkeys :: "'pk list \<Rightarrow> nat \<Rightarrow> u16 \<Rightarrow> u32 \<Rightarrow> ('pk, 'xo, 'ca) factory" where
  "factory_init_from_pubkeys pubkeys n_participants step states =
     (let nc = (if n_participants > 1 then n_participants - 1 else 1);
          n_leaves = compute_leaf_count_psk nc FACTORY_ARITY_2 1;
          layers = compute_tree_depth_psk nc FACTORY_ARITY_2 1 + 1
      in init_leaf_layers n_leaves
        \<lparr>f_pubkeys = take n_participants pubkeys, f_participants = n_participants, f_nodes = [], f_funding_txid = replicate 32 0,
         f_funding_vout = 0, f_funding_amount = 0, f_funding_spk = [], f_counter = dw_counter_init layers step states,
         f_step_blocks = step, f_states_per_layer = states, f_fee_per_tx = 200, f_fee = None, f_cltv_timeout = 0,
         f_shachain = False, f_leaf_layers = replicate FACTORY_MAX_LEAVES (dw_layer_init 0 0), f_n_leaf_nodes = 0,
         f_leaf_nodes = replicate FACTORY_MAX_LEAVES 0, f_per_leaf = False, f_leaf_arity = FACTORY_ARITY_2, f_level_arity = [],
         f_static_depth = 0, f_l_stock_csv = 0, f_ps_k = 1, f_created_block = 0, f_active_blocks = 0, f_dying_blocks = 0,
         f_placement = PLACEMENT_TIMEZONE_CLUSTER, f_config = factory_config_default\<rparr>)"

text \<open>The counters of the shape, as every setter recomputes them.\<close>

definition reshape :: "nat \<Rightarrow> nat \<Rightarrow> ('pk, 'xo, 'ca) factory \<Rightarrow> ('pk, 'xo, 'ca) factory" where
  "reshape tree_depth n_leaves f =
     (init_leaf_layers n_leaves
        (f\<lparr>f_counter := dw_counter_init (dw_n_layers_for tree_depth (f_static_depth f)) (f_step_blocks f) (f_states_per_layer f)\<rparr>))
       \<lparr>f_per_leaf := False\<rparr>"

definition factory_set_arity :: "nat \<Rightarrow> ('pk, 'xo, 'ca) factory \<Rightarrow> ('pk, 'xo, 'ca) factory" where
  "factory_set_arity arity f =
     (let f = f\<lparr>f_leaf_arity := arity, f_level_arity := []\<rparr>;
          nc = n_clients_for_shape f; cap = ps_leaf_capacity f
      in reshape (compute_tree_depth_psk nc arity cap) (compute_leaf_count_psk nc arity cap) f)"

definition factory_set_l_stock_csv :: "u32 \<Rightarrow> ('pk, 'xo, 'ca) factory \<Rightarrow> ('pk, 'xo, 'ca) factory" where
  "factory_set_l_stock_csv csv_blocks f = f\<lparr>f_l_stock_csv := csv_blocks\<rparr>"

definition factory_set_ps_subfactory_arity :: "nat \<Rightarrow> ('pk, 'xo, 'ca) factory \<Rightarrow> ('pk, 'xo, 'ca) factory" where
  "factory_set_ps_subfactory_arity k f =
     (let k = (if k = 0 then 1 else k);
          k = (if k > FACTORY_MAX_OUTPUTS - 1 then FACTORY_MAX_OUTPUTS - 1 else k);
          f = f\<lparr>f_ps_k := k\<rparr>
      in if f_leaf_arity f \<noteq> FACTORY_ARITY_PS then f
         else let nc = n_clients_for_shape f; cap = ps_leaf_capacity f
              in reshape (compute_tree_depth_psk nc FACTORY_ARITY_PS cap) (compute_leaf_count_psk nc FACTORY_ARITY_PS cap) f)"

definition factory_set_level_arity :: "nat list \<Rightarrow> ('pk, 'xo, 'ca) factory \<Rightarrow> ('pk, 'xo, 'ca) factory" where
  "factory_set_level_arity arities f =
     (let arities = take FACTORY_MAX_LEVELS arities;
          f = f\<lparr>f_level_arity := arities, f_leaf_arity := last arities\<rparr>
      in case simulate_tree f (n_clients_for_shape f) of (depth, n_leaves) \<Rightarrow> reshape depth n_leaves f)"

definition factory_set_static_near_root :: "nat \<Rightarrow> ('pk, 'xo, 'ca) factory \<Rightarrow> ('pk, 'xo, 'ca) factory" where
  "factory_set_static_near_root threshold f =
     (let f = f\<lparr>f_static_depth := threshold\<rparr>
      in case tree_metrics f (n_clients_for_shape f) of (depth, n_leaves) \<Rightarrow> reshape depth n_leaves f)"

definition factory_set_funding :: "bytes \<Rightarrow> u32 \<Rightarrow> u64 \<Rightarrow> bytes \<Rightarrow> ('pk, 'xo, 'ca) factory \<Rightarrow> ('pk, 'xo, 'ca) factory" where
  "factory_set_funding txid vout amount spk f =
     (if length spk > 34 then f
      else f\<lparr>f_funding_txid := take 32 txid, f_funding_vout := vout, f_funding_amount := amount, f_funding_spk := spk\<rparr>)"

definition factory_set_lifecycle :: "u32 \<Rightarrow> u32 \<Rightarrow> u32 \<Rightarrow> ('pk, 'xo, 'ca) factory \<Rightarrow> ('pk, 'xo, 'ca) factory" where
  "factory_set_lifecycle created_block active_blocks dying_blocks f =
     f\<lparr>f_created_block := created_block, f_active_blocks := active_blocks, f_dying_blocks := dying_blocks\<rparr>"

definition factory_get_state :: "('pk, 'xo, 'ca) factory \<Rightarrow> u32 \<Rightarrow> factory_state" where
  "factory_get_state f current_block =
     (if f_active_blocks f = 0 then FACTORY_EXPIRED
      else let dying_start = f_created_block f + f_active_blocks f;
               expired_start = dying_start + f_dying_blocks f
           in if current_block < dying_start then FACTORY_ACTIVE
              else if current_block < expired_start then FACTORY_DYING
              else FACTORY_EXPIRED)"

definition factory_blocks_until_dying :: "('pk, 'xo, 'ca) factory \<Rightarrow> u32 \<Rightarrow> u32" where
  "factory_blocks_until_dying f current_block =
     (let dying_start = f_created_block f + f_active_blocks f
      in if current_block \<ge> dying_start then 0 else dying_start - current_block)"

definition factory_blocks_until_expired :: "('pk, 'xo, 'ca) factory \<Rightarrow> u32 \<Rightarrow> u32" where
  "factory_blocks_until_expired f current_block =
     (let expired_start = f_created_block f + f_active_blocks f + f_dying_blocks f
      in if current_block \<ge> expired_start then 0 else expired_start - current_block)"


section \<open>Splitting and simulating\<close>

lemma split_loop_sum: "split_loop a c r = (parts, rest) \<Longrightarrow> sum_list parts + rest = r \<and> (\<forall>p\<in>set parts. 0 < p)"
proof (induction a c r arbitrary: parts rest rule: split_loop.induct)
  case (1 a c r)
  show ?case
  proof (cases "r > 0 \<and> c < a")
    case False
    then show ?thesis using 1(2) by (auto simp: split_loop.simps[of a c r])
  next
    case True
    define t where "t = (r + (a - c) - 1) div (a - c)"
    define u where "u = (if t > r then r else t)"
    have "0 < t"
      unfolding t_def using True by (intro div_greater_zero_iff[THEN iffD2]) auto
    then have u: "0 < u" "u \<le> r"
      using True by (auto simp: u_def)
    obtain ps where parts: "parts = u # ps" and rec: "split_loop a (c + 1) (r - u) = (ps, rest)"
      using 1(2)[unfolded split_loop.simps[of a c r] Let_def, folded t_def, folded u_def] True by (auto split: prod.split_asm)
    have "sum_list ps + rest = r - u \<and> (\<forall>p\<in>set ps. 0 < p)"
      using 1(1)[OF True refl refl refl, folded t_def, folded u_def, OF rec] .
    then show ?thesis
      using u by (auto simp: parts)
  qed
qed

lemma split_loop_two:
  assumes "split_loop a 0 r = (parts, rest)" and "2 \<le> a" and "a < r"
  shows "2 \<le> length parts"
proof -
  define t where "t = (r + a - 1) div a"
  have t: "0 < t" "t < r"
  proof -
    show "0 < t"
      unfolding t_def using assms(2,3) by (intro div_greater_zero_iff[THEN iffD2]) auto
    obtain b q where "a = Suc b" "r = Suc q" "0 < b" "0 < q"
      using assms(2,3) by (cases a; cases r) auto
    then have "r + a - 1 < r * a"
      by simp
    then show "t < r"
      unfolding t_def by (simp add: less_mult_imp_div_less)
  qed
  then obtain ps where parts: "parts = t # ps" and rec: "split_loop a 1 (r - t) = (ps, rest)"
    using assms by (auto simp: split_loop.simps[of a 0 r] Let_def t_def split: prod.splits if_splits)
  have "ps \<noteq> []"
    using rec t assms(2) by (auto simp: split_loop.simps[of a "Suc 0" "r - t"] Let_def split: prod.split_asm)
  then show ?thesis
    by (cases ps) (auto simp: parts)
qed

text \<open>What is not a leaf is split into two or more shares, none empty, that add up.\<close>

lemma split_clients_proper:
  assumes "\<not> subtree_is_leaf f a nc" and "parts = split_clients_for_arity a nc" and "parts \<noteq> []"
  shows "2 \<le> length parts" "sum_list parts = nc" "\<forall>p\<in>set parts. 0 < p"
proof -
  have "2 \<le> length parts \<and> sum_list parts = nc \<and> (\<forall>p\<in>set parts. 0 < p)"
  proof (cases "a = 1 \<or> a = FACTORY_ARITY_PS \<or> a = 2")
    case True
    moreover have "1 \<le> ps_leaf_capacity f"
      by (simp add: ps_leaf_capacity_def)
    ultimately show ?thesis
      using assms by (auto simp: subtree_is_leaf_def split_clients_for_arity_def FACTORY_ARITY_PS_def Let_def split: if_splits)
  next
    case False
    obtain ps rest where s: "split_loop a 0 nc = (ps, rest)" by fastforce
    have "split_loop 0 0 nc = ([], nc)"
      by (simp add: split_loop.simps[of 0 0 nc])
    then have "split_clients_for_arity 0 nc = []"
      by (simp add: split_clients_for_arity_def FACTORY_ARITY_PS_def)
    then have "a \<noteq> 0"
      using assms(2,3) by (cases "a = 0") auto
    then have a: "2 \<le> a" "a < nc"
      using False assms(1) by (auto simp: subtree_is_leaf_def)
    have ps: "2 \<le> length ps" "sum_list ps + rest = nc" "\<forall>p\<in>set ps. 0 < p"
      using split_loop_two[OF s a] split_loop_sum[OF s] by auto
    then obtain qs q where q: "ps = qs @ [q]"
      by (cases ps rule: rev_cases) auto
    have "parts = (if rest > 0 then qs @ [q + rest] else ps)"
      using assms(2) False s by (auto simp: split_clients_for_arity_def q)
    then show ?thesis
      using ps by (auto simp: q)
  qed
  then show "2 \<le> length parts" "sum_list parts = nc" "\<forall>p\<in>set parts. 0 < p" by auto
qed

lemma split_clients_less:
  assumes "\<not> subtree_is_leaf f a nc" and "p \<in> set (split_clients_for_arity a nc)"
  shows "p < nc"
proof -
  obtain xs ys where s: "split_clients_for_arity a nc = xs @ p # ys"
    using assms(2) by (auto simp: in_set_conv_decomp)
  have P: "2 \<le> length (xs @ p # ys)" "sum_list (xs @ p # ys) = nc" "\<forall>q\<in>set (xs @ p # ys). 0 < q"
    using split_clients_proper[OF assms(1) s[symmetric]] by simp_all
  have "xs @ ys \<noteq> []"
    using P(1) by auto
  then obtain q where q: "q \<in> set (xs @ ys)"
    by (meson last_in_set)
  then have "0 < q" "q \<le> sum_list (xs @ ys)"
    using P(3) member_le_sum_list[OF q] by auto
  then show ?thesis
    using P(2) by simp
qed

text \<open>The simulation ends: each frame of \<open>nc\<close> clients stands for at most \<open>2 * nc - 1\<close> frames.\<close>

definition frame_weight :: "nat \<times> nat \<Rightarrow> nat" where
  "frame_weight fr = (if fst fr = 0 then 1 else 2 * fst fr - 1)"

lemma frame_weight_parts: "\<forall>p\<in>set ps. 0 < p \<Longrightarrow> sum_list (map frame_weight (map (\<lambda>p. (p, d)) ps)) + length ps = 2 * sum_list ps"
  by (induction ps) (auto simp: frame_weight_def)

lemma simulate_loop_returns: "sum_list (map frame_weight stack) < fuel \<Longrightarrow> \<exists>r. simulate_loop fuel f stack md lv = Some r"
proof (induction fuel f stack md lv rule: simulate_loop.induct)
  case (3 fuel f nc d stack md lv)
  let ?parts = "split_clients_for_arity (arity_at_depth f d) nc"
  let ?ps = "take (FACTORY_MAX_NODES - length stack) ?parts"
  have w: "1 \<le> frame_weight (nc, d)"
    by (cases nc) (auto simp: frame_weight_def)
  show ?case
  proof (cases "nc = 0 \<or> subtree_is_leaf f (arity_at_depth f d) nc")
    case True
    then show ?thesis
      using 3 w by (auto simp: Let_def)
  next
    case False
    have "sum_list (map frame_weight (map (\<lambda>p. (p, d + 1)) ?ps)) < frame_weight (nc, d)"
    proof (cases "?parts = []")
      case True
      then show ?thesis using w by simp
    next
      case ne: False
      note P = split_clients_proper[OF _ refl ne, of f]
      have nl: "\<not> subtree_is_leaf f (arity_at_depth f d) nc" using False by simp
      have "sum_list (map frame_weight (map (\<lambda>p. (p, d + 1)) ?ps)) \<le> sum_list (map frame_weight (map (\<lambda>p. (p, d + 1)) ?parts))"
        by (metis append_take_drop_id le_add1 map_append sum_list_append)
      also have "\<dots> + 2 \<le> 2 * nc"
        using frame_weight_parts[OF P(3)[OF nl], of "d + 1"] P(1,2)[OF nl] by simp
      finally show ?thesis
        using False by (simp add: frame_weight_def)
    qed
    then have "sum_list (map frame_weight (rev (map (\<lambda>p. (p, d + 1)) ?ps) @ stack)) < fuel"
      using 3(4) by (simp add: rev_map[symmetric] del: map_map)
    then show ?thesis
      using False 3(3) by (simp add: Let_def)
  qed
qed auto

lemma simulate_tree_returns: "simulate_loop (3 * n + 2) f [(n, 0)] 0 0 = Some (simulate_tree f n)"
  using simulate_loop_returns[of "[(n, 0)]" "3 * n + 2" f 0 0] by (auto simp: simulate_tree_def frame_weight_def)

end
