(* ===== verification/Factory_Tree.thy ===== *)
theory Factory_Tree
  imports Factory
begin

text \<open>
  Building the factory tree, \<^verbatim>\<open>src/factory.c\<close>: nodes with their keys, the outputs of the leaves, the recursive
  descent, and the unsigned transactions.
\<close>

section \<open>Nodes\<close>

definition taproot_tweak_pubkey :: "('pk, 'xo, 'ca) secp \<Rightarrow> 'xo \<Rightarrow> bytes option \<Rightarrow> ('xo \<times> bool) option" where
  "taproot_tweak_pubkey E internal_key merkle_root =
     (let internal_ser = xonly_serialize E internal_key;
          tweak = sha256_tagged (sha256 E) ''TapTweak''
                    (case merkle_root of Some r \<Rightarrow> internal_ser @ take 32 r | None \<Rightarrow> internal_ser)
      in case xonly_tweak_add E internal_key tweak of None \<Rightarrow> None
         | Some tweaked_full \<Rightarrow> xonly_from_pubkey E tweaked_full)"

definition build_musig_p2tr_spk ::
  "('pk, 'xo, 'ca) secp \<Rightarrow> 'pk list \<Rightarrow> bytes option \<Rightarrow> (bytes \<times> 'xo \<times> bool \<times> ('xo, 'ca) musig_keyagg) option" where
  "build_musig_p2tr_spk E pubkeys merkle_root =
     (case musig_aggregate_keys E pubkeys of None \<Rightarrow> None
      | Some ka \<Rightarrow> (case taproot_tweak_pubkey E (agg_pubkey ka) merkle_root of None \<Rightarrow> None
        | Some (tweaked, parity) \<Rightarrow> Some (build_p2tr_script_pubkey E tweaked, tweaked, parity, ka)))"

definition set_node ::
  "nat \<Rightarrow> (('xo, 'ca) factory_node \<Rightarrow> ('xo, 'ca) factory_node) \<Rightarrow> ('pk, 'xo, 'ca) factory \<Rightarrow> ('pk, 'xo, 'ca) factory" where
  "set_node i g f = f\<lparr>f_nodes := (f_nodes f)[i := g (f_nodes f ! i)]\<rparr>"

text \<open>The time-out leaf of a node, if it has a lock time.\<close>

definition node_timeout_leaf :: "('pk, 'xo, 'ca) secp \<Rightarrow> ('pk, 'xo, 'ca) factory \<Rightarrow> u32 \<Rightarrow> tapscript_leaf option option" where
  "node_timeout_leaf E f node_cltv =
     (if node_cltv > 0 then
        (case xonly_from_pubkey E (f_pubkeys f ! 0) of None \<Rightarrow> None
         | Some (lsp_xonly, _) \<Rightarrow> Some (Some (tapscript_build_cltv_timeout E node_cltv lsp_xonly)))
      else Some None)"

definition add_node ::
  "('pk, 'xo, 'ca) secp \<Rightarrow> (nat \<Rightarrow> bool) \<Rightarrow> ('pk, 'xo, 'ca) factory \<Rightarrow> factory_node_type \<Rightarrow> nat list \<Rightarrow> nat option
   \<Rightarrow> nat \<Rightarrow> int \<Rightarrow> u32 \<Rightarrow> (nat \<times> ('pk, 'xo, 'ca) factory) option" where
  "add_node E alloc f type signers parent vout layer node_cltv =
     (if length (f_nodes f) \<ge> max_nodes (f_config f) then None
      else case node_timeout_leaf E f node_cltv of None \<Rightarrow> None
      | Some leaf \<Rightarrow>
        (case build_musig_p2tr_spk E (map ((!) (f_pubkeys f)) signers)
                (case leaf of None \<Rightarrow> None | Some l \<Rightarrow> tapscript_merkle_root E [l]) of None \<Rightarrow> None
         | Some (spk, tweaked, parity, ka) \<Rightarrow>
            let idx = length (f_nodes f);
                node = \<lparr>nd_type = type, nd_signers = signers, nd_keyagg = ka, nd_tweaked = tweaked, nd_spk = spk,
                  nd_unsigned_tx = tx_buf_init alloc 256, nd_txid = replicate 32 0, nd_nsequence = 0, nd_built = False,
                  nd_signed = False, nd_outputs = [], nd_layer = layer, nd_parent = parent, nd_vout = vout, nd_children = [],
                  nd_input = 0, nd_cltv = node_cltv, nd_timeout_leaf = leaf, nd_parity = (leaf \<noteq> None \<and> parity), nd_ps_leaf = False,
                  nd_chain_len = 0, nd_prev_txid = replicate 32 0, nd_prev_chan_amount = 0, nd_prev_outputs = [],
                  nd_confirmed_height = 0, nd_subfactories = [], nd_static = False\<rparr>;
                f = f\<lparr>f_nodes := f_nodes f @ [node]\<rparr>;
                f = (case parent of None \<Rightarrow> f | Some p \<Rightarrow> set_node p (\<lambda>n. n\<lparr>nd_children := nd_children n @ [idx]\<rparr>) f)
            in Some (idx, f)))"

section \<open>Outputs of the leaves\<close>

definition build_l_stock_spk :: "('pk, 'xo, 'ca) secp \<Rightarrow> ('pk, 'xo, 'ca) factory \<Rightarrow> ('xo, 'ca) factory_node \<Rightarrow> bytes option" where
  "build_l_stock_spk E f leaf_node =
     (case xonly_from_pubkey E (f_pubkeys f ! 0) of None \<Rightarrow> None
      | Some (lsp_xonly, _) \<Rightarrow>
        let csv = (if f_l_stock_csv f > 0 then f_l_stock_csv f else L_STOCK_CSV_DEFAULT_BLOCKS);
            csv_leaf = tapscript_build_csv_delay E csv lsp_xonly
        in case tapscript_merkle_root E [csv_leaf] of None \<Rightarrow> None
           | Some merkle_root \<Rightarrow>
             (case tapscript_tweak_pubkey E (agg_pubkey (nd_keyagg leaf_node)) merkle_root of None \<Rightarrow> None
              | Some (tweaked, _) \<Rightarrow> Some (build_p2tr_script_pubkey E tweaked)))"

text \<open>The recovery leaf of the channel outputs; without it the outputs are key-path only.\<close>

definition chan_merkle_root :: "('pk, 'xo, 'ca) secp \<Rightarrow> ('pk, 'xo, 'ca) factory \<Rightarrow> bytes option" where
  "chan_merkle_root E f =
     (if f_cltv_timeout f > 0 then
        (case xonly_from_pubkey E (f_pubkeys f ! 0) of None \<Rightarrow> None
         | Some (lsp_xonly, _) \<Rightarrow> tapscript_merkle_root E [tapscript_build_cltv_timeout E (f_cltv_timeout f) lsp_xonly])
      else None)"

text \<open>The channel of a client: the aggregate of client and LSP, with the recovery leaf.\<close>

definition channel_spk :: "('pk, 'xo, 'ca) secp \<Rightarrow> ('pk, 'xo, 'ca) factory \<Rightarrow> nat \<Rightarrow> bytes option" where
  "channel_spk E f client =
     (case build_musig_p2tr_spk E [f_pubkeys f ! client, f_pubkeys f ! 0] (chan_merkle_root E f) of None \<Rightarrow> None
      | Some (spk, _) \<Rightarrow> Some spk)"

definition setup_leaf_outputs ::
  "('pk, 'xo, 'ca) secp \<Rightarrow> ('pk, 'xo, 'ca) factory \<Rightarrow> ('xo, 'ca) factory_node \<Rightarrow> nat \<Rightarrow> nat \<Rightarrow> u64 \<Rightarrow> ('xo, 'ca) factory_node option" where
  "setup_leaf_outputs E f node client_a client_b input_amount =
     (let output_total = input_amount - f_fee_per_tx f;
          per_output = output_total div 3;
          remainder = output_total - per_output * 3
      in if per_output < CHANNEL_DUST_LIMIT_SATS then None
         else case channel_spk E f client_a of None \<Rightarrow> None
         | Some a \<Rightarrow> (case channel_spk E f client_b of None \<Rightarrow> None
           | Some b \<Rightarrow> (case build_l_stock_spk E f node of None \<Rightarrow> None
             | Some l \<Rightarrow> Some (node\<lparr>nd_outputs :=
                 [\<lparr>amount_sats = per_output, script_pubkey = a\<rparr>, \<lparr>amount_sats = per_output, script_pubkey = b\<rparr>,
                  \<lparr>amount_sats = per_output + remainder, script_pubkey = l\<rparr>]\<rparr>))))"

definition setup_single_leaf_outputs ::
  "('pk, 'xo, 'ca) secp \<Rightarrow> ('pk, 'xo, 'ca) factory \<Rightarrow> ('xo, 'ca) factory_node \<Rightarrow> nat \<Rightarrow> u64 \<Rightarrow> ('xo, 'ca) factory_node option" where
  "setup_single_leaf_outputs E f node client input_amount =
     (let output_total = input_amount - f_fee_per_tx f;
          per_output = output_total div 2;
          remainder = output_total - per_output * 2
      in if per_output < CHANNEL_DUST_LIMIT_SATS then None
         else case channel_spk E f client of None \<Rightarrow> None
         | Some a \<Rightarrow> (case build_l_stock_spk E f node of None \<Rightarrow> None
           | Some l \<Rightarrow> Some (node\<lparr>nd_outputs :=
               [\<lparr>amount_sats = per_output, script_pubkey = a\<rparr>, \<lparr>amount_sats = per_output + remainder, script_pubkey = l\<rparr>]\<rparr>)))"

definition setup_ps_leaf_outputs ::
  "('pk, 'xo, 'ca) secp \<Rightarrow> ('pk, 'xo, 'ca) factory \<Rightarrow> ('xo, 'ca) factory_node \<Rightarrow> u64 \<Rightarrow> ('xo, 'ca) factory_node option" where
  "setup_ps_leaf_outputs E f node input_amount =
     (let output_total = (if input_amount > f_fee_per_tx f then input_amount - f_fee_per_tx f else 0);
          per_output = output_total div 2;
          remainder = output_total - per_output * 2
      in if per_output < CHANNEL_DUST_LIMIT_SATS then None
         else case build_l_stock_spk E f node of None \<Rightarrow> None
         | Some l \<Rightarrow> Some (node\<lparr>nd_outputs :=
               [\<lparr>amount_sats = per_output, script_pubkey = nd_spk node\<rparr>, \<lparr>amount_sats = per_output + remainder, script_pubkey = l\<rparr>],
             nd_ps_leaf := True, nd_chain_len := 0, nd_prev_txid := replicate 32 0, nd_prev_chan_amount := 0\<rparr>))"

definition setup_nway_leaf_outputs ::
  "('pk, 'xo, 'ca) secp \<Rightarrow> ('pk, 'xo, 'ca) factory \<Rightarrow> ('xo, 'ca) factory_node \<Rightarrow> nat list \<Rightarrow> u64 \<Rightarrow> ('xo, 'ca) factory_node option" where
  "setup_nway_leaf_outputs E f node clients input_amount =
     (let n_outputs = length clients + 1 in
      if n_outputs > max_outputs_per_node (f_config f) then None
      else if input_amount \<le> f_fee_per_tx f then None
      else let output_total = input_amount - f_fee_per_tx f;
               per_output = output_total div of_nat n_outputs;
               remainder = output_total - per_output * of_nat n_outputs
           in if per_output < CHANNEL_DUST_LIMIT_SATS then None
              else case those (map (channel_spk E f) clients) of None \<Rightarrow> None
              | Some spks \<Rightarrow> (case build_l_stock_spk E f node of None \<Rightarrow> None
                | Some l \<Rightarrow> Some (node\<lparr>nd_outputs := map (\<lambda>spk. \<lparr>amount_sats = per_output, script_pubkey = spk\<rparr>) spks
                    @ [\<lparr>amount_sats = per_output + remainder, script_pubkey = l\<rparr>]\<rparr>)))"

text \<open>A pseudo-Spilman leaf of sub-factories: a node for each of the sub-factories, in turn.\<close>

fun subfactory_loop ::
  "('pk, 'xo, 'ca) secp \<Rightarrow> (nat \<Rightarrow> bool) \<Rightarrow> nat \<Rightarrow> nat list \<Rightarrow> nat \<Rightarrow> u64 \<Rightarrow> nat list \<Rightarrow> ('pk, 'xo, 'ca) factory \<Rightarrow> ('pk, 'xo, 'ca) factory option" where
  "subfactory_loop E alloc leaf clients per_sub per_output [] f = Some f"
| "subfactory_loop E alloc leaf clients per_sub per_output (si # sis) f =
     (let start_client = si * per_sub in
      if start_client \<ge> length clients then None
      else let sub_clients = take per_sub (drop start_client clients) in
        case add_node E alloc f NODE_PS_SUBFACTORY (0 # sub_clients) (Some leaf) si (-1) 0 of None \<Rightarrow> None
        | Some (sub_idx, f) \<Rightarrow>
           let f = set_node leaf (\<lambda>n. n\<lparr>nd_subfactories := nd_subfactories n @ [sub_idx],
                 nd_outputs := nd_outputs n @ [\<lparr>amount_sats = per_output, script_pubkey = nd_spk (f_nodes f ! sub_idx)\<rparr>]\<rparr>) f
           in case setup_nway_leaf_outputs E f (f_nodes f ! sub_idx) sub_clients per_output of None \<Rightarrow> None
              | Some sub \<Rightarrow> subfactory_loop E alloc leaf clients per_sub per_output sis
                  (set_node sub_idx (\<lambda>_. sub\<lparr>nd_input := per_output, nd_ps_leaf := True, nd_chain_len := 0\<rparr>) f))"

definition setup_ps_leaf_with_subfactories ::
  "('pk, 'xo, 'ca) secp \<Rightarrow> (nat \<Rightarrow> bool) \<Rightarrow> ('pk, 'xo, 'ca) factory \<Rightarrow> nat \<Rightarrow> nat list \<Rightarrow> u64 \<Rightarrow> ('pk, 'xo, 'ca) factory option" where
  "setup_ps_leaf_with_subfactories E alloc f leaf clients input_amount =
     (let k = f_ps_k f; n = length clients; per_sub = (n + k - 1) div k; per_sub = (if per_sub > k then k else per_sub) in
      if k \<le> 1 \<or> n = 0 \<or> n > k * k \<or> per_sub = 0 then None
      else let n_outputs = k + 1 in
        if n_outputs > max_outputs_per_node (f_config f) then None
        else if input_amount \<le> f_fee_per_tx f then None
        else let output_total = input_amount - f_fee_per_tx f;
                 per_output = output_total div of_nat n_outputs;
                 remainder = output_total - per_output * of_nat n_outputs
             in if per_output < CHANNEL_DUST_LIMIT_SATS then None
                else let f = set_node leaf (\<lambda>n. n\<lparr>nd_ps_leaf := True, nd_chain_len := 0, nd_prev_txid := replicate 32 0,
                           nd_prev_chan_amount := 0\<rparr>) f
                in case subfactory_loop E alloc leaf clients per_sub per_output [0..<k] f of None \<Rightarrow> None
                   | Some f \<Rightarrow> (case build_l_stock_spk E f (f_nodes f ! leaf) of None \<Rightarrow> None
                     | Some l \<Rightarrow> Some (set_node leaf
                         (\<lambda>n. n\<lparr>nd_outputs := nd_outputs n @ [\<lparr>amount_sats = per_output + remainder, script_pubkey = l\<rparr>]\<rparr>) f)))"

text \<open>The choice between the kinds of leaf.\<close>

definition setup_leaf ::
  "('pk, 'xo, 'ca) secp \<Rightarrow> (nat \<Rightarrow> bool) \<Rightarrow> ('pk, 'xo, 'ca) factory \<Rightarrow> nat \<Rightarrow> nat \<Rightarrow> nat list \<Rightarrow> u64 \<Rightarrow> ('pk, 'xo, 'ca) factory option" where
  "setup_leaf E alloc f st arity clients amount =
     (if arity = FACTORY_ARITY_PS \<and> f_ps_k f > 1 then setup_ps_leaf_with_subfactories E alloc f st clients amount
      else map_option (\<lambda>n. set_node st (\<lambda>_. n) f)
        (if arity = FACTORY_ARITY_PS then setup_ps_leaf_outputs E f (f_nodes f ! st) amount
         else if length clients = 1 then setup_single_leaf_outputs E f (f_nodes f ! st) (clients ! 0) amount
         else if arity = 2 \<and> length clients = 2 then setup_leaf_outputs E f (f_nodes f ! st) (clients ! 0) (clients ! 1) amount
         else setup_nway_leaf_outputs E f (f_nodes f ! st) clients amount))"

section \<open>The recursive descent\<close>

definition node_cltvs :: "('pk, 'xo, 'ca) factory \<Rightarrow> nat \<Rightarrow> u32 \<times> u32" where
  "node_cltvs f depth =
     (let cltv = f_cltv_timeout f in
      if depth = 0 then (0, cltv)
      else let ko_offset = of_nat (2 * depth - 1) * TIMEOUT_STEP_BLOCKS;
               st_offset = of_nat (2 * depth) * TIMEOUT_STEP_BLOCKS
           in (if cltv > ko_offset then cltv - ko_offset else 0, if cltv > st_offset then cltv - st_offset else 0))"

definition dw_layer_at :: "('pk, 'xo, 'ca) factory \<Rightarrow> nat \<Rightarrow> int" where
  "dw_layer_at f depth =
     (let l = int depth - int (f_static_depth f);
          l = (if l < 0 then -1 else l)
      in if l \<ge> int (n_layers (f_counter f)) then int (n_layers (f_counter f)) - 1 else l)"

text \<open>The loop over the children: each gets its share of the clients and of the budget; empty shares are skipped.
  The result has the index of the first node of each child.\<close>

fun build_children ::
  "(('pk, 'xo, 'ca) factory \<Rightarrow> nat list \<Rightarrow> nat option \<Rightarrow> nat \<Rightarrow> nat \<Rightarrow> u64 \<Rightarrow> nat \<Rightarrow> (('pk, 'xo, 'ca) factory \<times> nat) option)
   \<Rightarrow> nat \<Rightarrow> nat \<Rightarrow> (nat \<Rightarrow> u64) \<Rightarrow> nat list \<Rightarrow> nat \<Rightarrow> nat list \<Rightarrow> ('pk, 'xo, 'ca) factory \<Rightarrow> nat
   \<Rightarrow> (('pk, 'xo, 'ca) factory \<times> nat list \<times> nat) option" where
  "build_children rec idx depth budget [] n_built clients f lc = Some (f, [], lc)"
| "build_children rec idx depth budget (p # ps) n_built clients f lc =
     (if p = 0 then build_children rec idx depth budget ps n_built clients f lc
      else case rec f (take p clients) (Some idx) n_built (depth + 1) (budget n_built) lc of None \<Rightarrow> None
      | Some (f', lc') \<Rightarrow>
         (case build_children rec idx depth budget ps (n_built + 1) (drop p clients) f' lc' of None \<Rightarrow> None
          | Some (f'', kos, lc'') \<Rightarrow> Some (f'', length (f_nodes f) # kos, lc'')))"

definition child_budget :: "u64 \<Rightarrow> nat \<Rightarrow> nat \<Rightarrow> u64" where
  "child_budget budget_total n k =
     (let per_child_budget = budget_total div of_nat n; budget_remainder = budget_total - per_child_budget * of_nat n
      in if k = n - 1 then per_child_budget + budget_remainder else per_child_budget)"

definition fan_out ::
  "(('pk, 'xo, 'ca) factory \<Rightarrow> nat list \<Rightarrow> nat option \<Rightarrow> nat \<Rightarrow> nat \<Rightarrow> u64 \<Rightarrow> nat \<Rightarrow> (('pk, 'xo, 'ca) factory \<times> nat) option)
   \<Rightarrow> nat \<Rightarrow> nat list \<Rightarrow> nat list \<Rightarrow> nat \<Rightarrow> u64 \<Rightarrow> ('pk, 'xo, 'ca) factory \<Rightarrow> nat \<Rightarrow> (('pk, 'xo, 'ca) factory \<times> nat) option" where
  "fan_out rec idx parts clients depth budget_total f lc =
     (let n_actual = length (filter (\<lambda>p. p > 0) parts) in
      if n_actual = 0 then None
      else case build_children rec idx depth (child_budget budget_total n_actual) parts 0 clients f lc of None \<Rightarrow> None
      | Some (f, kos, lc) \<Rightarrow>
         Some (set_node idx (\<lambda>n. n\<lparr>nd_outputs :=
           map (\<lambda>k. \<lparr>amount_sats = child_budget budget_total n_actual k, script_pubkey = nd_spk (f_nodes f ! (kos ! k))\<rparr>) [0..<n_actual]\<rparr>) f, lc))"

text \<open>The fuel bounds the depth; the number of clients falls with every level.\<close>

fun build_subtree ::
  "nat \<Rightarrow> ('pk, 'xo, 'ca) secp \<Rightarrow> (nat \<Rightarrow> bool) \<Rightarrow> ('pk, 'xo, 'ca) factory \<Rightarrow> nat list \<Rightarrow> nat option \<Rightarrow> nat \<Rightarrow> nat \<Rightarrow> u64 \<Rightarrow> nat
   \<Rightarrow> (('pk, 'xo, 'ca) factory \<times> nat) option" where
  "build_subtree 0 E alloc f clients parent vout depth input_amount lc = None"
| "build_subtree (Suc fuel) E alloc f clients parent vout depth input_amount lc =
     (if clients = [] then None
      else let signers = 0 # clients;
               cltvs = node_cltvs f depth;
               cur_arity = arity_at_depth f depth;
               is_leaf = subtree_is_leaf f cur_arity (length clients);
               parts = split_clients_for_arity cur_arity (length clients);
               fee = f_fee_per_tx f
        in if depth < f_static_depth f \<and> \<not> is_leaf then
             if length parts < 2 \<or> length parts > max_outputs_per_node (f_config f) then None
             else case add_node E alloc f NODE_KICKOFF signers parent vout (-1) (fst cltvs) of None \<Rightarrow> None
             | Some (ko, f) \<Rightarrow>
                if input_amount \<le> fee then None
                else fan_out (build_subtree fuel E alloc) ko parts clients depth (input_amount - fee)
                       (set_node ko (\<lambda>n. n\<lparr>nd_static := True, nd_input := input_amount\<rparr>) f) lc
           else case add_node E alloc f NODE_KICKOFF signers parent vout (-1) (fst cltvs) of None \<Rightarrow> None
             | Some (ko, f) \<Rightarrow>
               (case add_node E alloc f NODE_STATE signers (Some ko) 0 (dw_layer_at f depth) (snd cltvs) of None \<Rightarrow> None
                | Some (st, f) \<Rightarrow>
                   if input_amount \<le> fee then None
                   else let ko_out_amount = input_amount - fee;
                            f = set_node ko (\<lambda>n. n\<lparr>nd_outputs := [\<lparr>amount_sats = ko_out_amount, script_pubkey = nd_spk (f_nodes f ! st)\<rparr>],
                                  nd_input := input_amount\<rparr>) f;
                            f = set_node st (\<lambda>n. n\<lparr>nd_input := ko_out_amount\<rparr>) f
                     in if is_leaf then
                          (case setup_leaf E alloc f st cur_arity clients ko_out_amount of None \<Rightarrow> None
                           | Some f \<Rightarrow> if lc \<ge> FACTORY_MAX_LEAVES then None
                               else Some (f\<lparr>f_leaf_nodes := (f_leaf_nodes f)[lc := st]\<rparr>, lc + 1))
                        else if length parts < 2 \<or> length parts > max_outputs_per_node (f_config f) then None
                        else if ko_out_amount \<le> fee then None
                        else fan_out (build_subtree fuel E alloc) st parts clients depth (ko_out_amount - fee) f lc))"

section \<open>Transactions\<close>

text \<open>The relative lock of a node; \<open>None\<close> where the code would read outside the array of layers.\<close>

definition node_nsequence :: "('pk, 'xo, 'ca) factory \<Rightarrow> nat \<Rightarrow> u32 option" where
  "node_nsequence f i =
     (let node = f_nodes f ! i in
      if nd_static node then Some 0xFFFFFFFE
      else if nd_type node = NODE_KICKOFF then Some NSEQUENCE_DISABLE_BIP68
      else if nd_ps_leaf node then Some 0xFFFFFFFE
      else case (if f_per_leaf f then find (\<lambda>j. f_leaf_nodes f ! j = i) [0..<f_n_leaf_nodes f] else None) of
        Some j \<Rightarrow> Some (dw_current_nsequence (f_leaf_layers f ! j))
      | None \<Rightarrow> if 0 \<le> nd_layer node \<and> nat (nd_layer node) < length (layers (f_counter f))
                 then Some (dw_current_nsequence (layers (f_counter f) ! nat (nd_layer node))) else None)"

text \<open>The outpoint a node spends.\<close>

definition node_outpoint :: "('pk, 'xo, 'ca) factory \<Rightarrow> ('xo, 'ca) factory_node \<Rightarrow> bytes \<times> u32" where
  "node_outpoint f node =
     (case nd_parent node of None \<Rightarrow> (f_funding_txid f, f_funding_vout f)
      | Some p \<Rightarrow> (nd_txid (f_nodes f ! p), of_nat (nd_vout node)))"

definition build_node_tx ::
  "('pk, 'xo, 'ca) secp \<Rightarrow> (nat \<Rightarrow> bool) \<Rightarrow> nat \<Rightarrow> ('pk, 'xo, 'ca) factory \<Rightarrow> bool \<times> ('pk, 'xo, 'ca) factory" where
  "build_node_tx E alloc i f =
     (let node = f_nodes f ! i in
      case node_nsequence f i of None \<Rightarrow> (False, f)
      | Some nseq \<Rightarrow>
         (case build_unsigned_tx alloc (sha256 E) (nd_unsigned_tx node) True (fst (node_outpoint f node)) (snd (node_outpoint f node))
                 nseq (nd_outputs node) of
            (ok, buf, display_txid) \<Rightarrow>
              let f = set_node i (\<lambda>n. n\<lparr>nd_nsequence := nseq, nd_unsigned_tx := buf\<rparr>) f
              in case display_txid of
                   Some t \<Rightarrow> if ok then (True, set_node i (\<lambda>n. n\<lparr>nd_txid := reverse_bytes t, nd_built := True, nd_signed := False\<rparr>) f)
                             else (False, f)
                 | None \<Rightarrow> (False, f)))"

fun build_txs :: "('pk, 'xo, 'ca) secp \<Rightarrow> (nat \<Rightarrow> bool) \<Rightarrow> nat list \<Rightarrow> ('pk, 'xo, 'ca) factory \<Rightarrow> bool \<times> ('pk, 'xo, 'ca) factory" where
  "build_txs E alloc [] f = (True, f)"
| "build_txs E alloc (i # js) f = (case build_node_tx E alloc i f of (ok, f') \<Rightarrow> if ok then build_txs E alloc js f' else (False, f'))"

definition build_all_unsigned_txs :: "('pk, 'xo, 'ca) secp \<Rightarrow> (nat \<Rightarrow> bool) \<Rightarrow> ('pk, 'xo, 'ca) factory \<Rightarrow> bool \<times> ('pk, 'xo, 'ca) factory" where
  "build_all_unsigned_txs E alloc f = build_txs E alloc [0..<length (f_nodes f)] f"

section \<open>Building\<close>

definition factory_build_tree ::
  "('pk, 'xo, 'ca) secp \<Rightarrow> (nat \<Rightarrow> bool) \<Rightarrow> (nat list \<Rightarrow> nat list) \<Rightarrow> ('pk, 'xo, 'ca) factory \<Rightarrow> ('pk, 'xo, 'ca) factory option" where
  "factory_build_tree E alloc order f =
     (let n_clients = f_participants f - 1 in
      if f_participants f < 2 \<or> f_participants f > max_signers (f_config f) then None
      else if f_leaf_arity f = FACTORY_ARITY_2 \<and> n_clients < 2 then None
      else let f = (if f_fee f \<noteq> None then f\<lparr>f_fee_per_tx := fee_for_factory_tx (f_fee f) 3\<rparr> else f);
               metrics = tree_metrics f n_clients; tree_depth = fst metrics; n_leaves = snd metrics;
               n_dw_layers = dw_n_layers_for tree_depth (f_static_depth f);
               total_nodes_ub = 2 * (2 * n_leaves - 1)
        in if total_nodes_ub > max_nodes (f_config f) \<or> n_leaves > max_leaves (f_config f) \<or> n_dw_layers > DW_MAX_LAYERS then None
           else let f = init_leaf_layers n_leaves (f\<lparr>f_counter := dw_counter_init n_dw_layers (f_step_blocks f) (f_states_per_layer f)\<rparr>);
                    min_funding = of_nat total_nodes_ub * f_fee_per_tx f + of_nat n_leaves * 1092
                in if f_funding_amount f < min_funding then None
                   else let clients = [1..<n_clients + 1];
                            clients = (if f_placement f \<noteq> PLACEMENT_SEQUENTIAL \<and> n_clients > 1 then order clients else clients)
                        in case build_subtree n_clients E alloc (f\<lparr>f_nodes := []\<rparr>) clients None 0 0 (f_funding_amount f) 0 of
                             None \<Rightarrow> None
                           | Some (f, lc) \<Rightarrow> (case build_all_unsigned_txs E alloc f of (ok, f) \<Rightarrow> if ok then Some f else None))"

end
