(* ===== verification/Factory_Struct.thy ===== *)
theory Factory_Struct
  imports Factory_Tree
begin

text \<open>
  What the recursive builder of the factory leaves behind: every transaction spends an output of its parent
  that pays its own key, the amounts add up, and the leaves hold the clients in order.
\<close>

section \<open>Growing the list of nodes\<close>

text \<open>A node up to its links to children, which later nodes still extend.\<close>

definition unlinked :: "('xo, 'ca) factory_node \<Rightarrow> ('xo, 'ca) factory_node" where
  "unlinked n = n\<lparr>nd_children := []\<rparr>"

lemma unlinked_fields:
  assumes "unlinked m = unlinked n"
  shows "nd_type m = nd_type n" "nd_signers m = nd_signers n" "nd_keyagg m = nd_keyagg n" "nd_tweaked m = nd_tweaked n"
    "nd_spk m = nd_spk n" "nd_outputs m = nd_outputs n" "nd_layer m = nd_layer n" "nd_parent m = nd_parent n" "nd_vout m = nd_vout n"
    "nd_input m = nd_input n" "nd_timeout_leaf m = nd_timeout_leaf n" "nd_parity m = nd_parity n" "nd_ps_leaf m = nd_ps_leaf n"
    "nd_static m = nd_static n" "nd_unsigned_tx m = nd_unsigned_tx n" "nd_cltv m = nd_cltv n" "nd_subfactories m = nd_subfactories n"
    "nd_txid m = nd_txid n"
  using arg_cong[OF assms, of nd_type] arg_cong[OF assms, of nd_signers] arg_cong[OF assms, of nd_keyagg] arg_cong[OF assms, of nd_tweaked]
    arg_cong[OF assms, of nd_spk] arg_cong[OF assms, of nd_outputs] arg_cong[OF assms, of nd_layer] arg_cong[OF assms, of nd_parent]
    arg_cong[OF assms, of nd_vout] arg_cong[OF assms, of nd_input] arg_cong[OF assms, of nd_timeout_leaf] arg_cong[OF assms, of nd_parity]
    arg_cong[OF assms, of nd_ps_leaf] arg_cong[OF assms, of nd_static] arg_cong[OF assms, of nd_unsigned_tx] arg_cong[OF assms, of nd_cltv]
    arg_cong[OF assms, of nd_subfactories] arg_cong[OF assms, of nd_txid]
  by (simp_all add: unlinked_def)

definition settings :: "('pk, 'xo, 'ca) factory \<Rightarrow> ('pk, 'xo, 'ca) factory" where
  "settings f = f\<lparr>f_nodes := [], f_leaf_nodes := []\<rparr>"

lemma settings_fields:
  assumes "settings g = settings f"
  shows "f_pubkeys g = f_pubkeys f" "f_fee_per_tx g = f_fee_per_tx f" "f_config g = f_config f" "f_cltv_timeout g = f_cltv_timeout f"
    "f_l_stock_csv g = f_l_stock_csv f" "f_leaf_arity g = f_leaf_arity f" "f_level_arity g = f_level_arity f" "f_ps_k g = f_ps_k f"
    "f_static_depth g = f_static_depth f" "f_counter g = f_counter f" "f_participants g = f_participants f"
    "f_funding_txid g = f_funding_txid f" "f_funding_vout g = f_funding_vout f" "f_funding_amount g = f_funding_amount f"
    "f_per_leaf g = f_per_leaf f" "f_n_leaf_nodes g = f_n_leaf_nodes f" "f_leaf_layers g = f_leaf_layers f"
    "f_step_blocks g = f_step_blocks f" "f_states_per_layer g = f_states_per_layer f" "f_shachain g = f_shachain f"
  using arg_cong[OF assms, of f_pubkeys] arg_cong[OF assms, of f_fee_per_tx] arg_cong[OF assms, of f_config]
    arg_cong[OF assms, of f_cltv_timeout] arg_cong[OF assms, of f_l_stock_csv] arg_cong[OF assms, of f_leaf_arity]
    arg_cong[OF assms, of f_level_arity] arg_cong[OF assms, of f_ps_k] arg_cong[OF assms, of f_static_depth]
    arg_cong[OF assms, of f_counter] arg_cong[OF assms, of f_participants] arg_cong[OF assms, of f_funding_txid]
    arg_cong[OF assms, of f_funding_vout] arg_cong[OF assms, of f_funding_amount] arg_cong[OF assms, of f_per_leaf]
    arg_cong[OF assms, of f_n_leaf_nodes] arg_cong[OF assms, of f_leaf_layers] arg_cong[OF assms, of f_step_blocks]
    arg_cong[OF assms, of f_states_per_layer] arg_cong[OF assms, of f_shachain]
  by (simp_all add: settings_def)

text \<open>What depends on the settings alone.\<close>

lemma settings_cong:
  assumes "settings g = settings f"
  shows "node_timeout_leaf E g c = node_timeout_leaf E f c" "chan_merkle_root E g = chan_merkle_root E f"
    "channel_spk E g x = channel_spk E f x" "build_l_stock_spk E g n = build_l_stock_spk E f n"
    "arity_at_depth g d = arity_at_depth f d" "ps_leaf_capacity g = ps_leaf_capacity f" "subtree_is_leaf g a k = subtree_is_leaf f a k"
    "node_cltvs g d = node_cltvs f d" "dw_layer_at g d = dw_layer_at f d"
  unfolding node_timeout_leaf_def channel_spk_def chan_merkle_root_def build_l_stock_spk_def arity_at_depth_def
    subtree_is_leaf_def ps_leaf_capacity_def node_cltvs_def dw_layer_at_def settings_fields[OF assms]
  by (rule refl)+

definition grows :: "('pk, 'xo, 'ca) factory \<Rightarrow> ('pk, 'xo, 'ca) factory \<Rightarrow> bool" where
  "grows f g \<longleftrightarrow> settings g = settings f \<and> length (f_leaf_nodes g) = length (f_leaf_nodes f) \<and> length (f_nodes f) \<le> length (f_nodes g)
     \<and> (\<forall>i<length (f_nodes f). unlinked (f_nodes g ! i) = unlinked (f_nodes f ! i))"

lemma grows_refl [simp]: "grows f f"
  by (simp add: grows_def)

lemma grows_trans: "grows f g \<Longrightarrow> grows g h \<Longrightarrow> grows f h"
  by (auto simp: grows_def)

lemma set_node_simps [simp]:
  "length (f_nodes (set_node i u f)) = length (f_nodes f)" "settings (set_node i u f) = settings f"
  "f_leaf_nodes (set_node i u f) = f_leaf_nodes f"
  by (simp_all add: set_node_def settings_def)

lemma set_node_nth [simp]:
  "f_nodes (set_node i u f) ! j = (if i = j \<and> j < length (f_nodes f) then u (f_nodes f ! j) else f_nodes f ! j)"
proof (cases "j < length (f_nodes f)")
  case False
  then have "(f_nodes f)[i := u (f_nodes f ! i)] ! j = f_nodes f ! j"
    by (cases "i = j") (simp_all add: list_update_beyond)
  with False show ?thesis by (simp add: set_node_def)
qed (simp add: set_node_def nth_list_update)

lemma grows_set_node_new: "length (f_nodes f) \<le> i \<Longrightarrow> grows f g \<Longrightarrow> grows f (set_node i u g)"
  by (auto simp: grows_def)

lemma grows_nth: "grows f g \<Longrightarrow> i < length (f_nodes f) \<Longrightarrow> unlinked (f_nodes g ! i) = unlinked (f_nodes f ! i)"
  by (simp add: grows_def)

lemma growsD: "grows f g \<Longrightarrow> settings g = settings f" "grows f g \<Longrightarrow> length (f_nodes f) \<le> length (f_nodes g)"
  by (simp_all add: grows_def)

section \<open>What holds of every node\<close>

text \<open>The key of a node: the aggregate of its signers' keys, tweaked with its time-out leaf if it has one.\<close>

definition node_keyed :: "('pk, 'xo, 'ca) secp \<Rightarrow> ('pk, 'xo, 'ca) factory \<Rightarrow> ('xo, 'ca) factory_node \<Rightarrow> bool" where
  "node_keyed E f n \<longleftrightarrow>
     (\<exists>parity. build_musig_p2tr_spk E (map ((!) (f_pubkeys f)) (nd_signers n))
         (case nd_timeout_leaf n of None \<Rightarrow> None | Some l \<Rightarrow> tapscript_merkle_root E [l])
       = Some (nd_spk n, nd_tweaked n, parity, nd_keyagg n) \<and> nd_parity n = (nd_timeout_leaf n \<noteq> None \<and> parity))
     \<and> node_timeout_leaf E f (nd_cltv n) = Some (nd_timeout_leaf n) \<and> hd (nd_signers n) = 0"

text \<open>What a transaction takes in, it pays out, but for the fee; the subtraction is that of the code, which checks the
  amount of all but the leaves first.\<close>

definition paid :: "tx_output list \<Rightarrow> nat" where
  "paid outs = sum_list (map (\<lambda>out. unat (amount_sats out)) outs)"

lemma paid_simps [simp]:
  "paid [] = 0" "paid (x # xs) = unat (amount_sats x) + paid xs" "paid (xs @ ys) = paid xs + paid ys"
  by (simp_all add: paid_def)

lemma paid_const: "(\<And>x. x \<in> set xs \<Longrightarrow> amount_sats (g x) = c) \<Longrightarrow> paid (map g xs) = length xs * unat c"
  by (induction xs) auto

text \<open>The limits of a configuration are 32-bit numbers.\<close>

definition small_config :: "('pk, 'xo, 'ca) factory \<Rightarrow> bool" where
  "small_config f \<longleftrightarrow> max_outputs_per_node (f_config f) < 2 ^ 32"

lemma small_config_cong: "settings g = settings f \<Longrightarrow> small_config g = small_config f"
  by (simp add: small_config_def settings_fields(3)[of g f])

text \<open>Shares of an amount, the last with the remainder, add up to it.\<close>

lemma even_split:
  fixes t :: u64
  assumes "n < 2 ^ 64"
  shows "n * unat (t div of_nat (Suc n)) + unat (t div of_nat (Suc n) + (t - t div of_nat (Suc n) * of_nat (Suc n))) = unat t"
proof (cases "Suc n = 2 ^ 64")
  case True
  then show ?thesis by (simp add: word_div_def)
next
  case False
  have n: "unat (of_nat (Suc n) :: u64) = Suc n"
    using assms False by (simp add: unat_of_nat del: of_nat_Suc)
  have per: "unat (t div of_nat (Suc n)) = unat t div Suc n"
    by (simp add: unat_div n del: of_nat_Suc)
  have m: "t - t div of_nat (Suc n) * of_nat (Suc n) = t mod of_nat (Suc n)"
    by (simp add: minus_div_mult_eq_mod del: of_nat_Suc)
  have "unat (t mod of_nat (Suc n)) = unat t mod Suc n"
    by (simp add: unat_mod n del: of_nat_Suc)
  moreover have "unat t div Suc n + unat t mod Suc n \<le> unat t"
    using div_mult_mod_eq[of "unat t" "Suc n"] by (metis add_le_mono1 le_add1 mult_Suc_right)
  then have "unat t div Suc n + unat t mod Suc n < 2 ^ 64"
    using unsigned_less[of t, where 'a = nat] by simp
  ultimately have "unat (t div of_nat (Suc n) + (t - t div of_nat (Suc n) * of_nat (Suc n))) = unat t div Suc n + unat t mod Suc n"
    using per by (simp add: m unat_add_lem[THEN iffD1] del: of_nat_Suc)
  then show ?thesis
    using per div_mult_mod_eq[of "unat t" "Suc n"] by (simp add: algebra_simps del: of_nat_Suc)
qed

definition node_balanced :: "u64 \<Rightarrow> ('xo, 'ca) factory_node \<Rightarrow> bool" where
  "node_balanced fee n \<longleftrightarrow> paid (nd_outputs n) = unat (nd_input n - fee) \<and> (nd_type n \<noteq> NODE_STATE \<longrightarrow> fee < nd_input n)"

text \<open>A node below another spends the output of it that carries its amount and pays its key.\<close>

definition node_linked :: "('pk, 'xo, 'ca) factory \<Rightarrow> nat \<Rightarrow> nat \<Rightarrow> bool" where
  "node_linked f b i \<longleftrightarrow>
     (case nd_parent (f_nodes f ! i) of None \<Rightarrow> False
      | Some p \<Rightarrow> b \<le> p \<and> p < i \<and> nd_vout (f_nodes f ! i) < length (nd_outputs (f_nodes f ! p))
          \<and> nd_outputs (f_nodes f ! p) ! nd_vout (f_nodes f ! i)
            = \<lparr>amount_sats = nd_input (f_nodes f ! i), script_pubkey = nd_spk (f_nodes f ! i)\<rparr>)"

text \<open>State nodes have the layer of some depth; sub-factories are chains.\<close>

definition node_layered :: "('pk, 'xo, 'ca) factory \<Rightarrow> ('xo, 'ca) factory_node \<Rightarrow> bool" where
  "node_layered f n \<longleftrightarrow> nd_type n = NODE_KICKOFF \<or> nd_type n = NODE_PS_SUBFACTORY \<and> nd_ps_leaf n
     \<or> nd_type n = NODE_STATE \<and> (\<exists>d. nd_layer n = dw_layer_at f d)"

definition node_good :: "('pk, 'xo, 'ca) secp \<Rightarrow> ('pk, 'xo, 'ca) factory \<Rightarrow> nat \<Rightarrow> bool" where
  "node_good E f i \<longleftrightarrow> node_keyed E f (f_nodes f ! i) \<and> node_balanced (f_fee_per_tx f) (f_nodes f ! i) \<and> node_layered f (f_nodes f ! i)"

lemma node_keyed_cong:
  assumes "unlinked m = unlinked n" and "settings g = settings f"
  shows "node_keyed E g m = node_keyed E f n"
  by (simp add: node_keyed_def unlinked_fields[OF assms(1)] settings_fields[OF assms(2)] settings_cong[OF assms(2)])

lemma node_keyed_set_node [simp]: "node_keyed E (set_node i u f) n = node_keyed E f n"
  by (simp add: node_keyed_cong[OF refl set_node_simps(2)])

lemma node_keyed_update [simp]:
  "node_keyed E f (n\<lparr>nd_input := x\<rparr>) = node_keyed E f n" "node_keyed E f (n\<lparr>nd_static := b\<rparr>) = node_keyed E f n"
  "node_keyed E f (n\<lparr>nd_outputs := os\<rparr>) = node_keyed E f n"
  by (simp_all add: node_keyed_def)

lemma node_layered_cong:
  assumes "unlinked m = unlinked n" and "settings g = settings f"
  shows "node_layered g m = node_layered f n"
  by (simp add: node_layered_def unlinked_fields[OF assms(1)] settings_cong[OF assms(2)])

lemma node_balanced_cong: "unlinked m = unlinked n \<Longrightarrow> node_balanced fee m = node_balanced fee n"
  by (simp add: node_balanced_def unlinked_fields[of m n])

lemma grows_node_good:
  assumes "grows f g" and "i < length (f_nodes f)"
  shows "node_good E g i = node_good E f i"
  by (simp add: node_good_def node_keyed_cong[OF grows_nth[OF assms] growsD(1)[OF assms(1)]]
      node_balanced_cong[OF grows_nth[OF assms]] node_layered_cong[OF grows_nth[OF assms] growsD(1)[OF assms(1)]]
      settings_fields[OF growsD(1)[OF assms(1)]])

lemma grows_node_linked:
  assumes "grows f g" and "i < length (f_nodes f)" and "node_linked f b i"
  shows "node_linked g b i"
proof -
  obtain p where p: "nd_parent (f_nodes f ! i) = Some p" "p < i"
    using assms(3) by (auto simp: node_linked_def split: option.splits)
  have "p < length (f_nodes f)"
    using p assms(2) by simp
  show ?thesis
    using assms(3) p by (simp add: node_linked_def unlinked_fields[OF grows_nth[OF assms(1,2)]]
        unlinked_fields[OF grows_nth[OF assms(1) \<open>p < length (f_nodes f)\<close>]])
qed

section \<open>Adding a node\<close>

lemma add_node_cases:
  assumes "add_node E alloc f type signers parent vout layer c = Some (idx, g)"
  obtains n where "idx = length (f_nodes f)"
    and "g = (case parent of None \<Rightarrow> f\<lparr>f_nodes := f_nodes f @ [n]\<rparr>
              | Some p \<Rightarrow> set_node p (\<lambda>n. n\<lparr>nd_children := nd_children n @ [idx]\<rparr>) (f\<lparr>f_nodes := f_nodes f @ [n]\<rparr>))"
    and "nd_parent n = parent" and "nd_vout n = vout" and "nd_signers n = signers" and "nd_type n = type" and "nd_layer n = layer"
    and "nd_outputs n = []" and "\<not> nd_ps_leaf n" and "\<not> nd_static n" and "hd signers = 0 \<Longrightarrow> node_keyed E f n"
proof -
  obtain leaf spk tweaked parity ka where leaf: "node_timeout_leaf E f c = Some leaf"
    and spk: "build_musig_p2tr_spk E (map ((!) (f_pubkeys f)) signers) (case leaf of None \<Rightarrow> None | Some l \<Rightarrow> tapscript_merkle_root E [l])
      = Some (spk, tweaked, parity, ka)"
    using assms by (auto simp: add_node_def split: if_split_asm option.split_asm)
  show thesis
    by (rule that[where n = "\<lparr>nd_type = type, nd_signers = signers, nd_keyagg = ka, nd_tweaked = tweaked, nd_spk = spk,
          nd_unsigned_tx = tx_buf_init alloc 256, nd_txid = replicate 32 0, nd_nsequence = 0, nd_built = False,
          nd_signed = False, nd_outputs = [], nd_layer = layer, nd_parent = parent, nd_vout = vout, nd_children = [],
          nd_input = 0, nd_cltv = c, nd_timeout_leaf = leaf, nd_parity = (leaf \<noteq> None \<and> parity), nd_ps_leaf = False,
          nd_chain_len = 0, nd_prev_txid = replicate 32 0, nd_prev_chan_amount = 0, nd_prev_outputs = [],
          nd_confirmed_height = 0, nd_subfactories = [], nd_static = False\<rparr>"])
      (use assms leaf spk in \<open>simp_all add: add_node_def node_keyed_def Let_def split: if_split_asm option.split_asm\<close>)
qed

lemma grows_append_node: "grows f (f\<lparr>f_nodes := f_nodes f @ [n]\<rparr>)"
  by (simp add: grows_def nth_append settings_def)

lemma grows_link: "grows f g \<Longrightarrow> grows f (set_node p (\<lambda>n. n\<lparr>nd_children := c n\<rparr>) g)"
  by (auto simp: grows_def unlinked_def)

lemma add_node_Some:
  assumes "add_node E alloc f type signers parent vout layer c = Some (idx, g)" and "\<And>p. parent = Some p \<Longrightarrow> p < length (f_nodes f)"
  shows "idx = length (f_nodes f)" "grows f g" "length (f_nodes g) = Suc (length (f_nodes f))" "f_leaf_nodes g = f_leaf_nodes f"
    "nd_parent (f_nodes g ! idx) = parent" "nd_vout (f_nodes g ! idx) = vout" "nd_signers (f_nodes g ! idx) = signers"
    "nd_type (f_nodes g ! idx) = type" "nd_layer (f_nodes g ! idx) = layer" "nd_outputs (f_nodes g ! idx) = []"
    "nd_ps_leaf (f_nodes g ! idx) = False" "nd_static (f_nodes g ! idx) = False"
    "hd signers = 0 \<Longrightarrow> node_keyed E g (f_nodes g ! idx)"
proof -
  obtain n where idx: "idx = length (f_nodes f)" and g: "g = (case parent of None \<Rightarrow> f\<lparr>f_nodes := f_nodes f @ [n]\<rparr>
      | Some p \<Rightarrow> set_node p (\<lambda>n. n\<lparr>nd_children := nd_children n @ [idx]\<rparr>) (f\<lparr>f_nodes := f_nodes f @ [n]\<rparr>))"
    and n: "nd_parent n = parent" "nd_vout n = vout" "nd_signers n = signers" "nd_type n = type" "nd_layer n = layer"
      "nd_outputs n = []" "\<not> nd_ps_leaf n" "\<not> nd_static n" "hd signers = 0 \<Longrightarrow> node_keyed E f n"
    by (rule add_node_cases[OF assms(1)]) (rule that; assumption)
  have at: "f_nodes g ! idx = n"
    unfolding g idx using assms(2) by (cases parent) (auto simp: nth_append)
  show grow: "grows f g"
    unfolding g by (cases parent) (simp_all add: grows_append_node grows_link)
  show "length (f_nodes g) = Suc (length (f_nodes f))" "f_leaf_nodes g = f_leaf_nodes f"
    unfolding g by (cases parent; simp)+
  show "idx = length (f_nodes f)"
    by (rule idx)
  show "nd_parent (f_nodes g ! idx) = parent" "nd_vout (f_nodes g ! idx) = vout"
    "nd_signers (f_nodes g ! idx) = signers" "nd_type (f_nodes g ! idx) = type" "nd_layer (f_nodes g ! idx) = layer"
    "nd_outputs (f_nodes g ! idx) = []" "nd_ps_leaf (f_nodes g ! idx) = False" "nd_static (f_nodes g ! idx) = False"
    by (simp_all only: at n simp_thms)
  show "hd signers = 0 \<Longrightarrow> node_keyed E g (f_nodes g ! idx)"
    using n(9) node_keyed_cong[OF refl growsD(1)[OF grow]] by (simp add: at)
qed

section \<open>The leaves\<close>

text \<open>Nodes that differ in their outputs and in the bookkeeping of chains only.\<close>

definition same_place :: "('xo, 'ca) factory_node \<Rightarrow> ('xo, 'ca) factory_node \<Rightarrow> bool" where
  "same_place m n \<longleftrightarrow> nd_type m = nd_type n \<and> nd_signers m = nd_signers n \<and> nd_keyagg m = nd_keyagg n \<and> nd_tweaked m = nd_tweaked n
     \<and> nd_spk m = nd_spk n \<and> nd_layer m = nd_layer n \<and> nd_parent m = nd_parent n \<and> nd_vout m = nd_vout n
     \<and> nd_input m = nd_input n \<and> nd_timeout_leaf m = nd_timeout_leaf n \<and> nd_parity m = nd_parity n
     \<and> nd_static m = nd_static n \<and> nd_cltv m = nd_cltv n"

lemma same_place_refl [simp]: "same_place n n"
  by (simp add: same_place_def)

lemma same_place_keyed: "same_place m n \<Longrightarrow> node_keyed E f m = node_keyed E f n"
  by (simp add: same_place_def node_keyed_def)

lemma those_length: "those xs = Some ys \<Longrightarrow> length ys = length xs"
  by (induction xs arbitrary: ys) (auto split: option.splits)

lemma setup_leaf_outputs_Some:
  "setup_leaf_outputs E f n a b x = Some n' \<Longrightarrow> same_place n' n \<and> paid (nd_outputs n') = unat (x - f_fee_per_tx f)"
  using even_split[of 2 "x - f_fee_per_tx f"]
  by (auto simp: setup_leaf_outputs_def Let_def same_place_def split: if_split_asm option.split_asm)

lemma setup_single_leaf_outputs_Some:
  "setup_single_leaf_outputs E f n a x = Some n' \<Longrightarrow> same_place n' n \<and> paid (nd_outputs n') = unat (x - f_fee_per_tx f)"
  using even_split[of 1 "x - f_fee_per_tx f"]
  by (auto simp: setup_single_leaf_outputs_def Let_def same_place_def split: if_split_asm option.split_asm)

lemma dust_pos: "\<not> 0 div (c :: u64) < CHANNEL_DUST_LIMIT_SATS \<Longrightarrow> False"
  by (simp add: CHANNEL_DUST_LIMIT_SATS_def)

lemma setup_ps_leaf_outputs_Some:
  "setup_ps_leaf_outputs E f n x = Some n' \<Longrightarrow> same_place n' n \<and> paid (nd_outputs n') = unat (x - f_fee_per_tx f)"
  using dust_pos[of 2] even_split[of 1 "x - f_fee_per_tx f"]
  by (auto simp: setup_ps_leaf_outputs_def Let_def same_place_def split: if_split_asm option.split_asm)

lemma setup_nway_leaf_outputs_Some:
  assumes "setup_nway_leaf_outputs E f n cs x = Some n'" and "small_config f"
  shows "same_place n' n \<and> paid (nd_outputs n') = unat (x - f_fee_per_tx f) \<and> f_fee_per_tx f < x"
proof -
  define per where "per = (x - f_fee_per_tx f) div of_nat (Suc (length cs))"
  obtain spks l where spks: "length spks = length cs" and n': "n' = n\<lparr>nd_outputs := map (\<lambda>spk. \<lparr>amount_sats = per, script_pubkey = spk\<rparr>) spks
      @ [\<lparr>amount_sats = per + (x - f_fee_per_tx f - per * of_nat (Suc (length cs))), script_pubkey = l\<rparr>]\<rparr>"
    and cs: "length cs < 2 ^ 64" and x: "f_fee_per_tx f < x"
    using assms by (auto simp: setup_nway_leaf_outputs_def Let_def per_def small_config_def dest!: those_length
        simp del: of_nat_Suc split: if_split_asm option.split_asm)
  show ?thesis
    using even_split[OF cs, of "x - f_fee_per_tx f"] x by (simp add: n' same_place_def paid_const[where c = per] spks per_def del: of_nat_Suc)
qed

text \<open>The state of the loop over the sub-factories: the leaf has paid one output to each sub-factory so far.\<close>

definition subs_inv :: "('pk, 'xo, 'ca) secp \<Rightarrow> ('pk, 'xo, 'ca) factory \<Rightarrow> nat \<Rightarrow> u64 \<Rightarrow> nat \<Rightarrow> ('pk, 'xo, 'ca) factory \<Rightarrow> bool" where
  "subs_inv E f0 leaf x k f \<longleftrightarrow>
     settings f = settings f0 \<and> f_leaf_nodes f = f_leaf_nodes f0 \<and> leaf < length (f_nodes f) \<and> length (f_nodes f0) = Suc leaf
     \<and> (\<forall>i<leaf. unlinked (f_nodes f ! i) = unlinked (f_nodes f0 ! i)) \<and> same_place (f_nodes f ! leaf) (f_nodes f0 ! leaf)
     \<and> length (nd_outputs (f_nodes f ! leaf)) = k \<and> paid (nd_outputs (f_nodes f ! leaf)) = k * unat x
     \<and> (\<forall>i. leaf < i \<and> i < length (f_nodes f) \<longrightarrow> node_linked f leaf i \<and> node_good E f i)"

lemma same_place_unlinked: "unlinked m = unlinked n \<Longrightarrow> same_place m n"
  by (simp add: same_place_def unlinked_fields[of m n])

lemma same_place_trans: "same_place l m \<Longrightarrow> same_place m n \<Longrightarrow> same_place l n"
  by (simp add: same_place_def)

text \<open>An output appended to the parent keeps the links below it.\<close>

lemma node_linked_extend:
  assumes "node_linked f b i" and "i < length (f_nodes f)" and "i \<noteq> leaf" and "same_place (u (f_nodes f ! leaf)) (f_nodes f ! leaf)"
    and "nd_outputs (u (f_nodes f ! leaf)) = nd_outputs (f_nodes f ! leaf) @ outs"
  shows "node_linked (set_node leaf u f) b i"
  using assms by (auto simp: node_linked_def same_place_def nth_append split: option.splits)

lemma node_good_other: "i \<noteq> j \<Longrightarrow> node_good E (set_node j u f) i = node_good E f i"
  by (simp add: node_good_def node_keyed_cong[OF refl set_node_simps(2)] node_layered_cong[OF refl set_node_simps(2)]
      settings_fields(2)[OF set_node_simps(2)])

lemma subs_step:
  assumes small: "small_config f0" and inv: "subs_inv E f0 leaf x k f" and new: "add_node E alloc f NODE_PS_SUBFACTORY (0 # cs) (Some leaf) k (-1) 0 = Some (s, f1)"
    and f2: "f2 = set_node leaf (\<lambda>n. n\<lparr>nd_subfactories := nd_subfactories n @ [s],
                 nd_outputs := nd_outputs n @ [\<lparr>amount_sats = x, script_pubkey = nd_spk (f_nodes f1 ! s)\<rparr>]\<rparr>) f1"
    and sub: "setup_nway_leaf_outputs E f2 (f_nodes f2 ! s) cs x = Some sub"
    and f3: "f3 = set_node s (\<lambda>_. sub\<lparr>nd_input := x, nd_ps_leaf := True, nd_chain_len := 0\<rparr>) f2"
  shows "subs_inv E f0 leaf x (Suc k) f3"
proof -
  have leaf: "leaf < length (f_nodes f)" and set0: "settings f = settings f0"
    using inv by (simp_all add: subs_inv_def)
  note A = add_node_Some[OF new, simplified, OF leaf]
  have s: "s = length (f_nodes f)" "s \<noteq> leaf" "length (f_nodes f1) = Suc s" "length (f_nodes f3) = Suc s"
    using A leaf by (simp_all add: f2 f3)
  have sub': "same_place sub (f_nodes f1 ! s)" "paid (nd_outputs sub) = unat (x - f_fee_per_tx f0)" "f_fee_per_tx f0 < x"
    using setup_nway_leaf_outputs_Some[OF sub] small s settings_fields(2)[of f2 f0] small_config_cong[of f2 f0] set0 growsD(1)[OF A(2)]
    by (simp_all add: f2)
  have old: "unlinked (f_nodes f1 ! i) = unlinked (f_nodes f ! i)" if "i < s" for i
    using grows_nth[OF A(2)] that s by simp
  have links: "node_linked f3 leaf i \<and> node_good E f3 i" if "leaf < i" "i < s" for i
  proof -
    have "node_linked f leaf i" "node_good E f i"
      using inv that s by (auto simp: subs_inv_def)
    then have "node_linked f1 leaf i" "node_good E f1 i"
      using grows_node_linked[OF A(2)] grows_node_good[OF A(2)] that s by auto
    then have l2: "node_linked f2 leaf i" and g2: "node_good E f2 i"
      using node_linked_extend[of f1 leaf i leaf] that s by (auto simp: f2 node_good_other same_place_def)
    show ?thesis
      using l2 g2 that by (auto simp: f3 node_good_other node_linked_def split: option.splits)
  qed
  have leaf1: "same_place (f_nodes f1 ! leaf) (f_nodes f ! leaf)" "nd_outputs (f_nodes f1 ! leaf) = nd_outputs (f_nodes f ! leaf)"
    using old[of leaf] leaf s same_place_unlinked unlinked_fields(6) by auto
  have set3: "settings f3 = settings f0" "settings f3 = settings f1"
    using growsD(1)[OF A(2)] set0 by (simp_all add: f2 f3)
  have at: "f_nodes f3 ! s = sub\<lparr>nd_input := x, nd_ps_leaf := True, nd_chain_len := 0\<rparr>"
    using s by (simp add: f2 f3)
  have leaf3: "nd_outputs (f_nodes f3 ! leaf) = nd_outputs (f_nodes f ! leaf) @ [\<lparr>amount_sats = x, script_pubkey = nd_spk (f_nodes f1 ! s)\<rparr>]"
    "same_place (f_nodes f3 ! leaf) (f_nodes f1 ! leaf)"
    using s leaf leaf1 by (simp_all add: f2 f3 same_place_def)
  have k: "length (nd_outputs (f_nodes f ! leaf)) = k"
    using inv by (simp add: subs_inv_def)
  have "node_keyed E f3 (f_nodes f3 ! s)"
    using A(13) sub'(1) by (simp add: node_keyed_cong[OF refl set3(2)] at) (simp add: same_place_def node_keyed_def)
  moreover have "leaf < s"
    using s leaf by simp
  ultimately have new3: "node_linked f3 leaf s \<and> node_good E f3 s"
    using sub' A(5,6,8) leaf3(1) k settings_fields(2)[OF set3(1)]
    by (simp add: node_linked_def node_good_def at node_balanced_def node_layered_def same_place_def nth_append)
  have "node_linked f3 leaf i \<and> node_good E f3 i" if "leaf < i" "i < Suc s" for i
    using links[of i] new3 that by (cases "i = s") auto
  moreover have "unlinked (f_nodes f3 ! i) = unlinked (f_nodes f0 ! i)" if "i < leaf" for i
    using that s leaf inv old[of i] by (simp add: f3 f2 subs_inv_def)
  moreover have "same_place (f_nodes f3 ! leaf) (f_nodes f0 ! leaf)"
    using inv leaf1 leaf3 same_place_trans by (metis subs_inv_def)
  ultimately show ?thesis
    using inv leaf3 k s leaf set3(1) A(4) by (simp add: subs_inv_def f3 f2 algebra_simps)
qed


lemma subfactory_loop_inv:
  "subfactory_loop E alloc leaf cs per_sub x [k..<K] f = Some g \<Longrightarrow> subs_inv E f0 leaf x k f \<Longrightarrow> k \<le> K \<Longrightarrow> small_config f0 \<Longrightarrow>
   subs_inv E f0 leaf x K g"
proof (induction "K - k" arbitrary: k f)
  case 0
  then show ?case by simp
next
  case (Suc m)
  then have k: "k < K" and "[k..<K] = k # [Suc k..<K]"
    by (simp_all add: upt_conv_Cons)
  then obtain s f1 sub where new: "add_node E alloc f NODE_PS_SUBFACTORY (0 # take per_sub (drop (k * per_sub) cs)) (Some leaf) k (-1) 0 = Some (s, f1)"
    and sub: "setup_nway_leaf_outputs E (set_node leaf (\<lambda>n. n\<lparr>nd_subfactories := nd_subfactories n @ [s],
         nd_outputs := nd_outputs n @ [\<lparr>amount_sats = x, script_pubkey = nd_spk (f_nodes f1 ! s)\<rparr>]\<rparr>) f1)
         (f_nodes (set_node leaf (\<lambda>n. n\<lparr>nd_subfactories := nd_subfactories n @ [s],
         nd_outputs := nd_outputs n @ [\<lparr>amount_sats = x, script_pubkey = nd_spk (f_nodes f1 ! s)\<rparr>]\<rparr>) f1) ! s) (take per_sub (drop (k * per_sub) cs)) x = Some sub"
    and rest: "subfactory_loop E alloc leaf cs per_sub x [Suc k..<K] (set_node s (\<lambda>_. sub\<lparr>nd_input := x, nd_ps_leaf := True, nd_chain_len := 0\<rparr>)
        (set_node leaf (\<lambda>n. n\<lparr>nd_subfactories := nd_subfactories n @ [s],
         nd_outputs := nd_outputs n @ [\<lparr>amount_sats = x, script_pubkey = nd_spk (f_nodes f1 ! s)\<rparr>]\<rparr>) f1)) = Some g"
    using Suc.prems(1) by (auto simp: Let_def simp del: set_node_nth split: if_split_asm option.split_asm)
  have "subs_inv E f0 leaf x (Suc k) (set_node s (\<lambda>_. sub\<lparr>nd_input := x, nd_ps_leaf := True, nd_chain_len := 0\<rparr>)
        (set_node leaf (\<lambda>n. n\<lparr>nd_subfactories := nd_subfactories n @ [s],
         nd_outputs := nd_outputs n @ [\<lparr>amount_sats = x, script_pubkey = nd_spk (f_nodes f1 ! s)\<rparr>]\<rparr>) f1))"
    by (rule subs_step[OF Suc.prems(4,2) new refl sub refl])
  then show ?case
    using Suc.hyps(1)[OF _ rest] Suc.hyps(2) Suc.prems(4) k by simp
qed

text \<open>What a finished leaf leaves behind: itself balanced, and below it linked and balanced nodes only.\<close>

definition leaf_done :: "('pk, 'xo, 'ca) secp \<Rightarrow> ('pk, 'xo, 'ca) factory \<Rightarrow> nat \<Rightarrow> u64 \<Rightarrow> ('pk, 'xo, 'ca) factory \<Rightarrow> bool" where
  "leaf_done E f leaf x g \<longleftrightarrow>
     settings g = settings f \<and> length (f_leaf_nodes g) = length (f_leaf_nodes f) \<and> leaf < length (f_nodes g)
     \<and> (\<forall>i<leaf. unlinked (f_nodes g ! i) = unlinked (f_nodes f ! i)) \<and> same_place (f_nodes g ! leaf) (f_nodes f ! leaf)
     \<and> paid (nd_outputs (f_nodes g ! leaf)) = unat (x - f_fee_per_tx f)
     \<and> (\<forall>i. leaf < i \<and> i < length (f_nodes g) \<longrightarrow> node_linked g leaf i \<and> node_good E g i)"

lemma setup_ps_leaf_with_subfactories_done:
  assumes "setup_ps_leaf_with_subfactories E alloc f leaf cs x = Some g"
    and "length (f_nodes f) = Suc leaf" and "nd_outputs (f_nodes f ! leaf) = []" and "small_config f"
  shows "leaf_done E f leaf x g"
proof -
  define per where "per = (x - f_fee_per_tx f) div of_nat (Suc (f_ps_k f))"
  let ?f = "set_node leaf (\<lambda>n. n\<lparr>nd_ps_leaf := True, nd_chain_len := 0, nd_prev_txid := replicate 32 0, nd_prev_chan_amount := 0\<rparr>) f"
  obtain per_sub h l where loop: "subfactory_loop E alloc leaf cs per_sub per [0..<f_ps_k f] ?f = Some h"
    and g: "g = set_node leaf (\<lambda>n. n\<lparr>nd_outputs := nd_outputs n @ [\<lparr>amount_sats = per + (x - f_fee_per_tx f - per * of_nat (Suc (f_ps_k f))),
         script_pubkey = l\<rparr>]\<rparr>) h" and k: "f_ps_k f < 2 ^ 64"
    using assms(1,4) by (auto simp: setup_ps_leaf_with_subfactories_def Let_def per_def small_config_def
        simp del: set_node_nth of_nat_Suc split: if_split_asm option.split_asm)
  have "subs_inv E f leaf per 0 ?f"
    using assms(2,3) by (auto simp: subs_inv_def same_place_def)
  then have inv: "subs_inv E f leaf per (f_ps_k f) h"
    using subfactory_loop_inv[OF loop] assms(4) by simp
  then have "node_linked g leaf i \<and> node_good E g i" if "leaf < i" "i < length (f_nodes g)" for i
    using node_linked_extend[of h leaf i leaf] that by (auto simp: g subs_inv_def node_good_other same_place_def)
  with inv show ?thesis
    using even_split[OF k, of "x - f_fee_per_tx f"] by (simp add: leaf_done_def g subs_inv_def same_place_def per_def del: of_nat_Suc)
qed

lemma setup_leaf_done:
  assumes "setup_leaf E alloc f leaf a cs x = Some g" and "length (f_nodes f) = Suc leaf" and "nd_outputs (f_nodes f ! leaf) = []"
    and "small_config f"
  shows "leaf_done E f leaf x g"
proof (cases "a = FACTORY_ARITY_PS \<and> f_ps_k f > 1")
  case True
  then show ?thesis
    using setup_ps_leaf_with_subfactories_done assms by (simp add: setup_leaf_def)
next
  case False
  then obtain n where r: "(if a = FACTORY_ARITY_PS then setup_ps_leaf_outputs E f (f_nodes f ! leaf) x
         else if length cs = 1 then setup_single_leaf_outputs E f (f_nodes f ! leaf) (cs ! 0) x
         else if a = 2 \<and> length cs = 2 then setup_leaf_outputs E f (f_nodes f ! leaf) (cs ! 0) (cs ! 1) x
         else setup_nway_leaf_outputs E f (f_nodes f ! leaf) cs x) = Some n" and g: "g = set_node leaf (\<lambda>_. n) f"
    using assms(1) unfolding setup_leaf_def by (auto simp only: if_False map_option_eq_Some)
  have "same_place n (f_nodes f ! leaf) \<and> paid (nd_outputs n) = unat (x - f_fee_per_tx f)"
    using r assms(4) setup_leaf_outputs_Some setup_single_leaf_outputs_Some setup_ps_leaf_outputs_Some setup_nway_leaf_outputs_Some
    by (metis (full_types))
  then show ?thesis
    using assms(2) by (auto simp: g leaf_done_def)
qed


section \<open>The recursive descent\<close>

text \<open>What a finished subtree leaves behind: its first node hangs on the given output, and every node below it
  hangs on an output of an earlier node of the subtree.\<close>

definition subtree_done ::
  "('pk, 'xo, 'ca) secp \<Rightarrow> ('pk, 'xo, 'ca) factory \<Rightarrow> nat option \<Rightarrow> nat \<Rightarrow> u64 \<Rightarrow> ('pk, 'xo, 'ca) factory \<Rightarrow> bool" where
  "subtree_done E f parent vout x g \<longleftrightarrow>
     grows f g \<and> length (f_nodes f) < length (f_nodes g) \<and> nd_parent (f_nodes g ! length (f_nodes f)) = parent
     \<and> nd_vout (f_nodes g ! length (f_nodes f)) = vout \<and> nd_input (f_nodes g ! length (f_nodes f)) = x
     \<and> (\<forall>i. length (f_nodes f) \<le> i \<and> i < length (f_nodes g) \<longrightarrow> node_good E g i)
     \<and> (\<forall>i. length (f_nodes f) < i \<and> i < length (f_nodes g) \<longrightarrow> node_linked g (length (f_nodes f)) i)"

definition children_done ::
  "('pk, 'xo, 'ca) secp \<Rightarrow> ('pk, 'xo, 'ca) factory \<Rightarrow> nat \<Rightarrow> (nat \<Rightarrow> u64) \<Rightarrow> nat \<Rightarrow> ('pk, 'xo, 'ca) factory \<Rightarrow> nat list \<Rightarrow> bool" where
  "children_done E f idx budget k0 g kos \<longleftrightarrow>
     grows f g
     \<and> (\<forall>k<length kos. length (f_nodes f) \<le> kos ! k \<and> kos ! k < length (f_nodes g) \<and> nd_parent (f_nodes g ! (kos ! k)) = Some idx
          \<and> nd_vout (f_nodes g ! (kos ! k)) = k0 + k \<and> nd_input (f_nodes g ! (kos ! k)) = budget (k0 + k))
     \<and> (\<forall>i. length (f_nodes f) \<le> i \<and> i < length (f_nodes g) \<longrightarrow> node_good E g i \<and> (i \<in> set kos \<or> node_linked g (length (f_nodes f)) i))"

lemma node_linked_mono: "node_linked f b i \<Longrightarrow> c \<le> b \<Longrightarrow> node_linked f c i"
  by (auto simp: node_linked_def split: option.splits)

lemma children_done_Nil: "children_done E f idx budget k0 f []"
  by (auto simp: children_done_def)

lemma children_done_Cons:
  assumes first: "subtree_done E f (Some idx) k0 (budget k0) g" and rest: "children_done E g idx budget (Suc k0) h kos"
  shows "children_done E f idx budget k0 h (length (f_nodes f) # kos)"
proof -
  have fg: "grows f g" and gh: "grows g h" and b: "length (f_nodes f) < length (f_nodes g)"
    using assms by (simp_all add: subtree_done_def children_done_def)
  have le: "length (f_nodes f) \<le> length (f_nodes g)" "length (f_nodes g) \<le> length (f_nodes h)"
    using growsD(2)[OF fg] growsD(2)[OF gh] by auto
  note at = unlinked_fields[OF grows_nth[OF gh b]]
  have "node_good E h i \<and> (i \<in> set (length (f_nodes f) # kos) \<or> node_linked h (length (f_nodes f)) i)"
    if i: "length (f_nodes f) \<le> i" "i < length (f_nodes h)" for i
  proof (cases "i < length (f_nodes g)")
    case True
    then show ?thesis
      using first i grows_node_good[OF gh True] grows_node_linked[OF gh True] by (auto simp: subtree_done_def)
  next
    case False
    then have "node_good E h i" "i \<in> set kos \<or> node_linked h (length (f_nodes g)) i"
      using rest i by (auto simp: children_done_def)
    then show ?thesis
      using node_linked_mono[of h _ i, OF _ le(1)] by auto
  qed
  moreover have "(length (f_nodes f) # kos) ! k < length (f_nodes h) \<and> length (f_nodes f) \<le> (length (f_nodes f) # kos) ! k
      \<and> nd_parent (f_nodes h ! ((length (f_nodes f) # kos) ! k)) = Some idx \<and> nd_vout (f_nodes h ! ((length (f_nodes f) # kos) ! k)) = k0 + k
      \<and> nd_input (f_nodes h ! ((length (f_nodes f) # kos) ! k)) = budget (k0 + k)" if "k < Suc (length kos)" for k
    using first rest that b le at by (cases k) (auto simp: subtree_done_def children_done_def)
  ultimately show ?thesis
    using grows_trans[OF fg gh] by (simp add: children_done_def)
qed

lemma build_children_done:
  assumes "\<And>f cs vout d x lc g lc'. rec f cs (Some idx) vout d x lc = Some (g, lc') \<Longrightarrow> idx < length (f_nodes f) \<Longrightarrow>
      small_config f \<Longrightarrow> subtree_done E f (Some idx) vout x g"
  shows "build_children rec idx depth budget parts k0 cs f lc = Some (g, kos, lc') \<Longrightarrow> idx < length (f_nodes f) \<Longrightarrow> small_config f \<Longrightarrow>
    children_done E f idx budget k0 g kos \<and> length kos = length (filter (\<lambda>p. p > 0) parts)"
proof (induction parts arbitrary: k0 cs f lc g kos lc')
  case Nil
  then show ?case by (simp add: children_done_Nil)
next
  case (Cons p ps)
  show ?case
  proof (cases "p = 0")
    case True
    then show ?thesis using Cons by simp
  next
    case False
    then obtain f1 lc1 kos1 where 1: "rec f (take p cs) (Some idx) k0 (depth + 1) (budget k0) lc = Some (f1, lc1)"
      and 2: "build_children rec idx depth budget ps (k0 + 1) (drop p cs) f1 lc1 = Some (g, kos1, lc')" and kos: "kos = length (f_nodes f) # kos1"
      using Cons.prems by (auto split: option.split_asm)
    have d: "subtree_done E f (Some idx) k0 (budget k0) f1"
      using assms[OF 1] Cons.prems by simp
    then have "idx < length (f_nodes f1)" "small_config f1"
      using Cons.prems growsD(1)[of f f1] small_config_cong[of f1 f] by (auto simp: subtree_done_def)
    then show ?thesis
      using Cons.IH[OF 2] children_done_Cons[where budget = budget, OF d] False by (simp add: kos)
  qed
qed


lemma paid_child_budget:
  assumes "0 < n" and "n \<le> 2 ^ 64"
  shows "paid (map (\<lambda>k. \<lparr>amount_sats = child_budget t n k, script_pubkey = spk k\<rparr>) [0..<n]) = unat t"
proof -
  obtain m where n: "n = Suc m" using assms(1) by (cases n) auto
  then have m: "m < 2 ^ 64" using assms(2) by simp
  have "paid (map (\<lambda>k. \<lparr>amount_sats = child_budget t n k, script_pubkey = spk k\<rparr>) [0..<m]) = m * unat (t div of_nat (Suc m))"
    by (subst paid_const[where c = "t div of_nat (Suc m)"]) (auto simp: child_budget_def n Let_def)
  then show ?thesis
    using even_split[OF m, of t] by (simp add: n child_budget_def Let_def del: of_nat_Suc)
qed

lemma fan_out_done:
  assumes rec: "\<And>f cs vout d x lc g lc'. rec f cs (Some idx) vout d x lc = Some (g, lc') \<Longrightarrow> idx < length (f_nodes f) \<Longrightarrow>
      small_config f \<Longrightarrow> subtree_done E f (Some idx) vout x g"
    and fan: "fan_out rec idx parts cs depth (x - f_fee_per_tx f) f lc = Some (g, lc')" and len: "length (f_nodes f) = Suc idx"
    and parts: "length parts < 2 ^ 32" and small: "small_config f"
  shows "leaf_done E f idx x g \<and> nd_ps_leaf (f_nodes g ! idx) = nd_ps_leaf (f_nodes f ! idx)"
proof -
  define n where "n = length (filter (\<lambda>p. p > 0) parts)"
  obtain h kos where n: "n > 0"
    and ch: "build_children rec idx depth (child_budget (x - f_fee_per_tx f) n) parts 0 cs f lc = Some (h, kos, lc')"
    and g: "g = set_node idx (\<lambda>m. m\<lparr>nd_outputs := map (\<lambda>k. \<lparr>amount_sats = child_budget (x - f_fee_per_tx f) n k,
        script_pubkey = nd_spk (f_nodes h ! (kos ! k))\<rparr>) [0..<n]\<rparr>) h"
    using fan by (auto simp: fan_out_def Let_def n_def simp del: set_node_nth split: if_split_asm option.split_asm)
  have cd: "children_done E f idx (child_budget (x - f_fee_per_tx f) n) 0 h kos" and kos: "length kos = n"
    using build_children_done[OF rec ch] len small by (simp_all add: n_def)
  have fh: "grows f h" and idx: "idx < length (f_nodes h)"
    using cd growsD(2)[of f h] len by (auto simp: children_done_def)
  have other: "f_nodes g ! i = f_nodes h ! i" if "i \<noteq> idx" for i
    using that by (simp add: g)
  have at: "f_nodes g ! idx = (f_nodes h ! idx)\<lparr>nd_outputs := map (\<lambda>k. \<lparr>amount_sats = child_budget (x - f_fee_per_tx f) n k,
        script_pubkey = nd_spk (f_nodes h ! (kos ! k))\<rparr>) [0..<n]\<rparr>"
    using idx by (simp add: g)
  have "node_linked g idx i \<and> node_good E g i" if i: "idx < i" "i < length (f_nodes g)" for i
  proof -
    have "node_good E h i" "i \<in> set kos \<or> node_linked h (Suc idx) i"
      using cd i len by (auto simp: children_done_def g)
    moreover have "node_linked g idx i" if "i \<in> set kos"
      using that i cd other[of i] kos by (auto simp: in_set_conv_nth children_done_def node_linked_def at)
    moreover have "node_linked g idx i" if "node_linked h (Suc idx) i"
      using that i by (auto simp: node_linked_def g split: option.splits)
    ultimately show ?thesis
      using i by (auto simp: g node_good_other)
  qed
  moreover have "same_place (f_nodes g ! idx) (f_nodes f ! idx)"
    using same_place_unlinked[OF grows_nth[OF fh, of idx]] len by (simp add: at same_place_def)
  moreover have "n \<le> 2 ^ 64"
    unfolding n_def by (rule order.trans[OF length_filter_le]) (use parts in simp)
  then have "paid (nd_outputs (f_nodes g ! idx)) = unat (x - f_fee_per_tx f)"
    using paid_child_budget[OF n] by (simp add: at)
  ultimately show ?thesis
    using fh idx len other unlinked_fields(13)[OF grows_nth[OF fh, of idx]] by (simp add: leaf_done_def grows_def g)
qed


text \<open>A finished last node closes the subtree it is the first, or the second, node of.\<close>

lemma leaf_done_grows:
  "leaf_done E f1 leaf x g \<Longrightarrow> grows f f1 \<Longrightarrow> length (f_nodes f) \<le> leaf \<Longrightarrow> grows f g"
  by (auto simp: leaf_done_def grows_def)

lemma leaf_done_good:
  assumes "leaf_done E f leaf x g" and "node_keyed E f (f_nodes f ! leaf)" and "nd_input (f_nodes f ! leaf) = x"
    and "nd_type (f_nodes f ! leaf) \<noteq> NODE_STATE \<Longrightarrow> f_fee_per_tx f < x"
    and "nd_type (f_nodes f ! leaf) \<noteq> NODE_PS_SUBFACTORY" and "node_layered f (f_nodes f ! leaf)"
  shows "node_good E g leaf"
proof -
  have S: "settings g = settings f" and P: "same_place (f_nodes g ! leaf) (f_nodes f ! leaf)"
    using assms(1) by (simp_all add: leaf_done_def)
  have "node_layered g (f_nodes g ! leaf)"
    using assms(5,6) P settings_cong(9)[OF S] by (auto simp: node_layered_def same_place_def)
  then show ?thesis
    using assms(1-4) node_keyed_cong[OF refl S, of E] same_place_keyed[OF P] settings_fields(2)[OF S]
    by (auto simp: leaf_done_def node_good_def node_balanced_def same_place_def)
qed

lemma static_subtree_done:
  assumes new: "add_node E alloc f NODE_KICKOFF (0 # cs) parent vout (-1) c = Some (ko, f1)" and parent: "\<And>p. parent = Some p \<Longrightarrow> p < length (f_nodes f)"
    and f2: "f2 = set_node ko (\<lambda>n. n\<lparr>nd_static := True, nd_input := x\<rparr>) f1" and fin: "leaf_done E f2 ko x g"
    and x: "f_fee_per_tx f < x"
  shows "subtree_done E f parent vout x g"
proof -
  note A = add_node_Some[OF new parent, simplified]
  have ko: "ko = length (f_nodes f)" "length (f_nodes f1) = Suc ko"
    using A by simp_all
  have at: "f_nodes f2 ! ko = (f_nodes f1 ! ko)\<lparr>nd_static := True, nd_input := x\<rparr>"
    using ko by (simp add: f2)
  have key: "node_keyed E f2 (f_nodes f2 ! ko)"
    unfolding at using A(13) by (simp add: f2)
  have "grows f f2"
    using grows_set_node_new[OF _ A(2)] ko by (simp add: f2)
  then have "grows f g"
    using leaf_done_grows[OF fin] ko by simp
  moreover have "node_good E g ko"
    using leaf_done_good[OF fin key] x growsD(1)[OF A(2)] settings_fields(2)[of f2 f] A(8) by (simp add: at node_layered_def) (simp add: f2)
  moreover have "same_place (f_nodes g ! ko) (f_nodes f2 ! ko)" "ko < length (f_nodes g)"
    using fin by (simp_all add: leaf_done_def)
  ultimately show ?thesis
    using fin A(5,6) unfolding subtree_done_def ko(1)[symmetric]
    by (auto simp: leaf_done_def at same_place_def le_less)
qed


lemma state_subtree_done:
  assumes ko: "add_node E alloc f NODE_KICKOFF (0 # cs) parent vout (-1) c = Some (ko, f1)" and parent: "\<And>p. parent = Some p \<Longrightarrow> p < length (f_nodes f)"
    and st: "add_node E alloc f1 NODE_STATE (0 # cs) (Some ko) 0 (dw_layer_at f1 depth) c' = Some (st, f2)"
    and f3: "f3 = set_node ko (\<lambda>n. n\<lparr>nd_outputs := [\<lparr>amount_sats = x - f_fee_per_tx f, script_pubkey = nd_spk (f_nodes f2 ! st)\<rparr>], nd_input := x\<rparr>) f2"
    and f4: "f4 = set_node st (\<lambda>n. n\<lparr>nd_input := x - f_fee_per_tx f\<rparr>) f3" and fin: "leaf_done E f4 st (x - f_fee_per_tx f) g"
    and x: "f_fee_per_tx f < x"
  shows "subtree_done E f parent vout x g"
proof -
  note A = add_node_Some[OF ko parent, simplified]
  have ko1: "ko < length (f_nodes f1)" using A by simp
  note B = add_node_Some[OF st, simplified, OF ko1]
  have idx: "ko = length (f_nodes f)" "st = Suc ko" "length (f_nodes f2) = Suc (Suc ko)"
    using A B by simp_all
  note K = unlinked_fields[OF grows_nth[OF B(2) ko1]]
  have at: "f_nodes f4 ! ko = (f_nodes f2 ! ko)\<lparr>nd_outputs := [\<lparr>amount_sats = x - f_fee_per_tx f, script_pubkey = nd_spk (f_nodes f2 ! st)\<rparr>], nd_input := x\<rparr>"
    "f_nodes f4 ! st = (f_nodes f2 ! st)\<lparr>nd_input := x - f_fee_per_tx f\<rparr>"
    using idx by (simp_all add: f3 f4)
  have set4: "settings f4 = settings f"
    using growsD(1)[OF A(2)] growsD(1)[OF B(2)] by (simp add: f3 f4)
  have "dw_layer_at f1 depth = dw_layer_at f4 depth"
    using settings_cong(9)[OF set4] settings_cong(9)[OF growsD(1)[OF A(2)]] by simp
  then have layk: "node_layered f4 (f_nodes f4 ! ko)" and lays: "node_layered f4 (f_nodes f4 ! st)"
    using A(8) B(8,9) K(1) by (auto simp: at node_layered_def)
  have "node_keyed E f4 (f_nodes f4 ! ko)" "node_keyed E f4 (f_nodes f4 ! st)"
    unfolding at using A(13) B(13) node_keyed_cong[OF grows_nth[OF B(2) ko1] growsD(1)[OF B(2)]] by (simp_all add: f3 f4)
  moreover have gko: "unlinked (f_nodes g ! ko) = unlinked (f_nodes f4 ! ko)" and gst: "same_place (f_nodes g ! st) (f_nodes f4 ! st)" "st < length (f_nodes g)"
    and gset: "settings g = settings f4"
    using fin idx by (simp_all add: leaf_done_def)
  ultimately have good: "node_good E g ko" "node_good E g st"
    using leaf_done_good[OF fin] node_keyed_cong[OF gko gset] node_balanced_cong[OF gko] settings_fields(2)[OF gset] settings_fields(2)[OF set4] x B(8)
      node_layered_cong[OF gko gset] layk lays
    by (simp_all add: at node_good_def node_balanced_def)
  have "ko < st"
    using idx by simp
  then have "node_linked g ko st"
    using gst(1) B(5,6) by (simp add: node_linked_def same_place_def unlinked_fields[OF gko] at)
  then have "node_linked g ko i \<and> node_good E g i" if "ko < i" "i < length (f_nodes g)" for i
    using fin that good(2) idx(2) node_linked_mono[of g st i ko] by (cases "i = st") (auto simp: leaf_done_def)
  moreover have "grows f f4"
    using grows_set_node_new[OF _ grows_trans[OF A(2) B(2)]] idx by (simp add: f3 f4 grows_set_node_new)
  then have "grows f g"
    using leaf_done_grows[OF fin] idx by simp
  moreover have "nd_parent (f_nodes g ! ko) = parent" "nd_vout (f_nodes g ! ko) = vout" "nd_input (f_nodes g ! ko) = x"
    using A(5,6) by (simp_all add: unlinked_fields[OF gko] at K)
  ultimately show ?thesis
    using good(1) gst(2) \<open>ko < st\<close> unfolding subtree_done_def idx(1)[symmetric] by (auto simp: le_less)
qed


text \<open>The three ways a subtree is built.\<close>

definition open_state :: "nat \<Rightarrow> nat \<Rightarrow> u64 \<Rightarrow> u64 \<Rightarrow> ('pk, 'xo, 'ca) factory \<Rightarrow> ('pk, 'xo, 'ca) factory" where
  "open_state ko st x fee f = set_node st (\<lambda>n. n\<lparr>nd_input := x - fee\<rparr>) (set_node ko (\<lambda>n. n\<lparr>nd_outputs :=
     [\<lparr>amount_sats = x - fee, script_pubkey = nd_spk (f_nodes f ! st)\<rparr>], nd_input := x\<rparr>) f)"

lemma build_subtree_cases:
  assumes "build_subtree fuel E alloc f cs parent vout depth x lc = Some (g, lc')"
  obtains (static) m c ko f1 where "fuel = Suc m" and "cs \<noteq> []" and "\<not> subtree_is_leaf f (arity_at_depth f depth) (length cs)"
      and "depth < f_static_depth f" and "f_fee_per_tx f < x"
      and "length (split_clients_for_arity (arity_at_depth f depth) (length cs)) \<le> max_outputs_per_node (f_config f)"
      and "add_node E alloc f NODE_KICKOFF (0 # cs) parent vout (-1) c = Some (ko, f1)"
      and "fan_out (build_subtree m E alloc) ko (split_clients_for_arity (arity_at_depth f depth) (length cs)) cs depth (x - f_fee_per_tx f)
             (set_node ko (\<lambda>n. n\<lparr>nd_static := True, nd_input := x\<rparr>) f1) lc = Some (g, lc')"
    | (leaf) m c c' ko f1 st f2 h where "fuel = Suc m" and "cs \<noteq> []" and "subtree_is_leaf f (arity_at_depth f depth) (length cs)"
      and "f_fee_per_tx f < x" and "add_node E alloc f NODE_KICKOFF (0 # cs) parent vout (-1) c = Some (ko, f1)"
      and "add_node E alloc f1 NODE_STATE (0 # cs) (Some ko) 0 (dw_layer_at f1 depth) c' = Some (st, f2)"
      and "setup_leaf E alloc (open_state ko st x (f_fee_per_tx f) f2) st (arity_at_depth f depth) cs (x - f_fee_per_tx f) = Some h"
      and "lc < FACTORY_MAX_LEAVES" and "g = h\<lparr>f_leaf_nodes := (f_leaf_nodes h)[lc := st]\<rparr>" and "lc' = lc + 1"
    | (state) m c c' ko f1 st f2 where "fuel = Suc m" and "cs \<noteq> []" and "\<not> subtree_is_leaf f (arity_at_depth f depth) (length cs)"
      and "f_fee_per_tx f < x" and "f_static_depth f \<le> depth" and "f_fee_per_tx f < x - f_fee_per_tx f"
      and "length (split_clients_for_arity (arity_at_depth f depth) (length cs))
             \<le> max_outputs_per_node (f_config (open_state ko st x (f_fee_per_tx f) f2))"
      and "add_node E alloc f NODE_KICKOFF (0 # cs) parent vout (-1) c = Some (ko, f1)"
      and "add_node E alloc f1 NODE_STATE (0 # cs) (Some ko) 0 (dw_layer_at f1 depth) c' = Some (st, f2)"
      and "fan_out (build_subtree m E alloc) st (split_clients_for_arity (arity_at_depth f depth) (length cs)) cs depth
             (x - f_fee_per_tx f - f_fee_per_tx f) (open_state ko st x (f_fee_per_tx f) f2) lc = Some (g, lc')"
proof -
  obtain m where fuel: "fuel = Suc m"
    using assms by (cases fuel) auto
  note R = assms[unfolded fuel build_subtree.simps Let_def, folded open_state_def]
  show thesis
  proof (cases "depth < f_static_depth f \<and> \<not> subtree_is_leaf f (arity_at_depth f depth) (length cs)")
    case True
    then show thesis
      using R static[OF fuel] by (simp add: not_le split: if_split_asm option.split_asm prod.split_asm)
  next
    case False
    then obtain ko f1 st f2 where K: "cs \<noteq> []" "add_node E alloc f NODE_KICKOFF (0 # cs) parent vout (-1) (fst (node_cltvs f depth)) = Some (ko, f1)"
      "add_node E alloc f1 NODE_STATE (0 # cs) (Some ko) 0 (dw_layer_at f1 depth) (snd (node_cltvs f depth)) = Some (st, f2)" "f_fee_per_tx f < x"
      using R by (simp add: not_le split: if_split_asm option.split_asm prod.split_asm)
    show thesis
    proof (cases "subtree_is_leaf f (arity_at_depth f depth) (length cs)")
      case True
      then show thesis
        using R K leaf[OF fuel] False by (simp add: not_le split: if_split_asm option.split_asm prod.split_asm)
    next
      case nl: False
      then show thesis
        using R K state[OF fuel] False by (simp add: not_le not_less split: if_split_asm option.split_asm prod.split_asm)
    qed
  qed
qed

lemma subtree_done_leaf_nodes:
  assumes "subtree_done E f parent vout x h"
  shows "subtree_done E f parent vout x (h\<lparr>f_leaf_nodes := (f_leaf_nodes h)[j := st]\<rparr>)"
proof -
  have S: "settings (h\<lparr>f_leaf_nodes := (f_leaf_nodes h)[j := st]\<rparr>) = settings h"
    by (simp add: settings_def)
  have "node_linked (h\<lparr>f_leaf_nodes := (f_leaf_nodes h)[j := st]\<rparr>) b i = node_linked h b i" for b i
    by (simp add: node_linked_def cong: option.case_cong)
  then show ?thesis
    using assms node_keyed_cong[OF refl S] node_layered_cong[OF refl S] S by (simp add: subtree_done_def grows_def node_good_def)
qed

lemma build_subtree_done:
  "build_subtree fuel E alloc f cs parent vout depth x lc = Some (g, lc') \<Longrightarrow> (\<And>p. parent = Some p \<Longrightarrow> p < length (f_nodes f)) \<Longrightarrow>
   small_config f \<Longrightarrow> subtree_done E f parent vout x g"
proof (induction fuel arbitrary: f cs parent vout depth x lc g lc')
  case 0
  then show ?case by simp
next
  case (Suc fuel)
  have rec: "subtree_done E f (Some idx) vout x g"
    if "build_subtree fuel E alloc f cs (Some idx) vout d x lc = Some (g, lc')" "idx < length (f_nodes f)" "small_config f"
    for f cs idx vout d x lc g lc'
    using Suc.IH[OF that(1)] that(2,3) by simp
  from Suc.prems(1) show ?case
  proof (cases rule: build_subtree_cases)
    case (static m c ko f1)
    note A = add_node_Some[OF static(7) Suc.prems(2), simplified]
    let ?f2 = "set_node ko (\<lambda>n. n\<lparr>nd_static := True, nd_input := x\<rparr>) f1"
    have S: "settings ?f2 = settings f"
      using growsD(1)[OF A(2)] by simp
    have "leaf_done E ?f2 ko x g"
      using fan_out_done[of "build_subtree fuel E alloc" ko E, OF rec] static A settings_fields(2,3)[OF S] small_config_cong[OF S] Suc.prems(3)
      by (simp add: small_config_def)
    then show ?thesis
      using static_subtree_done[OF static(7) Suc.prems(2) refl] static(5) by simp
  next
    case (leaf m c c' ko f1 st f2 h)
    note A = add_node_Some[OF leaf(5) Suc.prems(2)]
    note B = add_node_Some[OF leaf(6)]
    have S: "settings (open_state ko st x (f_fee_per_tx f) f2) = settings f"
      using growsD(1)[OF A(2)] growsD(1)[OF B(2)] A by (simp add: open_state_def)
    have "leaf_done E (open_state ko st x (f_fee_per_tx f) f2) st (x - f_fee_per_tx f) h"
      using setup_leaf_done[OF leaf(7)] A B Suc.prems(3) small_config_cong[OF S] by (simp add: open_state_def)
    then show ?thesis
      using state_subtree_done[OF leaf(5) Suc.prems(2) leaf(6) refl refl] leaf(4,9) by (simp add: open_state_def subtree_done_leaf_nodes)
  next
    case (state m c c' ko f1 st f2)
    note A = add_node_Some[OF state(8) Suc.prems(2)]
    note B = add_node_Some[OF state(9)]
    have S: "settings (open_state ko st x (f_fee_per_tx f) f2) = settings f"
      using growsD(1)[OF A(2)] growsD(1)[OF B(2)] A by (simp add: open_state_def)
    have "leaf_done E (open_state ko st x (f_fee_per_tx f) f2) st (x - f_fee_per_tx f) g"
      using fan_out_done[of "build_subtree fuel E alloc" st E, OF rec] state A B settings_fields(2,3)[OF S] small_config_cong[OF S] Suc.prems(3)
      by (simp add: open_state_def small_config_def)
    then show ?thesis
      using state_subtree_done[OF state(8) Suc.prems(2) state(9) refl refl] state(4) by (simp add: open_state_def)
  qed
qed


section \<open>The fuel is enough\<close>

lemma build_children_cong:
  assumes "\<And>f xs v x lc. length xs \<le> m \<Longrightarrow> rec f xs (Some idx) v (depth + 1) x lc = rec' f xs (Some idx) v (depth + 1) x lc"
  shows "\<forall>p\<in>set parts. p \<le> m \<Longrightarrow> build_children rec idx depth budget parts k cs f lc = build_children rec' idx depth budget parts k cs f lc"
proof (induction parts arbitrary: k cs f lc)
  case (Cons p ps)
  have "rec f (take p cs) (Some idx) k (depth + 1) (budget k) lc = rec' f (take p cs) (Some idx) k (depth + 1) (budget k) lc"
    using Cons.prems by (intro assms) auto
  moreover have "build_children rec idx depth budget ps j ds h c = build_children rec' idx depth budget ps j ds h c" for j ds h c
    using Cons by simp
  ultimately show ?case
    by (simp only: build_children.simps)
qed simp

lemma fan_out_cong:
  assumes "\<And>f xs v x lc. length xs \<le> m \<Longrightarrow> rec f xs (Some idx) v (depth + 1) x lc = rec' f xs (Some idx) v (depth + 1) x lc" and "\<forall>p\<in>set parts. p \<le> m"
  shows "fan_out rec idx parts cs depth y f lc = fan_out rec' idx parts cs depth y f lc"
  unfolding fan_out_def by (subst build_children_cong[of m rec idx depth rec', OF assms]) (simp_all add: assms(2))

text \<open>As many levels as clients: more fuel gives the same tree.\<close>

lemma build_subtree_fuel:
  "length cs \<le> n \<Longrightarrow> build_subtree (n + k) E alloc f cs parent vout depth x lc = build_subtree n E alloc f cs parent vout depth x lc"
proof (induction n arbitrary: f cs parent vout depth x lc)
  case 0
  then show ?case by (cases k) simp_all
next
  case (Suc n)
  let ?parts = "split_clients_for_arity (arity_at_depth f depth) (length cs)"
  have "fan_out (build_subtree (n + k) E alloc) idx ?parts cs depth y h c = fan_out (build_subtree n E alloc) idx ?parts cs depth y h c"
    if "\<not> subtree_is_leaf f (arity_at_depth f depth) (length cs)" for idx y h c
  proof (rule fan_out_cong[where m = n])
    show "\<forall>p\<in>set ?parts. p \<le> n"
      using split_clients_less[OF that] Suc.prems by fastforce
  qed (rule Suc.IH)
  then show ?case
    unfolding add_Suc build_subtree.simps Let_def by (simp cong: if_cong option.case_cong split: prod.split)
qed

end
