(* ===== verification/Factory_Ops.thy ===== *)
theory Factory_Ops
  imports Factory_Tree
begin

text \<open>
  The life of a built factory, \<^verbatim>\<open>src/factory.c\<close>: advancing the state as a whole, of one leaf, of the root, or of a
  sub-factory chain, and the look-ups.  An advance returns its C result and the factory, changed also
  where it fails half way.  Signing is an argument of the one operation that signs.
\<close>

section \<open>Rebuilding\<close>

definition rebuild_node_tx ::
  "('pk, 'xo, 'ca) secp \<Rightarrow> (nat \<Rightarrow> bool) \<Rightarrow> nat \<Rightarrow> ('pk, 'xo, 'ca) factory \<Rightarrow> bool \<times> ('pk, 'xo, 'ca) factory" where
  "rebuild_node_tx E alloc i f =
     (if i \<ge> length (f_nodes f) then (False, f)
      else let node = f_nodes f ! i in
      case node_nsequence f i of None \<Rightarrow> (False, f)
      | Some nseq \<Rightarrow>
        let result =
          (if nd_ps_leaf node \<and> nd_chain_len node > 0 \<and> nd_type node = NODE_PS_SUBFACTORY \<and> length (nd_prev_outputs node) > 1
           then build_unsigned_tx_multi alloc (sha256 E) (nd_unsigned_tx node) True
                  (map (\<lambda>v. \<lparr>prev_txid = nd_prev_txid node, prev_vout = of_nat v, nsequence = nseq\<rparr>) [0..<length (nd_prev_outputs node)])
                  (nd_outputs node) 2 0
           else let outpoint =
                  (if nd_ps_leaf node \<and> nd_chain_len node > 0
                   then (nd_prev_txid node, if nd_type node = NODE_PS_SUBFACTORY then of_nat (length (nd_outputs node) - 1) else 0)
                   else node_outpoint f node)
                in build_unsigned_tx alloc (sha256 E) (nd_unsigned_tx node) True (fst outpoint) (snd outpoint) nseq (nd_outputs node))
        in case result of (ok, buf, display_txid) \<Rightarrow>
             let f = set_node i (\<lambda>n. n\<lparr>nd_nsequence := nseq, nd_unsigned_tx := buf\<rparr>) f
             in case display_txid of
                  Some t \<Rightarrow> if ok then (True, set_node i (\<lambda>n. n\<lparr>nd_txid := reverse_bytes t, nd_built := True, nd_signed := False\<rparr>) f)
                            else (False, f)
                | None \<Rightarrow> (False, f))"

text \<open>The script of the liquidity stock, the last output of a leaf.\<close>

definition set_l_stock :: "('pk, 'xo, 'ca) secp \<Rightarrow> nat \<Rightarrow> ('pk, 'xo, 'ca) factory \<Rightarrow> bool \<times> ('pk, 'xo, 'ca) factory" where
  "set_l_stock E i f =
     (let node = f_nodes f ! i in
      if nd_type node \<noteq> NODE_STATE \<or> nd_children node \<noteq> [] \<or> length (nd_outputs node) < 2 then (True, f)
      else case build_l_stock_spk E f node of None \<Rightarrow> (False, f)
      | Some spk \<Rightarrow> (True, set_node i (\<lambda>n. n\<lparr>nd_outputs := butlast (nd_outputs n) @ [(last (nd_outputs n))\<lparr>script_pubkey := spk\<rparr>]\<rparr>) f))"

fun set_l_stocks :: "('pk, 'xo, 'ca) secp \<Rightarrow> nat list \<Rightarrow> ('pk, 'xo, 'ca) factory \<Rightarrow> bool \<times> ('pk, 'xo, 'ca) factory" where
  "set_l_stocks E [] f = (True, f)"
| "set_l_stocks E (i # js) f = (case set_l_stock E i f of (ok, f') \<Rightarrow> if ok then set_l_stocks E js f' else (False, f'))"

definition update_l_stock_outputs :: "('pk, 'xo, 'ca) secp \<Rightarrow> ('pk, 'xo, 'ca) factory \<Rightarrow> bool \<times> ('pk, 'xo, 'ca) factory" where
  "update_l_stock_outputs E f = (if \<not> f_shachain f then (True, f) else set_l_stocks E [0..<length (f_nodes f)] f)"

definition update_l_stock_for_leaf :: "('pk, 'xo, 'ca) secp \<Rightarrow> nat \<Rightarrow> ('pk, 'xo, 'ca) factory \<Rightarrow> bool \<times> ('pk, 'xo, 'ca) factory" where
  "update_l_stock_for_leaf E i f = (if \<not> f_shachain f then (True, f) else set_l_stock E i f)"

text \<open>Both steps, as every advance of the root takes them.\<close>

definition rebuild_all :: "('pk, 'xo, 'ca) secp \<Rightarrow> (nat \<Rightarrow> bool) \<Rightarrow> ('pk, 'xo, 'ca) factory \<Rightarrow> bool \<times> ('pk, 'xo, 'ca) factory" where
  "rebuild_all E alloc f =
     (case update_l_stock_outputs E f of (ok, f') \<Rightarrow> if ok then build_all_unsigned_txs E alloc f' else (False, f'))"

section \<open>Advancing\<close>

definition factory_advance ::
  "('pk, 'xo, 'ca) secp \<Rightarrow> (nat \<Rightarrow> bool) \<Rightarrow> (('pk, 'xo, 'ca) factory \<Rightarrow> bool \<times> ('pk, 'xo, 'ca) factory)
   \<Rightarrow> ('pk, 'xo, 'ca) factory \<Rightarrow> bool \<times> ('pk, 'xo, 'ca) factory" where
  "factory_advance E alloc sign_all f =
     (case dw_counter_advance (f_counter f) of (ok, c) \<Rightarrow>
        if \<not> ok then (False, f\<lparr>f_counter := c\<rparr>)
        else case rebuild_all E alloc (f\<lparr>f_counter := c\<rparr>) of (ok, f) \<Rightarrow> if ok then sign_all f else (False, f))"

text \<open>Advance the outermost layer alone.\<close>

definition advance_root_layer :: "('pk, 'xo, 'ca) factory \<Rightarrow> ('pk, 'xo, 'ca) factory option" where
  "advance_root_layer f =
     (case dw_advance (layers (f_counter f) ! 0) of
        (False, _) \<Rightarrow> None
      | (True, l) \<Rightarrow> Some (f\<lparr>f_counter := (f_counter f)\<lparr>layers := (layers (f_counter f))[0 := l],
                                current_epoch := current_epoch (f_counter f) + 1\<rparr>\<rparr>))"

definition reset_ps_chains :: "('pk, 'xo, 'ca) factory \<Rightarrow> ('pk, 'xo, 'ca) factory" where
  "reset_ps_chains f =
     foldl (\<lambda>f li. if nd_ps_leaf (f_nodes f ! li) then set_node li (\<lambda>n. n\<lparr>nd_chain_len := 0\<rparr>) f else f) f
       (take (f_n_leaf_nodes f) (f_leaf_nodes f))"

definition reset_leaf_layers :: "('pk, 'xo, 'ca) factory \<Rightarrow> ('pk, 'xo, 'ca) factory" where
  "reset_leaf_layers f =
     f\<lparr>f_leaf_layers := map (\<lambda>i. if i < f_n_leaf_nodes f then dw_layer_init (f_step_blocks f) (f_states_per_layer f) else f_leaf_layers f ! i)
         [0..<length (f_leaf_layers f)]\<rparr>"

text \<open>A pseudo-Spilman leaf appends to its chain, and rolls the root layer over when the chain is long.\<close>

definition advance_ps_leaf ::
  "('pk, 'xo, 'ca) secp \<Rightarrow> (nat \<Rightarrow> bool) \<Rightarrow> nat \<Rightarrow> ('pk, 'xo, 'ca) factory \<Rightarrow> int \<times> ('pk, 'xo, 'ca) factory" where
  "advance_ps_leaf E alloc ni f =
     (let node = f_nodes f ! ni;
          prev = amount_sats (nd_outputs node ! 0);
          f = set_node ni (\<lambda>n. n\<lparr>nd_prev_txid := nd_txid n, nd_prev_chan_amount := prev, nd_chain_len := nd_chain_len n + 1\<rparr>) f
      in if nd_chain_len node + 1 > unat (f_states_per_layer f) then
           (case advance_root_layer f of None \<Rightarrow> (0, f)
            | Some f \<Rightarrow> (case rebuild_all E alloc (reset_ps_chains f) of (ok, f) \<Rightarrow> (if ok then -1 else 0, f)))
         else if prev \<le> f_fee_per_tx f then (0, f)
         else let out_total = prev - f_fee_per_tx f in
           if out_total < CHANNEL_DUST_LIMIT_SATS then (0, f)
           else case rebuild_node_tx E alloc ni
                  (set_node ni (\<lambda>n. n\<lparr>nd_outputs := [(nd_outputs n ! 0)\<lparr>amount_sats := out_total\<rparr>]\<rparr>) f) of
             (ok, f) \<Rightarrow> (if ok then 1 else 0, f))"

definition factory_advance_leaf_unsigned ::
  "('pk, 'xo, 'ca) secp \<Rightarrow> (nat \<Rightarrow> bool) \<Rightarrow> ('pk, 'xo, 'ca) factory \<Rightarrow> nat \<Rightarrow> int \<times> ('pk, 'xo, 'ca) factory" where
  "factory_advance_leaf_unsigned E alloc f leaf_side =
     (if leaf_side \<ge> f_n_leaf_nodes f then (0, f)
      else let ni = f_leaf_nodes f ! leaf_side in
      if nd_ps_leaf (f_nodes f ! ni) then advance_ps_leaf E alloc ni f
      else let f = f\<lparr>f_per_leaf := True\<rparr> in
        case dw_advance (f_leaf_layers f ! leaf_side) of
          (False, _) \<Rightarrow>
            (case advance_root_layer f of None \<Rightarrow> (0, f)
             | Some f \<Rightarrow> (case rebuild_all E alloc (reset_leaf_layers f) of (ok, f) \<Rightarrow> (if ok then -1 else 0, f)))
        | (True, l) \<Rightarrow>
            (case update_l_stock_for_leaf E ni (f\<lparr>f_leaf_layers := (f_leaf_layers f)[leaf_side := l]\<rparr>) of (ok, f) \<Rightarrow>
               if \<not> ok then (0, f)
               else case rebuild_node_tx E alloc ni f of (ok, f) \<Rightarrow> (if ok then 1 else 0, f)))"

text \<open>Resetting the chains of the sub-factories, all or those not confirmed at a safe height, and how many.\<close>

definition reset_chain :: "('xo, 'ca) factory_node \<Rightarrow> ('xo, 'ca) factory_node" where
  "reset_chain n = n\<lparr>nd_chain_len := 0, nd_prev_outputs := [], nd_prev_txid := replicate 32 0, nd_confirmed_height := 0\<rparr>"

definition reset_chains ::
  "(('xo, 'ca) factory_node \<Rightarrow> bool) \<Rightarrow> ('pk, 'xo, 'ca) factory \<Rightarrow> nat \<times> ('pk, 'xo, 'ca) factory" where
  "reset_chains keep f =
     (let stale = (\<lambda>n. nd_type n = NODE_PS_SUBFACTORY \<and> nd_chain_len n \<noteq> 0 \<and> \<not> keep n)
      in (length (filter stale (f_nodes f)), f\<lparr>f_nodes := map (\<lambda>n. if stale n then reset_chain n else n) (f_nodes f)\<rparr>))"

definition factory_reset_all_subfactory_chains :: "('pk, 'xo, 'ca) factory \<Rightarrow> nat \<times> ('pk, 'xo, 'ca) factory" where
  "factory_reset_all_subfactory_chains f = reset_chains (\<lambda>n. False) f"

definition factory_reset_subfactory_chains_above_height :: "('pk, 'xo, 'ca) factory \<Rightarrow> u32 \<Rightarrow> nat \<times> ('pk, 'xo, 'ca) factory" where
  "factory_reset_subfactory_chains_above_height f safe_height =
     reset_chains (\<lambda>n. nd_confirmed_height n > 0 \<and> nd_confirmed_height n \<le> safe_height) f"

definition factory_set_subfactory_chain_confirmed_height :: "('pk, 'xo, 'ca) factory \<Rightarrow> nat \<Rightarrow> u32 \<Rightarrow> ('pk, 'xo, 'ca) factory" where
  "factory_set_subfactory_chain_confirmed_height f i height =
     (if i \<ge> length (f_nodes f) \<or> nd_type (f_nodes f ! i) \<noteq> NODE_PS_SUBFACTORY \<or> nd_chain_len (f_nodes f ! i) = 0 then f
      else set_node i (\<lambda>n. n\<lparr>nd_confirmed_height := height\<rparr>) f)"

definition factory_tick_root :: "('pk, 'xo, 'ca) secp \<Rightarrow> (nat \<Rightarrow> bool) \<Rightarrow> ('pk, 'xo, 'ca) factory \<Rightarrow> int \<times> ('pk, 'xo, 'ca) factory" where
  "factory_tick_root E alloc f =
     (case dw_advance (layers (f_counter f) ! 0) of
        (True, l) \<Rightarrow> (0, f\<lparr>f_counter := (f_counter f)\<lparr>layers := (layers (f_counter f))[0 := l]\<rparr>\<rparr>)
      | (False, _) \<Rightarrow>
          let f = f\<lparr>f_counter := (f_counter f)\<lparr>layers := map (\<lambda>l. l\<lparr>current_state := 0\<rparr>) (layers (f_counter f)),
                current_epoch := current_epoch (f_counter f) + 1\<rparr>\<rparr>;
              f = snd (factory_reset_all_subfactory_chains (reset_ps_chains f))
          in (case rebuild_all E alloc f of (ok, f) \<Rightarrow> (if ok then -1 else 0, f)))"

definition factory_subfactory_chain_advance_unsigned ::
  "('pk, 'xo, 'ca) secp \<Rightarrow> (nat \<Rightarrow> bool) \<Rightarrow> ('pk, 'xo, 'ca) factory \<Rightarrow> nat \<Rightarrow> nat \<Rightarrow> nat \<Rightarrow> u64 \<Rightarrow> bool \<times> ('pk, 'xo, 'ca) factory" where
  "factory_subfactory_chain_advance_unsigned E alloc f leaf_side sub_idx channel_idx delta_sats =
     (if leaf_side \<ge> f_n_leaf_nodes f then (False, f)
      else let leaf = f_nodes f ! (f_leaf_nodes f ! leaf_side) in
      if sub_idx \<ge> length (nd_subfactories leaf) then (False, f)
      else let si = nd_subfactories leaf ! sub_idx; sub = f_nodes f ! si in
      if nd_type sub \<noteq> NODE_PS_SUBFACTORY \<or> \<not> nd_ps_leaf sub \<or> length (nd_outputs sub) < 2
         \<or> channel_idx \<ge> length (nd_outputs sub) - 1 then (False, f)
      else let sstock_vout = length (nd_outputs sub) - 1;
               sstock_amount = amount_sats (nd_outputs sub ! sstock_vout)
      in if delta_sats = 0 then (False, f)
         else if sstock_amount < delta_sats + f_fee_per_tx f + CHANNEL_DUST_LIMIT_SATS then (False, f)
         else let outs = nd_outputs sub;
                  outs = outs[channel_idx := (outs ! channel_idx)\<lparr>amount_sats := amount_sats (outs ! channel_idx) + delta_sats\<rparr>];
                  outs = outs[sstock_vout := (outs ! sstock_vout)\<lparr>amount_sats := sstock_amount - delta_sats - f_fee_per_tx f\<rparr>]
              in rebuild_node_tx E alloc si
                   (set_node si (\<lambda>n. n\<lparr>nd_prev_txid := nd_txid n, nd_prev_chan_amount := sstock_amount, nd_chain_len := nd_chain_len n + 1,
                      nd_prev_outputs := nd_outputs n, nd_outputs := outs\<rparr>) f))"

definition factory_set_leaf_amounts ::
  "('pk, 'xo, 'ca) secp \<Rightarrow> (nat \<Rightarrow> bool) \<Rightarrow> ('pk, 'xo, 'ca) factory \<Rightarrow> nat \<Rightarrow> u64 list \<Rightarrow> bool \<times> ('pk, 'xo, 'ca) factory" where
  "factory_set_leaf_amounts E alloc f leaf_side amounts =
     (if leaf_side \<ge> f_n_leaf_nodes f then (False, f)
      else let ni = f_leaf_nodes f ! leaf_side; node = f_nodes f ! ni in
      if length amounts \<noteq> length (nd_outputs node) then (False, f)
      else if list_ex (\<lambda>a. a < 546) amounts then (False, f)
      else if foldl (+) 0 amounts \<noteq> foldl (\<lambda>s x. s + amount_sats x) 0 (nd_outputs node) then (False, f)
      else rebuild_node_tx E alloc ni
             (set_node ni (\<lambda>n. n\<lparr>nd_outputs := map2 (\<lambda>x a. x\<lparr>amount_sats := a\<rparr>) (nd_outputs n) amounts\<rparr>) f))"

section \<open>Look-ups\<close>

text \<open>From a node up to the root, at most \<open>FACTORY_MAX_NODES\<close> steps.\<close>

fun parent_walk :: "nat \<Rightarrow> ('pk, 'xo, 'ca) factory \<Rightarrow> nat option \<Rightarrow> nat list" where
  "parent_walk (Suc n) f (Some i) = i # parent_walk n f (nd_parent (f_nodes f ! i))"
| "parent_walk n f i = []"

definition factory_collect_path_to_root :: "('pk, 'xo, 'ca) factory \<Rightarrow> nat \<Rightarrow> nat \<Rightarrow> nat list" where
  "factory_collect_path_to_root f start max_path =
     (if start \<ge> length (f_nodes f) \<or> max_path = 0 then []
      else take max_path (rev (parent_walk FACTORY_MAX_NODES f (Some start))))"

definition factory_get_subtree_clients :: "('pk, 'xo, 'ca) factory \<Rightarrow> nat \<Rightarrow> nat \<Rightarrow> nat list" where
  "factory_get_subtree_clients f i max_clients =
     (if i \<ge> length (f_nodes f) then [] else take max_clients (filter (\<lambda>s. s \<noteq> 0) (nd_signers (f_nodes f ! i))))"

definition factory_find_leaf_for_client :: "('pk, 'xo, 'ca) factory \<Rightarrow> nat \<Rightarrow> nat option" where
  "factory_find_leaf_for_client f client =
     (if client = 0 then None
      else find (\<lambda>ni. client \<in> set (nd_signers (f_nodes f ! ni))) (map ((!) (f_leaf_nodes f)) [0..<f_n_leaf_nodes f]))"

definition factory_find_signer_slot :: "('pk, 'xo, 'ca) factory \<Rightarrow> nat \<Rightarrow> nat \<Rightarrow> nat option" where
  "factory_find_signer_slot f i participant =
     (if i \<ge> length (f_nodes f) then None
      else let signers = nd_signers (f_nodes f ! i) in find (\<lambda>s. signers ! s = participant) [0..<length signers])"

definition factory_count_nodes_for_participant :: "('pk, 'xo, 'ca) factory \<Rightarrow> nat \<Rightarrow> nat" where
  "factory_count_nodes_for_participant f participant = length (filter (\<lambda>n. participant \<in> set (nd_signers n)) (f_nodes f))"

definition factory_client_to_leaf :: "('pk, 'xo, 'ca) factory \<Rightarrow> nat \<Rightarrow> (nat \<times> nat) option" where
  "factory_client_to_leaf f client =
     (if f_level_arity f \<noteq> [] then
        find (\<lambda>(ni, v). nd_signers (f_nodes f ! ni) ! (v + 1) = client + 1)
          (concat (map (\<lambda>li. let ni = f_leaf_nodes f ! li in map (\<lambda>v. (ni, v)) [0..<length (nd_signers (f_nodes f ! ni)) - 1]) [0..<f_n_leaf_nodes f]))
      else if f_leaf_arity f = FACTORY_ARITY_PS \<and> f_ps_k f > 1 then
        let k = f_ps_k f; cap = k * k; leaf_idx = client div cap; sub = (client mod cap) div k; channel = client mod k in
        if leaf_idx \<ge> f_n_leaf_nodes f then None
        else let leaf = f_nodes f ! (f_leaf_nodes f ! leaf_idx) in
          if sub \<ge> length (nd_subfactories leaf) then None else Some (nd_subfactories leaf ! sub, channel)
      else if f_leaf_arity f = FACTORY_ARITY_1 \<or> f_leaf_arity f = FACTORY_ARITY_PS then
        if client \<ge> f_n_leaf_nodes f then None else Some (f_leaf_nodes f ! client, 0)
      else let leaf_idx = client div 2 in
        if leaf_idx \<ge> f_n_leaf_nodes f then None else Some (f_leaf_nodes f ! leaf_idx, client mod 2))"

definition factory_early_warning_time :: "('pk, 'xo, 'ca) factory \<Rightarrow> u32" where
  "factory_early_warning_time f =
     (let cost = (\<lambda>l. if max_states (layer_config l) > 1
                       then ucast (step_blocks (layer_config l)) * (max_states (layer_config l) - 1) else 0);
          ls = layers (f_counter f);
          ewt = foldl (\<lambda>s l. s + cost l) 0 ls;
          has_ps = list_ex (\<lambda>j. nd_ps_leaf (f_nodes f ! (f_leaf_nodes f ! j))) [0..<f_n_leaf_nodes f]
      in if has_ps \<and> n_layers (f_counter f) > 0
         then let leaf_cost = cost (ls ! (n_layers (f_counter f) - 1)) in if ewt > leaf_cost then ewt - leaf_cost else 0
         else ewt)"

definition factory_derive_scid :: "('pk, 'xo, 'ca) factory \<Rightarrow> u32 \<Rightarrow> u32 \<Rightarrow> u64" where
  "factory_derive_scid f leaf_index output_index =
     (push_bit 40 (ucast (dw_counter_epoch (f_counter f))) OR push_bit 16 (ucast (leaf_index AND 0xFFFFFF)))
       OR ucast (output_index AND 0xFFFF)"

end
