(* ===== verification/Factory_Txs.thy ===== *)
theory Factory_Txs
  imports Factory_Struct Factory_Ops Commitment
begin

text \<open>
  The transactions of a built factory: each is the serialisation of a spend of its parent's output, and the
  relative lock it carries is the one the state of its layer asks for.
\<close>

section \<open>Rebuilding touches the transactions only\<close>

definition txless :: "('xo, 'ca) factory_node \<Rightarrow> ('xo, 'ca) factory_node" where
  "txless n = n\<lparr>nd_nsequence := 0, nd_unsigned_tx := tx_buf_init (\<lambda>_. True) 0, nd_txid := [], nd_built := False, nd_signed := False\<rparr>"

lemma txless_fields:
  assumes "txless m = txless n"
  shows "nd_type m = nd_type n" "nd_signers m = nd_signers n" "nd_keyagg m = nd_keyagg n" "nd_tweaked m = nd_tweaked n"
    "nd_spk m = nd_spk n" "nd_outputs m = nd_outputs n" "nd_layer m = nd_layer n" "nd_parent m = nd_parent n" "nd_vout m = nd_vout n"
    "nd_input m = nd_input n" "nd_timeout_leaf m = nd_timeout_leaf n" "nd_parity m = nd_parity n" "nd_ps_leaf m = nd_ps_leaf n"
    "nd_static m = nd_static n" "nd_cltv m = nd_cltv n"
  using arg_cong[OF assms, of nd_type] arg_cong[OF assms, of nd_signers] arg_cong[OF assms, of nd_keyagg] arg_cong[OF assms, of nd_tweaked]
    arg_cong[OF assms, of nd_spk] arg_cong[OF assms, of nd_outputs] arg_cong[OF assms, of nd_layer] arg_cong[OF assms, of nd_parent]
    arg_cong[OF assms, of nd_vout] arg_cong[OF assms, of nd_input] arg_cong[OF assms, of nd_timeout_leaf] arg_cong[OF assms, of nd_parity]
    arg_cong[OF assms, of nd_ps_leaf] arg_cong[OF assms, of nd_static] arg_cong[OF assms, of nd_cltv]
  by (simp_all add: txless_def)

definition same_tree :: "('pk, 'xo, 'ca) factory \<Rightarrow> ('pk, 'xo, 'ca) factory \<Rightarrow> bool" where
  "same_tree f g \<longleftrightarrow> settings g = settings f \<and> f_leaf_nodes g = f_leaf_nodes f \<and> length (f_nodes g) = length (f_nodes f)
     \<and> (\<forall>i. txless (f_nodes g ! i) = txless (f_nodes f ! i))"

lemma same_tree_refl [simp]: "same_tree f f"
  by (simp add: same_tree_def)

lemma same_tree_trans: "same_tree f g \<Longrightarrow> same_tree g h \<Longrightarrow> same_tree f h"
  by (simp add: same_tree_def)

lemma same_treeD:
  assumes "same_tree f g"
  shows "settings g = settings f" "f_leaf_nodes g = f_leaf_nodes f" "length (f_nodes g) = length (f_nodes f)"
    "txless (f_nodes g ! i) = txless (f_nodes f ! i)"
  using assms by (simp_all add: same_tree_def)

lemma same_tree_set_node: "(\<And>n. txless (u n) = txless n) \<Longrightarrow> same_tree f (set_node i u f)"
  by (simp add: same_tree_def)

lemma same_tree_node_nsequence:
  assumes "same_tree f g"
  shows "node_nsequence g i = node_nsequence f i"
  unfolding node_nsequence_def Let_def same_treeD(2)[OF assms] settings_fields[OF same_treeD(1)[OF assms]]
    txless_fields[OF same_treeD(4)[OF assms]]
  by (rule refl)

lemma build_node_tx_frame:
  assumes "build_node_tx E alloc i f = (ok, g)"
  shows "same_tree f g" "j \<noteq> i \<Longrightarrow> f_nodes g ! j = f_nodes f ! j"
proof -
  have "same_tree f g \<and> (j \<noteq> i \<longrightarrow> f_nodes g ! j = f_nodes f ! j)"
  proof (cases "node_nsequence f i")
    case None
    then show ?thesis using assms by (simp add: build_node_tx_def)
  next
    case (Some s)
    let ?b = "build_unsigned_tx alloc (sha256 E) (nd_unsigned_tx (f_nodes f ! i)) True (fst (node_outpoint f (f_nodes f ! i)))
        (snd (node_outpoint f (f_nodes f ! i))) s (nd_outputs (f_nodes f ! i))"
    let ?f1 = "set_node i (\<lambda>n. n\<lparr>nd_nsequence := s, nd_unsigned_tx := fst (snd ?b)\<rparr>) f"
    have "same_tree f ?f1" "\<And>t. same_tree ?f1 (set_node i (\<lambda>n. n\<lparr>nd_txid := reverse_bytes t, nd_built := True, nd_signed := False\<rparr>) ?f1)"
      by (rule same_tree_set_node; simp add: txless_def)+
    moreover have "g = ?f1 \<or> (\<exists>t. g = set_node i (\<lambda>n. n\<lparr>nd_txid := reverse_bytes t, nd_built := True, nd_signed := False\<rparr>) ?f1)"
      using assms Some by (auto simp: build_node_tx_def Let_def simp del: set_node_nth split: prod.split_asm option.split_asm if_split_asm)
    ultimately show ?thesis
      using same_tree_trans by auto
  qed
  then show "same_tree f g" "j \<noteq> i \<Longrightarrow> f_nodes g ! j = f_nodes f ! j" by auto
qed

lemma build_txs_frame:
  "build_txs E alloc js f = (ok, g) \<Longrightarrow> same_tree f g \<and> (\<forall>j. j \<notin> set js \<longrightarrow> f_nodes g ! j = f_nodes f ! j)"
proof (induction js arbitrary: f)
  case (Cons i js)
  obtain ok1 f1 where 1: "build_node_tx E alloc i f = (ok1, f1)" by fastforce
  show ?case
    using Cons build_node_tx_frame[OF 1] same_tree_trans[of f f1 g] 1 by (cases ok1) auto
qed simp


section \<open>The transactions of a built tree\<close>

definition node_tx :: "('pk, 'xo, 'ca) factory \<Rightarrow> nat \<Rightarrow> tx" where
  "node_tx f i = one_input_tx 2 \<lparr>prev_txid = fst (node_outpoint f (f_nodes f ! i)), prev_vout = snd (node_outpoint f (f_nodes f ! i)),
     nsequence = nd_nsequence (f_nodes f ! i)\<rparr> (nd_outputs (f_nodes f ! i)) 0"

definition tx_built :: "('pk, 'xo, 'ca) secp \<Rightarrow> ('pk, 'xo, 'ca) factory \<Rightarrow> nat \<Rightarrow> bool" where
  "tx_built E f i \<longleftrightarrow> buf_data (nd_unsigned_tx (f_nodes f ! i)) = ser_tx (node_tx f i)
     \<and> nd_txid (f_nodes f ! i) = sha256 E (sha256 E (ser_tx (node_tx f i))) \<and> node_nsequence f i = Some (nd_nsequence (f_nodes f ! i))"

lemma node_outpoint_cong:
  assumes "same_tree f g" and "\<And>p. nd_parent (f_nodes f ! i) = Some p \<Longrightarrow> nd_txid (f_nodes g ! p) = nd_txid (f_nodes f ! p)"
  shows "node_outpoint g (f_nodes g ! i) = node_outpoint f (f_nodes f ! i)"
  using assms(2) txless_fields(8,9)[OF same_treeD(4)[OF assms(1), of i]] settings_fields[OF same_treeD(1)[OF assms(1)]]
  by (simp add: node_outpoint_def split: option.split)

lemma tx_built_cong:
  assumes "same_tree f g" and "f_nodes g ! i = f_nodes f ! i"
    and "\<And>p. nd_parent (f_nodes f ! i) = Some p \<Longrightarrow> f_nodes g ! p = f_nodes f ! p"
  shows "tx_built E g i = tx_built E f i"
proof -
  have "node_tx g i = node_tx f i"
    using node_outpoint_cong[OF assms(1), of i] assms(2,3) by (simp add: node_tx_def)
  then show ?thesis
    using assms(2) same_tree_node_nsequence[OF assms(1)] by (simp add: tx_built_def)
qed

lemma build_node_tx_built:
  assumes "build_node_tx E alloc i f = (True, g)" and "i < length (f_nodes f)" and "length (fst (node_outpoint f (f_nodes f ! i))) = 32"
    and "\<And>p. nd_parent (f_nodes f ! i) = Some p \<Longrightarrow> p \<noteq> i"
  shows "tx_built E g i"
proof -
  obtain s where s: "node_nsequence f i = Some s"
    using assms(1) by (cases "node_nsequence f i") (auto simp: build_node_tx_def)
  let ?t = "one_input_tx 2 \<lparr>prev_txid = fst (node_outpoint f (f_nodes f ! i)), prev_vout = snd (node_outpoint f (f_nodes f ! i)), nsequence = s\<rparr>
    (nd_outputs (f_nodes f ! i)) 0"
  let ?b = "built alloc (sha256 E) (nd_unsigned_tx (f_nodes f ! i)) True ?t"
  have "build_unsigned_tx alloc (sha256 E) (nd_unsigned_tx (f_nodes f ! i)) True (fst (node_outpoint f (f_nodes f ! i)))
        (snd (node_outpoint f (f_nodes f ! i))) s (nd_outputs (f_nodes f ! i)) = ?b"
    using build_locktime_built[OF assms(3)] by (simp add: build_unsigned_tx_def)
  then obtain t where ok: "fst ?b" and t: "snd (snd ?b) = Some t"
    and g: "g = set_node i (\<lambda>n. n\<lparr>nd_txid := reverse_bytes t, nd_built := True, nd_signed := False\<rparr>)
      (set_node i (\<lambda>n. n\<lparr>nd_nsequence := s, nd_unsigned_tx := fst (snd ?b)\<rparr>) f)"
    using assms(1) s by (auto simp: build_node_tx_def Let_def simp del: set_node_nth split: prod.split_asm option.split_asm if_split_asm)
  have at: "f_nodes g ! i = (f_nodes f ! i)\<lparr>nd_nsequence := s, nd_unsigned_tx := fst (snd ?b), nd_txid := reverse_bytes t, nd_built := True, nd_signed := False\<rparr>"
    using assms(2) by (simp add: g)
  have "node_outpoint g (f_nodes g ! i) = node_outpoint f (f_nodes f ! i)"
    using node_outpoint_cong[OF build_node_tx_frame(1)[OF assms(1)], of i] build_node_tx_frame(2)[OF assms(1)] assms(4) by simp
  then have "node_tx g i = ?t"
    by (simp add: node_tx_def at)
  then show ?thesis
    using built_correct[OF ok] t s same_tree_node_nsequence[OF build_node_tx_frame(1)[OF assms(1)], of i]
    by (simp add: tx_built_def at reverse_bytes_rev)
qed

lemma build_txs_built:
  assumes E: "secp_lengths E"
  shows "build_txs E alloc [k..<n] f = (True, g) \<Longrightarrow> k \<le> n \<Longrightarrow> n \<le> length (f_nodes f) \<Longrightarrow> length (f_funding_txid f) = 32 \<Longrightarrow>
    (\<And>i p. i < n \<Longrightarrow> nd_parent (f_nodes f ! i) = Some p \<Longrightarrow> p < i) \<Longrightarrow> (\<And>i. i < k \<Longrightarrow> tx_built E f i) \<Longrightarrow> i < n \<Longrightarrow> tx_built E g i"
proof (induction "n - k" arbitrary: k f)
  case 0
  then show ?case by simp
next
  case (Suc m)
  then have k: "k < n" and "[k..<n] = k # [Suc k..<n]"
    by (simp_all add: upt_conv_Cons)
  then obtain f1 where 1: "build_node_tx E alloc k f = (True, f1)" and 2: "build_txs E alloc [Suc k..<n] f1 = (True, g)"
    using Suc.prems(1) by (auto split: prod.split_asm if_split_asm)
  note F = build_node_tx_frame[OF 1]
  have par: "nd_parent (f_nodes f1 ! i) = nd_parent (f_nodes f ! i)" for i
    using txless_fields(8)[OF same_treeD(4)[OF F(1)]] .
  have "length (fst (node_outpoint f (f_nodes f ! k))) = 32"
    using Suc.prems(4) Suc.prems(5)[OF k] Suc.prems(6) E by (auto simp: node_outpoint_def tx_built_def secp_lengths_def split: option.split)
  then have "tx_built E f1 k"
    using build_node_tx_built[OF 1] k Suc.prems(3) Suc.prems(5)[OF k] by (metis less_irrefl less_le_trans)
  moreover have "tx_built E f1 i" if "i < k" for i
  proof -
    have "nd_parent (f_nodes f ! i) = Some p \<Longrightarrow> f_nodes f1 ! p = f_nodes f ! p" for p
      using Suc.prems(5)[of i p] F(2)[of p] that k by simp
    then show ?thesis
      using tx_built_cong[OF F(1) F(2)] Suc.prems(6) that by simp
  qed
  ultimately have "tx_built E f1 i" if "i < Suc k" for i
    using that less_Suc_eq by auto
  then show ?case
    using Suc.hyps(1)[OF _ 2] Suc.hyps(2) Suc.prems(3,4,5,7) k par same_treeD(3)[OF F(1)] settings_fields(12)[OF same_treeD(1)[OF F(1)]] by simp
qed


section \<open>Soundness of the tree\<close>

text \<open>The factory the descent starts from, and the clients in their order.\<close>

definition fee_set :: "('pk, 'xo, 'ca) factory \<Rightarrow> ('pk, 'xo, 'ca) factory" where
  "fee_set f = (if f_fee f \<noteq> None then f\<lparr>f_fee_per_tx := fee_for_factory_tx (f_fee f) 3\<rparr> else f)"

definition tree_layers :: "('pk, 'xo, 'ca) factory \<Rightarrow> nat" where
  "tree_layers f = dw_n_layers_for (fst (tree_metrics (fee_set f) (f_participants f - 1))) (f_static_depth f)"

definition tree_leaves :: "('pk, 'xo, 'ca) factory \<Rightarrow> nat" where
  "tree_leaves f = snd (tree_metrics (fee_set f) (f_participants f - 1))"

definition tree_start :: "('pk, 'xo, 'ca) factory \<Rightarrow> ('pk, 'xo, 'ca) factory" where
  "tree_start f = (init_leaf_layers (tree_leaves f)
     ((fee_set f)\<lparr>f_counter := dw_counter_init (tree_layers f) (f_step_blocks f) (f_states_per_layer f)\<rparr>))\<lparr>f_nodes := []\<rparr>"

definition tree_clients :: "(nat list \<Rightarrow> nat list) \<Rightarrow> ('pk, 'xo, 'ca) factory \<Rightarrow> nat list" where
  "tree_clients order f = (if f_placement f \<noteq> PLACEMENT_SEQUENTIAL \<and> f_participants f - 1 > 1 then order [1..<f_participants f - 1 + 1]
     else [1..<f_participants f - 1 + 1])"

lemma fee_set_fields:
  "f_participants (fee_set f) = f_participants f" "f_step_blocks (fee_set f) = f_step_blocks f"
  "f_states_per_layer (fee_set f) = f_states_per_layer f" "f_static_depth (fee_set f) = f_static_depth f"
  "f_placement (fee_set f) = f_placement f" "f_funding_amount (fee_set f) = f_funding_amount f" "f_config (fee_set f) = f_config f"
  by (simp_all add: fee_set_def)

lemma init_leaf_layers_fields:
  "f_participants (init_leaf_layers n f) = f_participants f" "f_placement (init_leaf_layers n f) = f_placement f"
  "f_funding_amount (init_leaf_layers n f) = f_funding_amount f" "f_fee_per_tx (init_leaf_layers n f) = f_fee_per_tx f"
  by (simp_all add: init_leaf_layers_def)

lemma tree_start_fields [simp]:
  "f_nodes (tree_start f) = []" "f_funding_txid (tree_start f) = f_funding_txid f" "f_funding_vout (tree_start f) = f_funding_vout f"
  "f_funding_amount (tree_start f) = f_funding_amount f" "f_config (tree_start f) = f_config f" "f_pubkeys (tree_start f) = f_pubkeys f"
  "f_level_arity (tree_start f) = f_level_arity f" "f_leaf_arity (tree_start f) = f_leaf_arity f" "f_static_depth (tree_start f) = f_static_depth f"
  "f_leaf_nodes (tree_start f) = f_leaf_nodes f" "f_per_leaf (tree_start f) = f_per_leaf f" "f_shachain (tree_start f) = f_shachain f"
  "f_n_leaf_nodes (tree_start f) = tree_leaves f" "f_step_blocks (tree_start f) = f_step_blocks f"
  "f_states_per_layer (tree_start f) = f_states_per_layer f" "f_ps_k (tree_start f) = f_ps_k f" "f_cltv_timeout (tree_start f) = f_cltv_timeout f"
  "f_counter (tree_start f) = dw_counter_init (tree_layers f) (f_step_blocks f) (f_states_per_layer f)"
  by (simp_all add: tree_start_def init_leaf_layers_def fee_set_def)

lemma factory_build_tree_cases:
  assumes "factory_build_tree E alloc order f = Some g"
  obtains h lc where "2 \<le> f_participants f" and "tree_leaves f \<le> max_leaves (f_config f)"
    and "build_subtree (f_participants f - 1) E alloc (tree_start f) (tree_clients order f) None 0 0 (f_funding_amount f) 0 = Some (h, lc)"
    and "build_txs E alloc [0..<length (f_nodes h)] h = (True, g)"
proof -
  note R = assms[unfolded factory_build_tree_def Let_def, folded fee_set_def tree_leaves_def, unfolded fee_set_fields,
      folded tree_leaves_def tree_layers_def, unfolded init_leaf_layers_fields, folded tree_start_def]
  show thesis
    using R that by (auto simp: build_all_unsigned_txs_def tree_clients_def fee_set_fields init_leaf_layers_fields
        split: if_split_asm option.split_asm prod.split_asm)
qed

lemma same_tree_good:
  assumes "same_tree f g"
  shows "node_good E g i = node_good E f i" "node_linked g b i = node_linked f b i"
  by (simp_all add: node_good_def node_keyed_def node_balanced_def node_layered_def node_linked_def txless_fields[OF same_treeD(4)[OF assms]]
      settings_fields[OF same_treeD(1)[OF assms]] settings_cong[OF same_treeD(1)[OF assms]] cong: option.case_cong)

lemma factory_build_tree_nodes:
  assumes E: "secp_lengths E" and txid: "length (f_funding_txid f) = 32" and small: "max_outputs_per_node (f_config f) < 2 ^ 32"
    and build: "factory_build_tree E alloc order f = Some g" and i: "i < length (f_nodes g)"
  shows "tx_built E g i" "node_good E g i" "i = 0 \<Longrightarrow> nd_parent (f_nodes g ! i) = None \<and> nd_input (f_nodes g ! i) = f_funding_amount f"
    "0 < i \<Longrightarrow> node_linked g 0 i" "f_pubkeys g = f_pubkeys f" "f_funding_txid g = f_funding_txid f" "f_funding_vout g = f_funding_vout f"
proof -
  obtain h lc where sub: "build_subtree (f_participants f - 1) E alloc (tree_start f) (tree_clients order f) None 0 0 (f_funding_amount f) 0 = Some (h, lc)"
    and txs: "build_txs E alloc [0..<length (f_nodes h)] h = (True, g)"
    by (rule factory_build_tree_cases[OF build])
  have D: "subtree_done E (tree_start f) None 0 (f_funding_amount f) h"
    using build_subtree_done[OF sub] small by (simp add: small_config_def)
  have S: "settings h = settings (tree_start f)"
    using D by (simp add: subtree_done_def grows_def)
  have T: "same_tree h g"
    using build_txs_frame[OF txs] by simp
  have ih: "i < length (f_nodes h)"
    using i same_treeD(3)[OF T] by simp
  have lk: "node_linked h 0 j" if "0 < j" "j < length (f_nodes h)" for j
    using D that by (simp add: subtree_done_def)
  have root: "nd_parent (f_nodes h ! 0) = None"
    using D by (simp add: subtree_done_def)
  have "p < j" if "nd_parent (f_nodes h ! j) = Some p" "j < length (f_nodes h)" for j p
    using lk[of j] root that by (cases "j = 0") (auto simp: node_linked_def)
  then show "tx_built E g i"
    using build_txs_built[OF E txs] ih txid settings_fields(12)[OF S] by simp
  show "node_good E g i"
    using D ih by (simp add: same_tree_good[OF T] subtree_done_def)
  show "0 < i \<Longrightarrow> node_linked g 0 i"
    using lk ih by (simp add: same_tree_good[OF T])
  show "i = 0 \<Longrightarrow> nd_parent (f_nodes g ! i) = None \<and> nd_input (f_nodes g ! i) = f_funding_amount f"
    using D by (simp add: subtree_done_def txless_fields[OF same_treeD(4)[OF T]])
  show "f_pubkeys g = f_pubkeys f" "f_funding_txid g = f_funding_txid f" "f_funding_vout g = f_funding_vout f"
    by (simp_all add: settings_fields[OF S] settings_fields[OF same_treeD(1)[OF T]])
qed

text \<open>C4: Every transaction of a built factory spends what it claims to.  The first spends the funding output;
  every other names the id of an earlier transaction of the tree and an output of it that carries exactly the amount the
  node counts on and pays the node's own key, the aggregate of the LSP and the clients below it, tweaked with the time-out
  leaf if there is one.  The bytes to sign are the serialisation of that spend, and the id is their double hash.\<close>

theorem factory_tree_spends:
  fixes E :: "('pk, 'xo, 'ca) secp" and f g :: "('pk, 'xo, 'ca) factory"
  assumes "secp_lengths E" and "length (f_funding_txid f) = 32" and "max_outputs_per_node (f_config f) < 2 ^ 32"
    and "factory_build_tree E alloc order f = Some g" and "i < length (f_nodes g)" and "n = f_nodes g ! i"
  shows "buf_data (nd_unsigned_tx n) = ser_tx (node_tx g i) \<and> nd_txid n = sha256 E (sha256 E (ser_tx (node_tx g i)))
    \<and> (case nd_parent n of
         None \<Rightarrow> i = 0 \<and> nd_input n = f_funding_amount f
           \<and> map (\<lambda>inp. (prev_txid inp, prev_vout inp)) (tx_ins (node_tx g i)) = [(f_funding_txid f, f_funding_vout f)]
       | Some p \<Rightarrow> p < i \<and> nd_vout n < length (tx_outs (node_tx g p))
           \<and> map (\<lambda>inp. (prev_txid inp, prev_vout inp)) (tx_ins (node_tx g i)) = [(nd_txid (f_nodes g ! p), of_nat (nd_vout n))]
           \<and> tx_outs (node_tx g p) ! nd_vout n = \<lparr>amount_sats = nd_input n, script_pubkey = nd_spk n\<rparr>)
    \<and> hd (nd_signers n) = 0
    \<and> (\<exists>parity. build_musig_p2tr_spk E (map ((!) (f_pubkeys f)) (nd_signers n))
           (case nd_timeout_leaf n of None \<Rightarrow> None | Some l \<Rightarrow> tapscript_merkle_root E [l])
         = Some (nd_spk n, nd_tweaked n, parity, nd_keyagg n) \<and> nd_parity n = (nd_timeout_leaf n \<noteq> None \<and> parity))"
proof -
  note N = factory_build_tree_nodes[OF assms(1-5)]
  have "case nd_parent n of
         None \<Rightarrow> i = 0 \<and> nd_input n = f_funding_amount f
           \<and> map (\<lambda>inp. (prev_txid inp, prev_vout inp)) (tx_ins (node_tx g i)) = [(f_funding_txid f, f_funding_vout f)]
       | Some p \<Rightarrow> p < i \<and> nd_vout n < length (tx_outs (node_tx g p))
           \<and> map (\<lambda>inp. (prev_txid inp, prev_vout inp)) (tx_ins (node_tx g i)) = [(nd_txid (f_nodes g ! p), of_nat (nd_vout n))]
           \<and> tx_outs (node_tx g p) ! nd_vout n = \<lparr>amount_sats = nd_input n, script_pubkey = nd_spk n\<rparr>"
    using N(3,4,6,7) assms(6) by (cases "i = 0") (auto simp: node_tx_def node_outpoint_def node_linked_def split: option.split_asm)
  then show ?thesis
    using N(1,2,5) assms(6) by (simp add: tx_built_def node_good_def node_keyed_def)
qed

text \<open>C15: The amounts add up.  A transaction of a built factory pays out exactly what it takes in less the fee.  For kickoff
  and sub-factory transactions the input is known to cover the fee; a state transaction whose input
  does not pays out 2 to the 64 too much.\<close>

theorem factory_tree_conserves:
  fixes E :: "('pk, 'xo, 'ca) secp" and f g :: "('pk, 'xo, 'ca) factory"
  assumes "secp_lengths E" and "length (f_funding_txid f) = 32" and "max_outputs_per_node (f_config f) < 2 ^ 32"
    and "factory_build_tree E alloc order f = Some g" and "i < length (f_nodes g)" and "n = f_nodes g ! i"
  shows "sum_list (map (\<lambda>out. unat (amount_sats out)) (tx_outs (node_tx g i))) + unat (f_fee_per_tx g)
           = unat (nd_input n) + (if nd_input n < f_fee_per_tx g then 2 ^ 64 else 0)
    \<and> (nd_type n \<noteq> NODE_STATE \<longrightarrow> f_fee_per_tx g < nd_input n)"
proof -
  have B: "paid (nd_outputs n) = unat (nd_input n - f_fee_per_tx g)" "nd_type n \<noteq> NODE_STATE \<longrightarrow> f_fee_per_tx g < nd_input n"
    using factory_build_tree_nodes(2)[OF assms(1-5)] assms(6) by (simp_all add: node_good_def node_balanced_def)
  have "sum_list (map (\<lambda>out. unat (amount_sats out)) (tx_outs (node_tx g i))) = unat (nd_input n - f_fee_per_tx g)"
    using B(1) assms(6) by (simp add: node_tx_def paid_def)
  moreover have "unat (f_fee_per_tx g) < 2 ^ 64"
    using unsigned_less[of "f_fee_per_tx g", where 'a = nat] by simp
  ultimately show ?thesis
    using B(2) by (simp add: unat_sub_if_size word_size word_le_nat_alt word_less_nat_alt)
qed


section \<open>A small factory\<close>

definition flat_secp :: "(nat, nat, nat) secp" where
  "flat_secp =
     \<lparr>sha256 = (\<lambda>x. replicate 32 0), xonly_serialize = (\<lambda>k. replicate 32 0), xonly_from_pubkey = (\<lambda>p. Some (p, False)),
      xonly_tweak_add = (\<lambda>k t. Some k), musig_pubkey_agg = (\<lambda>ps. Some (sum_list ps, sum_list ps)),
      musig_pubkey_xonly_tweak_add = (\<lambda>k t. Some k)\<rparr>"

lemma flat_secp_lengths [simp]: "secp_lengths flat_secp"
  by (simp add: secp_lengths_def flat_secp_def)

definition sample_factory :: "nat \<Rightarrow> u64 \<Rightarrow> u64 \<Rightarrow> (nat, nat, nat) factory" where
  "sample_factory n fee funding =
     \<lparr>f_pubkeys = take n [5, 6, 7, 8], f_participants = n, f_nodes = [], f_funding_txid = replicate 32 7,
      f_funding_vout = 1, f_funding_amount = funding, f_funding_spk = [], f_counter = dw_counter_init 1 10 4,
      f_step_blocks = 10, f_states_per_layer = 4, f_fee_per_tx = fee, f_fee = None, f_cltv_timeout = 0,
      f_shachain = False, f_leaf_layers = replicate 3 (dw_layer_init 10 4), f_n_leaf_nodes = 0,
      f_leaf_nodes = replicate FACTORY_MAX_LEAVES 0, f_per_leaf = False, f_leaf_arity = FACTORY_ARITY_1, f_level_arity = [],
      f_static_depth = 0, f_l_stock_csv = 0, f_ps_k = 1, f_created_block = 0, f_active_blocks = 0, f_dying_blocks = 0,
      f_placement = PLACEMENT_SEQUENTIAL, f_config = factory_config_default\<lparr>max_leaves := 3\<rparr>\<rparr>"

lemma sample_factory_fields [simp]:
  "length (f_funding_txid (sample_factory n fee x)) = 32" "max_outputs_per_node (f_config (sample_factory n fee x)) = 16"
  "f_funding_amount (sample_factory n fee x) = x" "f_participants (sample_factory n fee x) = n"
  "f_level_arity (sample_factory n fee x) = []" "f_leaf_arity (sample_factory n fee x) = FACTORY_ARITY_1"
  "length (f_leaf_nodes (sample_factory n fee x)) = FACTORY_MAX_LEAVES" "f_placement (sample_factory n fee x) = PLACEMENT_SEQUENTIAL"
  by (simp_all add: sample_factory_def factory_config_default_def FACTORY_MAX_OUTPUTS_def)

lemma sample_built:
  obtains g where "factory_build_tree flat_secp (\<lambda>_. True) id (sample_factory 3 200 100000) = Some g" and "length (f_nodes g) = 6"
proof -
  have "map_option (\<lambda>g. length (f_nodes g)) (factory_build_tree flat_secp (\<lambda>_. True) id (sample_factory 3 200 100000)) = Some 6"
    by code_simp
  with that show thesis by auto
qed

theorem factory_tree_spends_witness:
  "\<exists>g. factory_build_tree flat_secp (\<lambda>_. True) id (sample_factory 3 200 100000) = Some g
     \<and> buf_data (nd_unsigned_tx (f_nodes g ! 3)) = ser_tx (node_tx g 3) \<and> hd (nd_signers (f_nodes g ! 3)) = 0"
proof -
  obtain g where g: "factory_build_tree flat_secp (\<lambda>_. True) id (sample_factory 3 200 100000) = Some g" "length (f_nodes g) = 6"
    by (rule sample_built)
  show ?thesis
    using factory_tree_spends[OF flat_secp_lengths _ _ g(1), of 3 "f_nodes g ! 3"] g by simp
qed

theorem factory_tree_conserves_witness:
  "\<exists>g. factory_build_tree flat_secp (\<lambda>_. True) id (sample_factory 3 200 100000) = Some g
     \<and> sum_list (map (\<lambda>out. unat (amount_sats out)) (tx_outs (node_tx g 3))) + unat (f_fee_per_tx g)
           = unat (nd_input (f_nodes g ! 3)) + (if nd_input (f_nodes g ! 3) < f_fee_per_tx g then 2 ^ 64 else 0)"
proof -
  obtain g where g: "factory_build_tree flat_secp (\<lambda>_. True) id (sample_factory 3 200 100000) = Some g" "length (f_nodes g) = 6"
    by (rule sample_built)
  show ?thesis
    using factory_tree_conserves[OF flat_secp_lengths _ _ g(1), of 3 "f_nodes g ! 3"] g by auto
qed


end
