(* ===== verification/Factory_Leaves.thy ===== *)
theory Factory_Leaves
  imports Factory_Txs
begin

text \<open>
  The leaves of a factory of one or two clients a leaf: in the order of the clients, each with the channels of its own
  clients first, and where \<^verbatim>\<open>factory_client_to_leaf\<close> looks for them.
\<close>

section \<open>Groups of clients\<close>

fun chunks :: "nat \<Rightarrow> 'a list \<Rightarrow> 'a list list" where
  "chunks a [] = []"
| "chunks a (x # xs) = (x # take (a - 1) xs) # chunks a (drop (a - 1) xs)"

lemma chunks_rec: "xs \<noteq> [] \<Longrightarrow> 0 < a \<Longrightarrow> chunks a xs = take a xs # chunks a (drop a xs)"
  by (cases xs; cases a) auto

lemma chunks_short: "xs \<noteq> [] \<Longrightarrow> length xs \<le> a \<Longrightarrow> chunks a xs = [xs]"
  by (cases xs) auto

lemma chunks_append: "0 < a \<Longrightarrow> length xs = m * a \<Longrightarrow> chunks a (xs @ ys) = chunks a xs @ chunks a ys"
proof (induction m arbitrary: xs)
  case (Suc m)
  then have "xs \<noteq> []" "a \<le> length xs" "length (drop a xs) = m * a"
    by auto
  then show ?case
    using Suc.IH[OF Suc.prems(1), of "drop a xs"] Suc.prems(1) chunks_rec[of "xs @ ys" a] chunks_rec[of xs a] by simp
qed simp

lemma chunks_nth: "c < length xs \<Longrightarrow> 0 < a \<Longrightarrow>
  c div a < length (chunks a xs) \<and> c mod a < length (chunks a xs ! (c div a)) \<and> chunks a xs ! (c div a) ! (c mod a) = xs ! c"
proof (induction "length xs" arbitrary: xs c rule: less_induct)
  case less
  then have r: "chunks a xs = take a xs # chunks a (drop a xs)"
    using chunks_rec[of xs a] by fastforce
  show ?case
  proof (cases "c < a")
    case True
    then show ?thesis using less.prems by (simp add: r)
  next
    case False
    then have "c - a < length (drop a xs)" "length (drop a xs) < length xs"
      using less.prems by auto
    then have IH: "(c - a) div a < length (chunks a (drop a xs)) \<and> (c - a) mod a < length (chunks a (drop a xs) ! ((c - a) div a))
        \<and> chunks a (drop a xs) ! ((c - a) div a) ! ((c - a) mod a) = drop a xs ! (c - a)"
      using less.hyps less.prems(2) by blast
    have "c div a = Suc ((c - a) div a)" "c mod a = (c - a) mod a"
      using False less.prems(2) by (simp_all add: le_div_geq le_mod_geq)
    then show ?thesis
      using IH False less.prems by (simp add: r)
  qed
qed

lemma chunks_count: "length (chunks 1 xs) = length xs" "length (chunks 2 xs) = (length xs + 1) div 2"
proof -
  show "length (chunks 1 xs) = length xs"
    by (induction xs) auto
  show "length (chunks 2 xs) = (length xs + 1) div 2"
    by (induction "2 :: nat" xs rule: chunks.induct) (auto simp: chunks_rec)
qed

lemma chunks_concat: "0 < a \<Longrightarrow> concat (chunks a xs) = xs"
  by (induction a xs rule: chunks.induct) auto

lemma split_chunks:
  assumes "a = 1 \<or> a = 2" and "\<not> length cs \<le> a"
  obtains p q where "split_clients_for_arity a (length cs) = [p, q]" and "0 < p" and "0 < q" and "p + q = length cs"
    and "chunks a cs = chunks a (take p cs) @ chunks a (drop p cs)"
proof (cases "a = 1")
  case True
  let ?p = "length cs div 2"
  have "chunks 1 (take ?p cs @ drop ?p cs) = chunks 1 (take ?p cs) @ chunks 1 (drop ?p cs)"
    by (rule chunks_append[where m = ?p]) auto
  then show thesis
    using True assms(2) by (intro that[of ?p "length cs - ?p"]) (auto simp: split_clients_for_arity_def FACTORY_ARITY_PS_def)
next
  case False
  then have a: "a = 2" using assms(1) by simp
  let ?m = "((length cs + 1) div 2) div 2"
  have m: "2 * ?m < length cs" "0 < ?m"
    using assms(2) a by auto
  have "chunks 2 (take (2 * ?m) cs @ drop (2 * ?m) cs) = chunks 2 (take (2 * ?m) cs) @ chunks 2 (drop (2 * ?m) cs)"
    using m by (intro chunks_append[where m = ?m]) auto
  then show thesis
    using a m by (intro that[of "2 * ?m" "length cs - 2 * ?m"]) (auto simp: split_clients_for_arity_def FACTORY_ARITY_PS_def Let_def mult.commute)
qed


section \<open>Where the leaves are\<close>

text \<open>A leaf of its clients: a state node, signed by the LSP and them, that pays their channels first.\<close>

definition leaf_of :: "('pk, 'xo, 'ca) secp \<Rightarrow> ('pk, 'xo, 'ca) factory \<Rightarrow> nat list \<Rightarrow> ('xo, 'ca) factory_node \<Rightarrow> bool" where
  "leaf_of E f cs n \<longleftrightarrow> nd_type n = NODE_STATE \<and> \<not> nd_static n \<and> \<not> nd_ps_leaf n \<and> nd_signers n = 0 # cs
     \<and> (\<forall>v<length cs. v < length (nd_outputs n) \<and> channel_spk E f (cs ! v) = Some (script_pubkey (nd_outputs n ! v)))"

definition leaves_done ::
  "('pk, 'xo, 'ca) secp \<Rightarrow> ('pk, 'xo, 'ca) factory \<Rightarrow> nat \<Rightarrow> ('pk, 'xo, 'ca) factory \<Rightarrow> nat \<Rightarrow> nat list list \<Rightarrow> bool" where
  "leaves_done E f lc g lc' css \<longleftrightarrow>
     lc' = lc + length css \<and> length (f_leaf_nodes g) = length (f_leaf_nodes f) \<and> (\<forall>j<lc. f_leaf_nodes g ! j = f_leaf_nodes f ! j)
     \<and> (\<forall>k<length css. length (f_nodes f) \<le> f_leaf_nodes g ! (lc + k) \<and> f_leaf_nodes g ! (lc + k) < length (f_nodes g)
          \<and> leaf_of E f (css ! k) (f_nodes g ! (f_leaf_nodes g ! (lc + k))))
     \<and> (\<forall>j k. j < k \<and> k < length css \<longrightarrow> f_leaf_nodes g ! (lc + j) < f_leaf_nodes g ! (lc + k))"

lemma leaf_of_cong:
  assumes "unlinked m = unlinked n" and "settings g = settings f"
  shows "leaf_of E g cs m = leaf_of E f cs n"
  by (simp add: leaf_of_def unlinked_fields[OF assms(1)] settings_cong[OF assms(2)])

lemma leaves_done_append:
  assumes 1: "leaves_done E f lc g lc1 xs" and 2: "leaves_done E g lc1 h lc2 ys" and fg: "grows f g" and gh: "grows g h"
  shows "leaves_done E f lc h lc2 (xs @ ys)"
proof -
  have lc: "lc1 = lc + length xs" "lc2 = lc + (length xs + length ys)"
    using 1 2 by (simp_all add: leaves_done_def)
  have old: "f_leaf_nodes h ! (lc + k) = f_leaf_nodes g ! (lc + k)" if "k < length xs" for k
    using 2 that lc by (simp add: leaves_done_def)
  have xs: "length (f_nodes f) \<le> f_leaf_nodes h ! (lc + k)" "f_leaf_nodes h ! (lc + k) < length (f_nodes g)"
    "leaf_of E f (xs ! k) (f_nodes h ! (f_leaf_nodes h ! (lc + k)))" if k: "k < length xs" for k
  proof -
    have g: "length (f_nodes f) \<le> f_leaf_nodes g ! (lc + k)" "f_leaf_nodes g ! (lc + k) < length (f_nodes g)"
      "leaf_of E f (xs ! k) (f_nodes g ! (f_leaf_nodes g ! (lc + k)))"
      using 1 k by (simp_all add: leaves_done_def)
    then show "length (f_nodes f) \<le> f_leaf_nodes h ! (lc + k)" "f_leaf_nodes h ! (lc + k) < length (f_nodes g)"
      by (simp_all add: old[OF k])
    show "leaf_of E f (xs ! k) (f_nodes h ! (f_leaf_nodes h ! (lc + k)))"
      using g(3) leaf_of_cong[OF grows_nth[OF gh g(2)] refl, of E f] by (simp add: old[OF k])
  qed
  have ys: "length (f_nodes g) \<le> f_leaf_nodes h ! (lc1 + k)" "f_leaf_nodes h ! (lc1 + k) < length (f_nodes h)"
    "leaf_of E f (ys ! k) (f_nodes h ! (f_leaf_nodes h ! (lc1 + k)))" if "k < length ys" for k
    using 2 that leaf_of_cong[OF refl growsD(1)[OF fg], of E] by (simp_all add: leaves_done_def)
  have "length (f_nodes f) \<le> f_leaf_nodes h ! (lc + k) \<and> f_leaf_nodes h ! (lc + k) < length (f_nodes h)
      \<and> leaf_of E f ((xs @ ys) ! k) (f_nodes h ! (f_leaf_nodes h ! (lc + k)))" if "k < length xs + length ys" for k
  proof (cases "k < length xs")
    case True
    then show ?thesis
      using xs[OF True] growsD(2)[OF gh] by (simp add: nth_append)
  next
    case False
    then have "k - length xs < length ys"
      using that by simp
    then show ?thesis
      using ys[of "k - length xs"] growsD(2)[OF fg] False lc by (simp add: nth_append)
  qed
  moreover have "f_leaf_nodes h ! (lc + j) < f_leaf_nodes h ! (lc + k)" if "j < k" "k < length xs + length ys" for j k
  proof -
    consider "k < length xs" | "j < length xs" "\<not> k < length xs" | "\<not> j < length xs" using \<open>j < k\<close> by linarith
    then show ?thesis
    proof cases
      case 1
      then show ?thesis using \<open>leaves_done E f lc g lc1 xs\<close> that old by (simp add: leaves_done_def)
    next
      case 2
      then have "k - length xs < length ys" using that by simp
      then show ?thesis using xs(2)[of j] ys(1)[of "k - length xs"] 2 lc by simp
    next
      case 3
      then have "j - length xs < k - length xs" "k - length xs < length ys"
        using that by simp_all
      then have "f_leaf_nodes h ! (lc1 + (j - length xs)) < f_leaf_nodes h ! (lc1 + (k - length xs))"
        using \<open>leaves_done E g lc1 h lc2 ys\<close> by (simp only: leaves_done_def)
      then show ?thesis
        using 3 that lc by simp
    qed
  qed
  ultimately show ?thesis
    using 1 2 lc by (simp add: leaves_done_def)
qed


lemma leaves_done_base:
  assumes "leaves_done E f1 lc g lc' css" and "settings f1 = settings f" and "f_leaf_nodes f1 = f_leaf_nodes f"
    and "length (f_nodes f) \<le> length (f_nodes f1)"
  shows "leaves_done E f lc g lc' css"
  using assms(1) order.trans[OF assms(4)] unfolding leaves_done_def leaf_of_cong[OF refl assms(2)] assms(3) by blast

lemma leaves_done_set_node:
  assumes "leaves_done E f lc g lc' css" and "idx < length (f_nodes f)"
  shows "leaves_done E f lc (set_node idx u g) lc' css"
proof -
  have "f_nodes (set_node idx u g) ! (f_leaf_nodes g ! (lc + k)) = f_nodes g ! (f_leaf_nodes g ! (lc + k))" if "k < length css" for k
  proof -
    have "length (f_nodes f) \<le> f_leaf_nodes g ! (lc + k)"
      using assms(1) that by (simp add: leaves_done_def)
    then show ?thesis using assms(2) by simp
  qed
  then show ?thesis
    using assms(1) by (simp add: leaves_done_def del: set_node_nth)
qed

text \<open>A factory with one or two clients a leaf.\<close>

definition uniform :: "('pk, 'xo, 'ca) factory \<Rightarrow> nat \<Rightarrow> bool" where
  "uniform f a \<longleftrightarrow> f_level_arity f = [] \<and> f_leaf_arity f = a \<and> (a = 1 \<or> a = 2) \<and> length (f_leaf_nodes f) = FACTORY_MAX_LEAVES"

lemma uniform_grows: "grows f g \<Longrightarrow> uniform g a = uniform f a"
  by (simp add: grows_def uniform_def settings_fields[of g f])

lemma uniform_arity: "uniform f a \<Longrightarrow> arity_at_depth f d = a" "uniform f a \<Longrightarrow> subtree_is_leaf f a n \<longleftrightarrow> n \<le> a"
  by (auto simp: uniform_def arity_at_depth_def subtree_is_leaf_def FACTORY_ARITY_PS_def)

lemma fan_out_leaves:
  assumes rec: "\<And>f cs vout d x lc g lc'. rec f cs (Some idx) vout d x lc = Some (g, lc') \<Longrightarrow> idx < length (f_nodes f) \<Longrightarrow> small_config f \<Longrightarrow>
      uniform f a \<Longrightarrow> grows f g \<and> leaves_done E f lc g lc' (chunks a cs)"
    and fan: "fan_out rec idx (split_clients_for_arity a (length cs)) cs depth y f lc = Some (g, lc')" and idx: "idx < length (f_nodes f)"
    and f: "small_config f" "uniform f a" and cs: "\<not> length cs \<le> a"
  shows "leaves_done E f lc g lc' (chunks a cs)"
proof -
  have a: "a = 1 \<or> a = 2"
    using f(2) by (simp add: uniform_def)
  obtain p q where pq: "split_clients_for_arity a (length cs) = [p, q]" "0 < p" "0 < q" "p + q = length cs"
    and ch: "chunks a cs = chunks a (take p cs) @ chunks a (drop p cs)"
    by (rule split_chunks[OF a cs])
  obtain f1 lc1 f2 u where 1: "rec f (take p cs) (Some idx) 0 (Suc depth) (child_budget y (Suc (Suc 0)) 0) lc = Some (f1, lc1)"
    and 2: "rec f1 (take q (drop p cs)) (Some idx) (Suc 0) (Suc depth) (child_budget y (Suc (Suc 0)) (Suc 0)) lc1 = Some (f2, lc')"
    and g: "g = set_node idx u f2"
    using fan pq(2,3) by (auto simp: fan_out_def pq(1) Let_def simp del: set_node_nth split: if_split_asm option.split_asm)
  have d1: "grows f f1" "leaves_done E f lc f1 lc1 (chunks a (take p cs))"
    using rec[OF 1] idx f by simp_all
  have "idx < length (f_nodes f1)" "small_config f1" "uniform f1 a"
    using idx growsD[OF d1(1)] f small_config_cong[of f1 f] uniform_grows[OF d1(1)] by auto
  then have d2: "grows f1 f2" "leaves_done E f1 lc1 f2 lc' (chunks a (drop p cs))"
    using rec[OF 2] pq(4) by auto
  show ?thesis
    using leaves_done_append[OF d1(2) d2(2) d1(1) d2(1)] leaves_done_set_node idx g ch by auto
qed

lemma setup_leaf_channels:
  assumes "setup_leaf E alloc f st a cs x = Some g" and "uniform f a" and "cs \<noteq> []" and "length cs \<le> a" and "st < length (f_nodes f)"
    and "nd_type (f_nodes f ! st) = NODE_STATE" and "\<not> nd_static (f_nodes f ! st)" and "\<not> nd_ps_leaf (f_nodes f ! st)" and "nd_signers (f_nodes f ! st) = 0 # cs"
  shows "leaf_of E f cs (f_nodes g ! st)" "f_leaf_nodes g = f_leaf_nodes f" "length (f_nodes g) = length (f_nodes f)"
proof -
  have a: "a \<noteq> FACTORY_ARITY_PS" "a = 1 \<or> a = 2"
    using assms(2) by (auto simp: uniform_def FACTORY_ARITY_PS_def)
  have "length cs = 1 \<or> a = 2 \<and> length cs = 2"
    using a(2) assms(3,4) by (cases cs; cases "tl cs") auto
  then obtain n where g: "g = set_node st (\<lambda>_. n) f"
    and n: "length cs = 1 \<and> setup_single_leaf_outputs E f (f_nodes f ! st) (cs ! 0) x = Some n
      \<or> length cs = 2 \<and> setup_leaf_outputs E f (f_nodes f ! st) (cs ! 0) (cs ! 1) x = Some n"
    using assms(1) a(1) by (auto simp: setup_leaf_def)
  have "leaf_of E f cs n"
    using n assms(6-9) by (auto simp: setup_single_leaf_outputs_def setup_leaf_outputs_def leaf_of_def Let_def less_Suc_eq numeral_2_eq_2
        split: if_split_asm option.split_asm)
  then show "leaf_of E f cs (f_nodes g ! st)" "f_leaf_nodes g = f_leaf_nodes f" "length (f_nodes g) = length (f_nodes f)"
    using assms(5) by (simp_all add: g)
qed


lemma open_state_simps [simp]:
  "settings (open_state ko st x fee f) = settings f" "f_leaf_nodes (open_state ko st x fee f) = f_leaf_nodes f"
  "length (f_nodes (open_state ko st x fee f)) = length (f_nodes f)"
  by (simp_all add: open_state_def)

lemma build_subtree_leaves:
  "build_subtree fuel E alloc f cs parent vout depth x lc = Some (g, lc') \<Longrightarrow> (\<And>p. parent = Some p \<Longrightarrow> p < length (f_nodes f)) \<Longrightarrow>
   small_config f \<Longrightarrow> uniform f a \<Longrightarrow> leaves_done E f lc g lc' (chunks a cs)"
proof (induction fuel arbitrary: f cs parent vout depth x lc g lc')
  case 0
  then show ?case by simp
next
  case (Suc fuel)
  have rec: "grows f g \<and> leaves_done E f lc g lc' (chunks a cs)"
    if "build_subtree fuel E alloc f cs (Some idx) vout d x lc = Some (g, lc')" "idx < length (f_nodes f)" "small_config f" "uniform f a"
    for f cs idx vout d x lc g lc'
    using Suc.IH[OF that(1)] build_subtree_done[OF that(1)] that(2-4) by (auto simp: subtree_done_def)
  note U = uniform_arity[OF Suc.prems(4)]
  from Suc.prems(1) show ?case
  proof (cases rule: build_subtree_cases)
    case (static m c ko f1)
    note A = add_node_Some[OF static(7) Suc.prems(2), simplified]
    let ?f2 = "set_node ko (\<lambda>n. n\<lparr>nd_static := True, nd_input := x\<rparr>) f1"
    have S: "settings ?f2 = settings f" "small_config ?f2" "uniform ?f2 a"
      using growsD(1)[OF A(2)] small_config_cong[of ?f2 f] Suc.prems(3,4) settings_fields[of ?f2 f] A(4) by (simp_all add: uniform_def)
    have "leaves_done E ?f2 lc g lc' (chunks a cs)"
      using fan_out_leaves[of "build_subtree fuel E alloc" ko a E, OF rec] static S(2,3) A(1,3) U by simp
    then show ?thesis
      using leaves_done_base[OF _ S(1)] A(3,4) by simp
  next
    case (leaf m c c' ko f1 st f2 h)
    note A = add_node_Some[OF leaf(5) Suc.prems(2)]
    note B = add_node_Some[OF leaf(6)]
    let ?f4 = "open_state ko st x (f_fee_per_tx f) f2"
    have S: "settings ?f4 = settings f" and L: "f_leaf_nodes ?f4 = f_leaf_nodes f"
      using growsD(1)[OF A(2)] growsD(1)[OF B(2)] A B by simp_all
    have u4: "uniform ?f4 a"
      using Suc.prems(4) settings_fields[OF S] L by (simp add: uniform_def)
    have st: "st = Suc (length (f_nodes f))" "length (f_nodes f2) = Suc st"
      using A(1,3) B(1,3) by auto
    have at: "f_nodes ?f4 ! st = (f_nodes f2 ! st)\<lparr>nd_input := x - f_fee_per_tx f\<rparr>"
      using st A(1) by (simp add: open_state_def)
    have B8: "nd_type (f_nodes f2 ! st) = NODE_STATE" "\<not> nd_static (f_nodes f2 ! st)" "\<not> nd_ps_leaf (f_nodes f2 ! st)" "nd_signers (f_nodes f2 ! st) = 0 # cs"
      using B(7,8,11,12) A(1,3) by auto
    note C = setup_leaf_channels[OF leaf(7)[unfolded U] u4 leaf(2)]
    have "leaf_of E ?f4 cs (f_nodes h ! st)" "f_leaf_nodes h = f_leaf_nodes f" "length (f_nodes h) = Suc st"
      using C leaf(3) U B8 st(2) L by (simp_all add: at)
    then show ?thesis
      using leaf(8,9,10) Suc.prems(4) leaf(3) U leaf_of_cong[OF refl S, of E] st chunks_short[OF leaf(2)]
      by (auto simp: leaves_done_def uniform_def)
  next
    case (state m c c' ko f1 st f2)
    note A = add_node_Some[OF state(8) Suc.prems(2)]
    note B = add_node_Some[OF state(9)]
    let ?f4 = "open_state ko st x (f_fee_per_tx f) f2"
    have S: "settings ?f4 = settings f" and L: "f_leaf_nodes ?f4 = f_leaf_nodes f"
      using growsD(1)[OF A(2)] growsD(1)[OF B(2)] A B by simp_all
    have u4: "uniform ?f4 a" "small_config ?f4"
      using Suc.prems(3,4) settings_fields[OF S] L small_config_cong[OF S] by (simp_all add: uniform_def)
    have "leaves_done E ?f4 lc g lc' (chunks a cs)"
      using fan_out_leaves[of "build_subtree fuel E alloc" st a E, OF rec] state u4 A(1,3) B(1,3) U by simp
    then show ?thesis
      using leaves_done_base[OF _ S L] A(1,3) B(1,3) by simp
  qed
qed


section \<open>Looking up a client\<close>

lemma chunks_mem: "j < length (chunks a xs) \<Longrightarrow> x \<in> set (chunks a xs ! j) \<Longrightarrow> 0 < a \<Longrightarrow> \<exists>c<length xs. c div a = j \<and> xs ! c = x"
proof (induction j arbitrary: xs)
  case 0
  then have "xs \<noteq> []" by auto
  then have "x \<in> set (take a xs)"
    using 0 chunks_rec[of xs a] by simp
  then show ?case
    using 0(3) by (auto simp: in_set_conv_nth)
next
  case (Suc j)
  then have "xs \<noteq> []" by auto
  then have r: "chunks a xs = take a xs # chunks a (drop a xs)"
    using Suc chunks_rec[of xs a] by simp
  obtain c where "c < length (drop a xs)" "c div a = j" "drop a xs ! c = x"
    using Suc.IH[of "drop a xs"] Suc.prems by (auto simp: r)
  then show ?case
    using Suc.prems(3) by (intro exI[of _ "a + c"]) (auto simp: div_add_self1)
qed

lemma channel_spk_start: "channel_spk E (tree_start f) c = channel_spk E f c"
  unfolding channel_spk_def chan_merkle_root_def tree_start_fields by (rule refl)

lemma tree_leaves_uniform:
  "f_level_arity f = [] \<Longrightarrow> f_leaf_arity f = a \<Longrightarrow> a = 1 \<or> a = 2 \<Longrightarrow> length cs = f_participants f - 1 \<Longrightarrow> tree_leaves f = length (chunks a cs)"
  by (auto simp: tree_leaves_def tree_metrics_def fee_set_def compute_leaf_count_psk_def FACTORY_ARITY_1_def FACTORY_ARITY_PS_def chunks_count
      simp del: One_nat_def)

text \<open>The leaves of a built factory.\<close>

lemma built_leaves:
  assumes build: "factory_build_tree E alloc order f = Some g" and small: "max_outputs_per_node (f_config f) < 2 ^ 32"
    and u: "uniform f a" and cs: "length (tree_clients order f) = f_participants f - 1"
  shows "f_n_leaf_nodes g = length (chunks a (tree_clients order f))" "f_level_arity g = []" "f_leaf_arity g = a" "f_ps_k g = f_ps_k f"
    "j < f_n_leaf_nodes g \<Longrightarrow> f_leaf_nodes g ! j < length (f_nodes g) \<and> leaf_of E f (chunks a (tree_clients order f) ! j) (f_nodes g ! (f_leaf_nodes g ! j))"
    "j < k \<Longrightarrow> k < f_n_leaf_nodes g \<Longrightarrow> f_leaf_nodes g ! j < f_leaf_nodes g ! k"
proof -
  obtain h lc where n: "2 \<le> f_participants f" and
    sub: "build_subtree (f_participants f - 1) E alloc (tree_start f) (tree_clients order f) None 0 0 (f_funding_amount f) 0 = Some (h, lc)"
    and txs: "build_txs E alloc [0..<length (f_nodes h)] h = (True, g)"
    by (rule factory_build_tree_cases[OF build])
  have u': "uniform (tree_start f) a"
    using u by (simp add: uniform_def)
  have D: "subtree_done E (tree_start f) None 0 (f_funding_amount f) h"
    using build_subtree_done[OF sub] small by (simp add: small_config_def)
  have L: "leaves_done E (tree_start f) 0 h lc (chunks a (tree_clients order f))"
    using build_subtree_leaves[OF sub _ _ u'] small by (simp add: small_config_def)
  have S: "settings h = settings (tree_start f)"
    using D by (simp add: subtree_done_def grows_def)
  have T: "same_tree h g"
    using build_txs_frame[OF txs] by simp
  note Sg = settings_fields[OF same_treeD(1)[OF T]] settings_fields[OF S]
  show nl: "f_n_leaf_nodes g = length (chunks a (tree_clients order f))" "f_level_arity g = []" "f_leaf_arity g = a" "f_ps_k g = f_ps_k f"
    using u tree_leaves_uniform[OF _ _ _ cs, of a] by (simp_all add: Sg uniform_def)
  have leaf: "leaf_of E f cs (f_nodes g ! i) = leaf_of E (tree_start f) cs (f_nodes h ! i)" for cs i
    by (simp add: leaf_of_def channel_spk_start txless_fields[OF same_treeD(4)[OF T]])
  show "j < f_n_leaf_nodes g \<Longrightarrow> f_leaf_nodes g ! j < length (f_nodes g) \<and> leaf_of E f (chunks a (tree_clients order f) ! j) (f_nodes g ! (f_leaf_nodes g ! j))"
    "j < k \<Longrightarrow> k < f_n_leaf_nodes g \<Longrightarrow> f_leaf_nodes g ! j < f_leaf_nodes g ! k"
    using L nl(1) by (simp_all add: leaf leaves_done_def same_treeD(2,3)[OF T])
qed

text \<open>C16: A client finds its channel.  In a built factory of one or two clients a leaf, with the clients placed in order, the
  node and output that \<open>factory_client_to_leaf\<close> gives for a client are a leaf the client signs for and an output that
  pays the channel of that client and the LSP; \<open>factory_find_leaf_for_client\<close> finds the same leaf.\<close>

theorem factory_client_channel:
  fixes E :: "('pk, 'xo, 'ca) secp" and f g :: "('pk, 'xo, 'ca) factory"
  assumes "factory_build_tree E alloc order f = Some g" and "max_outputs_per_node (f_config f) < 2 ^ 32"
    and "f_level_arity f = []" and "f_leaf_arity f = FACTORY_ARITY_1 \<or> f_leaf_arity f = FACTORY_ARITY_2"
    and "length (f_leaf_nodes f) = FACTORY_MAX_LEAVES" and "f_placement f = PLACEMENT_SEQUENTIAL" and "client < f_participants f - 1"
  shows "\<exists>ni v. factory_client_to_leaf g client = Some (ni, v) \<and> ni < length (f_nodes g) \<and> v < length (nd_outputs (f_nodes g ! ni))
     \<and> channel_spk E f (client + 1) = Some (script_pubkey (nd_outputs (f_nodes g ! ni) ! v))
     \<and> client + 1 \<in> set (nd_signers (f_nodes g ! ni)) \<and> factory_find_leaf_for_client g (client + 1) = Some ni"
proof -
  let ?a = "f_leaf_arity f" and ?css = "chunks (f_leaf_arity f) [1..<f_participants f]"
  have u: "uniform f ?a" and a: "?a = 1 \<or> ?a = 2" "0 < ?a"
    using assms(3-5) by (auto simp: uniform_def FACTORY_ARITY_1_def FACTORY_ARITY_2_def)
  have cl: "tree_clients order f = [1..<f_participants f]"
    using assms(6,7) by (auto simp: tree_clients_def)
  note B = built_leaves[OF assms(1,2) u, unfolded cl, simplified]
  let ?j = "client div ?a" and ?v = "client mod ?a"
  have c: "?j < length ?css" "?v < length (?css ! ?j)" "?css ! ?j ! ?v = client + 1"
    using chunks_nth[of client "[1..<f_participants f]" ?a] assms(7) a(2) by auto
  have leaf: "f_leaf_nodes g ! ?j < length (f_nodes g)" "leaf_of E f (?css ! ?j) (f_nodes g ! (f_leaf_nodes g ! ?j))"
    using B(5) c(1) B(1) by auto
  have "factory_client_to_leaf g client = Some (f_leaf_nodes g ! ?j, ?v)"
    using a(1) c(1) by (auto simp: factory_client_to_leaf_def B(1-3) FACTORY_ARITY_1_def FACTORY_ARITY_PS_def Let_def)
  moreover have "client + 1 \<in> set (nd_signers (f_nodes g ! (f_leaf_nodes g ! ?j)))"
    using leaf(2) c by (metis leaf_of_def list.set_intros(2) nth_mem)
  moreover have "factory_find_leaf_for_client g (client + 1) = Some (f_leaf_nodes g ! ?j)"
  proof -
    have "client + 1 \<notin> set (nd_signers (f_nodes g ! (f_leaf_nodes g ! i)))" if "i < ?j" for i
    proof
      assume m: "client + 1 \<in> set (nd_signers (f_nodes g ! (f_leaf_nodes g ! i)))"
      have i: "i < length ?css" using that c(1) by simp
      then have "client + 1 \<in> set (?css ! i)"
        using m B(5)[of i] B(1) by (auto simp: leaf_of_def)
      then obtain d where "d < length [1..<f_participants f]" "d div ?a = i" "[1..<f_participants f] ! d = client + 1"
        using chunks_mem[OF i _ a(2)] by blast
      then show False using that by simp
    qed
    then show ?thesis
      using calculation(2) c(1) by (auto simp: factory_find_leaf_for_client_def B(1) find_Some_iff intro!: exI[of _ ?j])
  qed
  ultimately show ?thesis
    using leaf c by (auto simp: leaf_of_def)
qed


theorem factory_client_channel_witness:
  "\<exists>g ni v. factory_build_tree flat_secp (\<lambda>_. True) id (sample_factory 3 200 100000) = Some g
     \<and> factory_client_to_leaf g 1 = Some (ni, v) \<and> factory_find_leaf_for_client g 2 = Some ni
     \<and> channel_spk flat_secp (sample_factory 3 200 100000) 2 = Some (script_pubkey (nd_outputs (f_nodes g ! ni) ! v))"
proof -
  obtain g where g: "factory_build_tree flat_secp (\<lambda>_. True) id (sample_factory 3 200 100000) = Some g"
    by (rule sample_built)
  show ?thesis
    using factory_client_channel[OF g, of 1] g by (auto simp: nat_1_add_1 simp del: One_nat_def)
qed

end
