(* ===== verification/Factory_Stock.thy ===== *)
theory Factory_Stock
  imports Factory_Leaves
begin

text \<open>
  The liquidity stock of the leaves: every leaf the descent sets up ends with the stock output of its signers, so that the update of the
  stock scripts, which every rebuild of a factory with revocation secrets runs first, changes nothing in a built tree.
\<close>

section \<open>The stock outputs\<close>

text \<open>A state node without children is a leaf; its last output is the liquidity stock, whose script the rebuilds recompute.\<close>

definition stocked :: "('pk, 'xo, 'ca) secp \<Rightarrow> ('pk, 'xo, 'ca) factory \<Rightarrow> ('xo, 'ca) factory_node \<Rightarrow> bool" where
  "stocked E f n \<longleftrightarrow> (nd_type n = NODE_STATE \<and> nd_children n = [] \<longrightarrow>
     nd_outputs n \<noteq> [] \<and> build_l_stock_spk E f n = Some (script_pubkey (last (nd_outputs n))))"

definition keeps_children :: "('pk, 'xo, 'ca) factory \<Rightarrow> ('pk, 'xo, 'ca) factory \<Rightarrow> bool" where
  "keeps_children f g \<longleftrightarrow> length (f_nodes f) \<le> length (f_nodes g)
     \<and> (\<forall>i<length (f_nodes f). nd_children (f_nodes f ! i) \<noteq> [] \<longrightarrow> nd_children (f_nodes g ! i) \<noteq> [])"

definition stock_done :: "('pk, 'xo, 'ca) secp \<Rightarrow> ('pk, 'xo, 'ca) factory \<Rightarrow> nat option \<Rightarrow> ('pk, 'xo, 'ca) factory \<Rightarrow> bool" where
  "stock_done E f parent g \<longleftrightarrow> keeps_children f g \<and> (\<forall>p. parent = Some p \<longrightarrow> nd_children (f_nodes g ! p) \<noteq> [])
     \<and> (\<forall>i. length (f_nodes f) \<le> i \<and> i < length (f_nodes g) \<longrightarrow> stocked E g (f_nodes g ! i))"

lemma keeps_children_trans: "keeps_children f g \<Longrightarrow> keeps_children g h \<Longrightarrow> keeps_children f h"
  by (auto simp: keeps_children_def)

lemma build_l_stock_spk_cong:
  "f_pubkeys g = f_pubkeys f \<Longrightarrow> f_l_stock_csv g = f_l_stock_csv f \<Longrightarrow> nd_keyagg m = nd_keyagg n \<Longrightarrow> build_l_stock_spk E g m = build_l_stock_spk E f n"
  by (simp only: build_l_stock_spk_def)

lemma stocked_parent: "nd_children n \<noteq> [] \<Longrightarrow> stocked E f n"
  by (simp add: stocked_def)

lemma stocked_cong: "f_pubkeys g = f_pubkeys f \<Longrightarrow> f_l_stock_csv g = f_l_stock_csv f \<Longrightarrow> stocked E g n = stocked E f n"
  by (simp add: stocked_def build_l_stock_spk_cong[of g f n n])

lemma stocked_txless:
  assumes "txless m = txless n"
  shows "stocked E f m = stocked E f n"
  using arg_cong[OF assms, of nd_children] build_l_stock_spk_cong[of f f m n E] txless_fields[OF assms] by (simp add: stocked_def txless_def)

lemma stocked_same_tree: "same_tree f g \<Longrightarrow> stocked E g (f_nodes g ! i) = stocked E f (f_nodes f ! i)"
  using stocked_cong[of g f E "f_nodes g ! i"] stocked_txless[OF same_treeD(4), of f g E f i] by (simp add: settings_fields[OF same_treeD(1)])

lemma stock_done_append:
  assumes 1: "stock_done E f parent g" and 2: "stock_done E g parent h" and gh: "grows g h"
  shows "stock_done E f parent h"
proof -
  have "stocked E h (f_nodes h ! i)" if i: "length (f_nodes f) \<le> i" "i < length (f_nodes h)" for i
  proof (cases "i < length (f_nodes g)")
    case True
    note u = unlinked_fields[OF grows_nth[OF gh True]]
    have "stocked E g (f_nodes g ! i)" "nd_children (f_nodes g ! i) \<noteq> [] \<longrightarrow> nd_children (f_nodes h ! i) \<noteq> []"
      using 1 2 i True by (simp_all add: stock_done_def keeps_children_def)
    then show ?thesis
      using build_l_stock_spk_cong[of h g "f_nodes h ! i" "f_nodes g ! i" E] settings_fields[OF growsD(1)[OF gh]] u by (auto simp: stocked_def)
  qed (use 2 i in \<open>simp add: stock_done_def\<close>)
  then show ?thesis
    using 1 2 keeps_children_trans by (auto simp: stock_done_def)
qed

lemma add_node_children:
  assumes "add_node E alloc f type signers parent vout layer c = Some (idx, g)"
  shows "keeps_children f g" "parent = Some p \<Longrightarrow> p < length (f_nodes f) \<Longrightarrow> nd_children (f_nodes g ! p) \<noteq> []"
proof -
  obtain n where g: "g = (case parent of None \<Rightarrow> f\<lparr>f_nodes := f_nodes f @ [n]\<rparr>
      | Some p \<Rightarrow> set_node p (\<lambda>n. n\<lparr>nd_children := nd_children n @ [idx]\<rparr>) (f\<lparr>f_nodes := f_nodes f @ [n]\<rparr>))"
    by (rule add_node_cases[OF assms])
  show "keeps_children f g"
    by (cases parent) (auto simp: g keeps_children_def nth_append)
  show "parent = Some p \<Longrightarrow> p < length (f_nodes f) \<Longrightarrow> nd_children (f_nodes g ! p) \<noteq> []"
    by (simp add: g nth_append)
qed

lemma fan_out_stock:
  assumes rec: "\<And>f cs vout d x lc g lc'. rec f cs (Some idx) vout d x lc = Some (g, lc') \<Longrightarrow> idx < length (f_nodes f) \<Longrightarrow> small_config f \<Longrightarrow>
      uniform f a \<Longrightarrow> grows f g \<and> stock_done E f (Some idx) g"
    and fan: "fan_out rec idx (split_clients_for_arity a (length cs)) cs depth y f lc = Some (g, lc')" and idx: "idx < length (f_nodes f)"
    and f: "small_config f" "uniform f a" and cs: "\<not> length cs \<le> a"
  shows "stock_done E f (Some idx) g"
proof -
  have a: "a = 1 \<or> a = 2"
    using f(2) by (simp add: uniform_def)
  obtain p q where pq: "split_clients_for_arity a (length cs) = [p, q]" "0 < p" "0 < q"
    by (rule split_chunks[OF a cs])
  obtain f1 lc1 f2 outs where 1: "rec f (take p cs) (Some idx) 0 (Suc depth) (child_budget y (Suc (Suc 0)) 0) lc = Some (f1, lc1)"
    and 2: "rec f1 (take q (drop p cs)) (Some idx) (Suc 0) (Suc depth) (child_budget y (Suc (Suc 0)) (Suc 0)) lc1 = Some (f2, lc')"
    and g: "g = set_node idx (\<lambda>n. n\<lparr>nd_outputs := outs\<rparr>) f2"
    using fan pq(2,3) by (auto simp: fan_out_def pq(1) Let_def simp del: set_node_nth split: if_split_asm option.split_asm)
  have d1: "grows f f1" "stock_done E f (Some idx) f1"
    using rec[OF 1] idx f by simp_all
  have "idx < length (f_nodes f1)" "small_config f1" "uniform f1 a"
    using idx growsD[OF d1(1)] f small_config_cong[of f1 f] uniform_grows[OF d1(1)] by auto
  then have d2: "grows f1 f2" "stock_done E f1 (Some idx) f2"
    using rec[OF 2] by auto
  have "stock_done E f (Some idx) f2"
    by (rule stock_done_append[OF d1(2) d2(2,1)])
  then show ?thesis
    using idx stocked_cong[of g f2 E] by (auto simp: g stock_done_def keeps_children_def settings_fields[OF set_node_simps(2)])
qed

lemma setup_leaf_stock:
  assumes "setup_leaf E alloc f st a cs x = Some g" and "uniform f a" and "cs \<noteq> []" and "length cs \<le> a" and "st < length (f_nodes f)"
  shows "keeps_children f g \<and> stocked E g (f_nodes g ! st) \<and> length (f_nodes g) = length (f_nodes f)"
proof -
  have a: "a \<noteq> FACTORY_ARITY_PS" "a = 1 \<or> a = 2"
    using assms(2) by (auto simp: uniform_def FACTORY_ARITY_PS_def)
  have "length cs = 1 \<or> a = 2 \<and> length cs = 2"
    using a(2) assms(3,4) by (cases cs; cases "tl cs") auto
  then obtain n where g: "g = set_node st (\<lambda>_. n) f" and n: "setup_single_leaf_outputs E f (f_nodes f ! st) (cs ! 0) x = Some n
      \<or> setup_leaf_outputs E f (f_nodes f ! st) (cs ! 0) (cs ! 1) x = Some n"
    using assms(1) a(1) by (auto simp: setup_leaf_def)
  obtain outs l where o: "n = (f_nodes f ! st)\<lparr>nd_outputs := outs @ [l]\<rparr>" "build_l_stock_spk E f (f_nodes f ! st) = Some (script_pubkey l)"
    using n that[of "butlast (nd_outputs n)" "last (nd_outputs n)"]
    by (auto simp: setup_single_leaf_outputs_def setup_leaf_outputs_def Let_def split: if_split_asm option.split_asm)
  have "build_l_stock_spk E g n = Some (script_pubkey l)"
    using build_l_stock_spk_cong[of g f n "f_nodes f ! st" E] o by (simp add: g settings_fields[OF set_node_simps(2)])
  then show ?thesis
    using assms(5) by (simp add: g o(1) keeps_children_def stocked_def)
qed

lemma opened_stock:
  assumes ko: "add_node E alloc f NODE_KICKOFF (0 # cs) parent vout (-1) c = Some (ko, f1)"
    and st: "add_node E alloc f1 NODE_STATE (0 # cs) (Some ko) 0 l c' = Some (st, f2)" and p: "\<And>p. parent = Some p \<Longrightarrow> p < length (f_nodes f)"
    and g: "keeps_children (open_state ko st x fee f2) g" "\<And>i. st \<le> i \<Longrightarrow> i < length (f_nodes g) \<Longrightarrow> stocked E g (f_nodes g ! i)"
  shows "stock_done E f parent g"
proof -
  note A = add_node_Some[OF ko p] and B = add_node_Some[OF st] and K = add_node_children[OF ko] and M = add_node_children[OF st]
  have "keeps_children f2 (open_state ko st x fee f2)"
    by (auto simp: keeps_children_def open_state_def)
  then have f2: "keeps_children f2 g"
    using g(1) keeps_children_trans by blast
  then have f1: "keeps_children f1 g"
    using M(1) keeps_children_trans by blast
  have "nd_children (f_nodes f2 ! ko) \<noteq> []"
    using M(2) A(1,3) by simp
  then have "stocked E g (f_nodes g ! ko)"
    using f2 A(1,3) B(1,3) by (intro stocked_parent) (simp add: keeps_children_def)
  moreover have "st = Suc ko" "ko = length (f_nodes f)"
    using A(1,3) B(1) by auto
  moreover have "nd_children (f_nodes g ! q) \<noteq> []" if "parent = Some q" for q
    using f1 K(2)[OF that p[OF that]] p[OF that] A(3) by (simp add: keeps_children_def)
  ultimately show ?thesis
    using keeps_children_trans[OF K(1) f1] g(2) by (auto simp: stock_done_def Suc_le_eq dest: le_neq_implies_less)
qed

lemma build_subtree_stock:
  "build_subtree fuel E alloc f cs parent vout depth x lc = Some (g, lc') \<Longrightarrow> (\<And>p. parent = Some p \<Longrightarrow> p < length (f_nodes f)) \<Longrightarrow>
   small_config f \<Longrightarrow> uniform f a \<Longrightarrow> stock_done E f parent g"
proof (induction fuel arbitrary: f cs parent vout depth x lc g lc')
  case 0
  then show ?case by simp
next
  case (Suc fuel)
  have rec: "grows f g \<and> stock_done E f (Some idx) g"
    if "build_subtree fuel E alloc f cs (Some idx) vout d x lc = Some (g, lc')" "idx < length (f_nodes f)" "small_config f" "uniform f a"
    for f cs idx vout d x lc g lc'
    using Suc.IH[OF that(1)] build_subtree_done[OF that(1)] that(2-4) by (auto simp: subtree_done_def)
  note U = uniform_arity[OF Suc.prems(4)]
  from Suc.prems(1) show ?case
  proof (cases rule: build_subtree_cases)
    case (static m c ko f1)
    note A = add_node_Some[OF static(7) Suc.prems(2), simplified] and K = add_node_children[OF static(7)]
    let ?f2 = "set_node ko (\<lambda>n. n\<lparr>nd_static := True, nd_input := x\<rparr>) f1"
    have "small_config ?f2" "uniform ?f2 a"
      using growsD(1)[OF A(2)] small_config_cong[of ?f2 f] Suc.prems(3,4) settings_fields[of ?f2 f] A(4) by (simp_all add: uniform_def)
    then have D: "stock_done E ?f2 (Some ko) g"
      using fan_out_stock[of "build_subtree fuel E alloc" ko a E, OF rec] static A(1,3) U by simp
    moreover have "keeps_children f ?f2"
      using K(1) by (auto simp: keeps_children_def)
    ultimately show ?thesis
      using K(2) Suc.prems(2) A(1,3) keeps_children_trans
      by (auto simp: stock_done_def keeps_children_def Suc_le_eq intro: stocked_parent dest: le_neq_implies_less)
  next
    case (leaf m c c' ko f1 st f2 h)
    note A = add_node_Some[OF leaf(5) Suc.prems(2)] and B = add_node_Some[OF leaf(6)]
    let ?f4 = "open_state ko st x (f_fee_per_tx f) f2"
    have S: "settings ?f4 = settings f" "uniform ?f4 a" and st: "length (f_nodes ?f4) = Suc st"
      using growsD(1)[OF A(2)] growsD(1)[OF B(2)] A(1,3,4) B(1,3,4) Suc.prems(4) settings_fields[of ?f4 f] by (simp_all add: uniform_def)
    have "keeps_children ?f4 h \<and> stocked E h (f_nodes h ! st) \<and> length (f_nodes h) = Suc st"
      using setup_leaf_stock[OF leaf(7)[unfolded U] S(2) leaf(2)] leaf(3) st by (simp add: U)
    then show ?thesis
      using stocked_cong[of g h E] leaf(9) by (intro opened_stock[OF leaf(5,6) Suc.prems(2)]) (auto simp: keeps_children_def less_Suc_eq)
  next
    case (state m c c' ko f1 st f2)
    note A = add_node_Some[OF state(8) Suc.prems(2)] and B = add_node_Some[OF state(9)]
    let ?f4 = "open_state ko st x (f_fee_per_tx f) f2"
    have S: "settings ?f4 = settings f" "uniform ?f4 a" and st: "length (f_nodes ?f4) = Suc st"
      using growsD(1)[OF A(2)] growsD(1)[OF B(2)] A(1,3,4) B(1,3,4) Suc.prems(4) settings_fields[of ?f4 f] by (simp_all add: uniform_def)
    have D: "stock_done E ?f4 (Some st) g"
      using fan_out_stock[of "build_subtree fuel E alloc" st a E, OF rec] state S st small_config_cong[OF S(1)] Suc.prems(3) U by simp
    then have "stocked E g (f_nodes g ! i)" if "st \<le> i" "i < length (f_nodes g)" for i
      using that st stocked_parent[of "f_nodes g ! st" E g] by (cases "i = st") (simp_all add: stock_done_def)
    then show ?thesis
      using D by (intro opened_stock[OF state(8,9) Suc.prems(2)]) (auto simp: stock_done_def)
  qed
qed

lemma set_l_stock_stocked: "stocked E f (f_nodes f ! i) \<Longrightarrow> set_l_stock E i f = (True, f)"
  by (auto simp: set_l_stock_def stocked_def set_node_def Let_def split: option.split)

lemma set_l_stocks_stocked: "(\<And>i. i \<in> set js \<Longrightarrow> stocked E f (f_nodes f ! i)) \<Longrightarrow> set_l_stocks E js f = (True, f)"
  by (induction js) (simp_all add: set_l_stock_stocked)

lemma stocked_unchanged:
  "stocked E f (f_nodes f ! i) \<Longrightarrow> update_l_stock_for_leaf E i f = (True, f)"
  "(\<And>i. i < length (f_nodes f) \<Longrightarrow> stocked E f (f_nodes f ! i)) \<Longrightarrow> update_l_stock_outputs E f = (True, f)"
  using set_l_stocks_stocked[of "[0..<length (f_nodes f)]" E f] by (simp_all add: update_l_stock_for_leaf_def update_l_stock_outputs_def set_l_stock_stocked)

end
