(* ===== verification/Factory_Safety.thy ===== *)
theory Factory_Safety
  imports Factory_Stock
begin

text \<open>
  The invalidation of old states by advancing one leaf at a time: whatever leaves were advanced before, the next advance
  gives the leaf, or the root above all leaves, a transaction with a shorter relative lock.  A factory of one leaf has no such root,
  and there the advance of the used-up leaf brings the first state back.
\<close>

section \<open>Rebuilding succeeds\<close>

lemma build_node_tx_total:
  assumes "\<And>n. alloc n" and "node_nsequence f i = Some s" and "length (fst (node_outpoint f (f_nodes f ! i))) = 32"
  shows "fst (build_node_tx E alloc i f)"
proof -
  let ?t = "one_input_tx 2 \<lparr>prev_txid = fst (node_outpoint f (f_nodes f ! i)), prev_vout = snd (node_outpoint f (f_nodes f ! i)), nsequence = s\<rparr>
    (nd_outputs (f_nodes f ! i)) 0"
  let ?b = "built alloc (sha256 E) (nd_unsigned_tx (f_nodes f ! i)) True ?t"
  have "build_unsigned_tx alloc (sha256 E) (nd_unsigned_tx (f_nodes f ! i)) True (fst (node_outpoint f (f_nodes f ! i)))
        (snd (node_outpoint f (f_nodes f ! i))) s (nd_outputs (f_nodes f ! i)) = ?b"
    using build_locktime_built[OF assms(3)] by (simp add: build_unsigned_tx_def)
  moreover have ok: "fst ?b"
    by (rule built_total) (rule assms(1))
  then have "snd (snd ?b) \<noteq> None"
    using built_correct[OF ok] by simp
  ultimately show ?thesis
    using ok assms(2) by (auto simp: build_node_tx_def Let_def split: prod.split option.split)
qed

lemma build_txs_total:
  assumes E: "secp_lengths E" and alloc: "\<And>n. alloc n"
  shows "length (f_funding_txid f) = 32 \<Longrightarrow> (\<And>i. i < length (f_nodes f) \<Longrightarrow> length (nd_txid (f_nodes f ! i)) = 32) \<Longrightarrow>
    (\<And>i p. i < length (f_nodes f) \<Longrightarrow> nd_parent (f_nodes f ! i) = Some p \<Longrightarrow> p < i) \<Longrightarrow>
    (\<And>i. i < length (f_nodes f) \<Longrightarrow> node_nsequence f i \<noteq> None) \<Longrightarrow> (\<And>i. i \<in> set js \<Longrightarrow> i < length (f_nodes f)) \<Longrightarrow>
    fst (build_txs E alloc js f)"
proof (induction js arbitrary: f)
  case (Cons i js)
  have i: "i < length (f_nodes f)"
    using Cons.prems(5) by simp
  obtain s where s: "node_nsequence f i = Some s"
    using Cons.prems(4)[OF i] by auto
  have out: "length (fst (node_outpoint f (f_nodes f ! i))) = 32"
    using Cons.prems(1,2) Cons.prems(3)[OF i] i by (auto simp: node_outpoint_def split: option.split intro: less_trans)
  obtain f1 where 1: "build_node_tx E alloc i f = (True, f1)"
    using build_node_tx_total[where alloc = alloc and E = E, OF alloc s out] by (cases "build_node_tx E alloc i f") auto
  note F = build_node_tx_frame[OF 1]
  have "tx_built E f1 i"
    using build_node_tx_built[OF 1 i out] Cons.prems(3)[OF i] by blast
  then have "length (nd_txid (f_nodes f1 ! j)) = 32" if "j < length (f_nodes f1)" for j
    using F(2)[of j] Cons.prems(2) that E same_treeD(3)[OF F(1)] by (cases "j = i") (auto simp: tx_built_def secp_lengths_def)
  then have "fst (build_txs E alloc js f1)"
    using Cons.prems same_treeD(3)[OF F(1)] same_tree_node_nsequence[OF F(1)] settings_fields(12)[OF same_treeD(1)[OF F(1)]]
    by (intro Cons.IH) (auto simp: txless_fields(8)[OF same_treeD(4)[OF F(1)]])
  then show ?case by (simp add: 1)
qed simp

section \<open>What advancing relies on\<close>

text \<open>The shape of the tree: parents come first, every state node has a layer, the leaves are distinct state nodes that end with the stock,
  and the second node is the state of the root.\<close>

definition adv_shape :: "('pk, 'xo, 'ca) secp \<Rightarrow> ('pk, 'xo, 'ca) factory \<Rightarrow> bool" where
  "adv_shape E f \<longleftrightarrow> length (f_funding_txid f) = 32 \<and> 1 < length (f_nodes f) \<and> (\<forall>i<length (f_nodes f). stocked E f (f_nodes f ! i))
     \<and> (\<forall>i<length (f_nodes f). \<forall>p. nd_parent (f_nodes f ! i) = Some p \<longrightarrow> p < i)
     \<and> (\<forall>i<length (f_nodes f). nd_static (f_nodes f ! i) \<or> nd_type (f_nodes f ! i) = NODE_KICKOFF \<or> nd_ps_leaf (f_nodes f ! i)
          \<or> 0 \<le> nd_layer (f_nodes f ! i) \<and> nat (nd_layer (f_nodes f ! i)) < length (layers (f_counter f)))
     \<and> nd_type (f_nodes f ! 1) = NODE_STATE \<and> \<not> nd_static (f_nodes f ! 1) \<and> \<not> nd_ps_leaf (f_nodes f ! 1) \<and> nd_layer (f_nodes f ! 1) = 0
     \<and> layers (f_counter f) \<noteq> [] \<and> f_n_leaf_nodes f \<le> length (f_leaf_layers f)
     \<and> (\<forall>j<f_n_leaf_nodes f. f_leaf_nodes f ! j < length (f_nodes f) \<and> nd_type (f_nodes f ! (f_leaf_nodes f ! j)) = NODE_STATE
          \<and> \<not> nd_static (f_nodes f ! (f_leaf_nodes f ! j)) \<and> \<not> nd_ps_leaf (f_nodes f ! (f_leaf_nodes f ! j)))
     \<and> (\<forall>j k. j < k \<and> k < f_n_leaf_nodes f \<longrightarrow> f_leaf_nodes f ! j \<noteq> f_leaf_nodes f ! k)"

text \<open>Node 1, the state of the root, is above the leaves; in a factory of one leaf it is the leaf.\<close>

definition rooted :: "('pk, 'xo, 'ca) factory \<Rightarrow> bool" where
  "rooted f \<longleftrightarrow> (\<forall>j<f_n_leaf_nodes f. f_leaf_nodes f ! j \<noteq> 1)"

text \<open>The counters, and that the transactions carry their locks.\<close>

definition adv_state :: "u16 \<Rightarrow> u32 \<Rightarrow> ('pk, 'xo, 'ca) factory \<Rightarrow> bool" where
  "adv_state step k f \<longleftrightarrow> f_step_blocks f = step \<and> f_states_per_layer f = k
     \<and> (\<forall>i<length (f_nodes f). length (nd_txid (f_nodes f ! i)) = 32)
     \<and> layer_inv step k (layers (f_counter f) ! 0) \<and> (\<forall>j<f_n_leaf_nodes f. layer_inv step k (f_leaf_layers f ! j))
     \<and> (rooted f \<longrightarrow> nd_nsequence (f_nodes f ! 1) = dw_current_nsequence (layers (f_counter f) ! 0))
     \<and> (\<forall>j<f_n_leaf_nodes f. nd_nsequence (f_nodes f ! (f_leaf_nodes f ! j)) = dw_current_nsequence (f_leaf_layers f ! j))"

lemma adv_shapeD:
  assumes "adv_shape E f"
  shows "i < length (f_nodes f) \<Longrightarrow> nd_parent (f_nodes f ! i) = Some p \<Longrightarrow> p < i"
    "i < length (f_nodes f) \<Longrightarrow> node_nsequence f i \<noteq> None"
    "j < f_n_leaf_nodes f \<Longrightarrow> f_per_leaf f \<Longrightarrow> node_nsequence f (f_leaf_nodes f ! j) = Some (dw_current_nsequence (f_leaf_layers f ! j))"
    "rooted f \<Longrightarrow> node_nsequence f 1 = Some (dw_current_nsequence (layers (f_counter f) ! 0))"
proof -
  show "i < length (f_nodes f) \<Longrightarrow> nd_parent (f_nodes f ! i) = Some p \<Longrightarrow> p < i"
    using assms by (simp add: adv_shape_def)
  show "i < length (f_nodes f) \<Longrightarrow> node_nsequence f i \<noteq> None"
    using assms by (auto simp: adv_shape_def node_nsequence_def Let_def split: option.split)
  show "rooted f \<Longrightarrow> node_nsequence f 1 = Some (dw_current_nsequence (layers (f_counter f) ! 0))"
  proof -
    assume "rooted f"
    then have "find (\<lambda>l. f_leaf_nodes f ! l = 1) [0..<f_n_leaf_nodes f] = None"
      by (auto simp: rooted_def find_None_iff)
    then show ?thesis
      using assms by (simp add: adv_shape_def node_nsequence_def)
  qed
next
  assume j: "j < f_n_leaf_nodes f" and p: "f_per_leaf f"
  have "find (\<lambda>l. f_leaf_nodes f ! l = f_leaf_nodes f ! j) [0..<f_n_leaf_nodes f] = Some j"
    using assms j by (auto simp: adv_shape_def find_Some_iff intro!: exI[of _ j])
  then show "node_nsequence f (f_leaf_nodes f ! j) = Some (dw_current_nsequence (f_leaf_layers f ! j))"
    using assms j p by (simp add: adv_shape_def node_nsequence_def)
qed


lemma adv_shape_same_tree:
  assumes "same_tree f g" and "adv_shape E f"
  shows "adv_shape E g"
  using assms(2) by (simp add: adv_shape_def stocked_same_tree[OF assms(1)] txless_fields[OF same_treeD(4)[OF assms(1)]] same_treeD(2,3)[OF assms(1)] settings_fields[OF same_treeD(1)[OF assms(1)]])

lemma rooted_same_tree: "same_tree f g \<Longrightarrow> rooted g = rooted f"
  by (simp add: rooted_def same_treeD(2) settings_fields[OF same_treeD(1)])

lemma adv_shape_outpoint:
  assumes "adv_shape E f" and "adv_state step k f" and "i < length (f_nodes f)"
  shows "length (fst (node_outpoint f (f_nodes f ! i))) = 32"
  using assms adv_shapeD(1)[OF assms(1,3)] by (auto simp: node_outpoint_def adv_shape_def adv_state_def split: option.split)

text \<open>What no advance of a leaf touches.\<close>

definition frozen :: "('pk, 'xo, 'ca) factory \<Rightarrow> ('pk, 'xo, 'ca) factory \<Rightarrow> bool" where
  "frozen f g \<longleftrightarrow> f_n_leaf_nodes g = f_n_leaf_nodes f \<and> f_leaf_nodes g = f_leaf_nodes f \<and> length (f_nodes g) = length (f_nodes f)
     \<and> f_funding_txid g = f_funding_txid f \<and> f_funding_vout g = f_funding_vout f \<and> (\<forall>i. txless (f_nodes g ! i) = txless (f_nodes f ! i))"

lemma frozen_refl [simp]: "frozen f f" "frozen f (f\<lparr>f_per_leaf := True\<rparr>)" "frozen f (f\<lparr>f_per_leaf := True, f_leaf_layers := ls\<rparr>)"
  by (simp_all add: frozen_def)

lemma frozen_trans: "frozen f g \<Longrightarrow> frozen g h \<Longrightarrow> frozen f h"
  by (simp add: frozen_def)

lemma frozen_rooted: "frozen f g \<Longrightarrow> rooted g = rooted f"
  by (simp add: frozen_def rooted_def)

lemma frozen_same_tree: "frozen f f1 \<Longrightarrow> same_tree f1 g \<Longrightarrow> frozen f g"
  by (simp add: frozen_def same_treeD[of f1 g] settings_fields[OF same_treeD(1)[of f1 g]])

lemma frozen_outpoint:
  assumes "frozen f g" and "\<And>p. nd_parent (f_nodes f ! i) = Some p \<Longrightarrow> nd_txid (f_nodes g ! p) = nd_txid (f_nodes f ! p)"
  shows "node_outpoint g (f_nodes g ! i) = node_outpoint f (f_nodes f ! i)"
proof -
  have t: "txless (f_nodes g ! i) = txless (f_nodes f ! i)"
    using assms(1) by (simp add: frozen_def)
  then show ?thesis
    using assms by (simp add: node_outpoint_def txless_fields[OF t] frozen_def split: option.split)
qed

text \<open>The transactions of a tree follow from its outputs, its links and its locks.\<close>

lemma frozen_txs:
  assumes "frozen f g" and "\<And>i. i < length (f_nodes f) \<Longrightarrow> tx_built E f i" and "\<And>i. i < length (f_nodes f) \<Longrightarrow> tx_built E g i"
    and "\<And>i. i < length (f_nodes f) \<Longrightarrow> nd_nsequence (f_nodes g ! i) = nd_nsequence (f_nodes f ! i)" and "adv_shape E f" and "i < length (f_nodes f)"
  shows "node_tx g i = node_tx f i"
  using assms(6)
proof (induction i rule: less_induct)
  case (less i)
  have t: "txless (f_nodes g ! i) = txless (f_nodes f ! i)"
    using assms(1) by (simp add: frozen_def)
  have "nd_txid (f_nodes g ! p) = nd_txid (f_nodes f ! p)" if "nd_parent (f_nodes f ! i) = Some p" for p
    using less.IH[of p] adv_shapeD(1)[OF assms(5) less.prems that] less.prems assms(2,3) by (simp add: tx_built_def)
  then have "node_outpoint g (f_nodes g ! i) = node_outpoint f (f_nodes f ! i)"
    by (rule frozen_outpoint[OF assms(1)])
  then show ?case
    using assms(4)[OF less.prems] by (simp add: node_tx_def txless_fields[OF t])
qed

lemma rebuild_plain: "i < length (f_nodes f) \<Longrightarrow> \<not> nd_ps_leaf (f_nodes f ! i) \<Longrightarrow> rebuild_node_tx E alloc i f = build_node_tx E alloc i f"
  by (simp add: rebuild_node_tx_def build_node_tx_def Let_def split: option.split)

section \<open>One step\<close>

text \<open>The leaf has states left.\<close>

lemma advance_leaf_inner:
  assumes E: "secp_lengths E" and alloc: "\<And>n. alloc n" and shape: "adv_shape E f" and state: "adv_state step k f"
    and j: "j < f_n_leaf_nodes f" and adv: "dw_advance (f_leaf_layers f ! j) = (True, l)"
  obtains g where "factory_advance_leaf_unsigned E alloc f j = (1, g)" and "adv_shape E g" and "adv_state step k g"
    and "same_tree (f\<lparr>f_per_leaf := True, f_leaf_layers := (f_leaf_layers f)[j := l]\<rparr>) g" and "tx_built E g (f_leaf_nodes f ! j)"
    and "\<And>i. i \<noteq> f_leaf_nodes f ! j \<Longrightarrow> f_nodes g ! i = f_nodes f ! i"
proof -
  let ?i = "f_leaf_nodes f ! j"
  let ?f1 = "f\<lparr>f_per_leaf := True, f_leaf_layers := (f_leaf_layers f)[j := l]\<rparr>"
  have i: "?i < length (f_nodes f)" "\<not> nd_ps_leaf (f_nodes f ! ?i)" and root: "rooted f \<Longrightarrow> ?i \<noteq> 1" and len: "j < length (f_leaf_layers f)"
    using shape j by (auto simp: adv_shape_def rooted_def)
  have shape1: "adv_shape E ?f1"
    using shape stocked_cong[of ?f1 f E] by (simp add: adv_shape_def)
  then have sh: "update_l_stock_for_leaf E ?i ?f1 = (True, ?f1)"
    using i(1) by (intro stocked_unchanged(1)) (simp add: adv_shape_def)
  have ns: "node_nsequence ?f1 ?i = Some (dw_current_nsequence l)"
    using adv_shapeD(3)[OF shape1, of j] j len by simp
  have out: "length (fst (node_outpoint ?f1 (f_nodes ?f1 ! ?i))) = 32"
    using adv_shape_outpoint[OF shape state i(1)] by (auto simp: node_outpoint_def split: option.split option.split_asm)
  obtain g where 1: "build_node_tx E alloc ?i ?f1 = (True, g)"
    using build_node_tx_total[where alloc = alloc and E = E, OF alloc ns out] by (cases "build_node_tx E alloc ?i ?f1") auto
  note F = build_node_tx_frame[OF 1]
  have "nd_parent (f_nodes ?f1 ! ?i) = Some p \<Longrightarrow> p \<noteq> ?i" for p
    using adv_shapeD(1)[OF shape1, of ?i p] i(1) by auto
  then have tx: "tx_built E g ?i"
    using build_node_tx_built[OF 1 _ out] i(1) by simp
  have at: "nd_nsequence (f_nodes g ! ?i) = dw_current_nsequence l" "length (nd_txid (f_nodes g ! ?i)) = 32"
    using tx same_tree_node_nsequence[OF F(1), of ?i] ns E by (simp_all add: tx_built_def secp_lengths_def)
  have other: "f_leaf_nodes f ! m \<noteq> ?i" if "m < f_n_leaf_nodes f" "m \<noteq> j" for m
    using shape that j unfolding adv_shape_def by (cases "m < j") (metis, metis linorder_neqE_nat)
  have "layer_inv step k l"
    using dw_advance_inv[of step k "f_leaf_layers f ! j"] state j adv by (simp add: adv_state_def)
  moreover have "nd_nsequence (f_nodes g ! 1) = nd_nsequence (f_nodes f ! 1)" "rooted f" if "rooted g"
    using that root F(2)[of 1] rooted_same_tree[OF F(1)] by (auto simp: rooted_def)
  ultimately have "adv_state step k g"
    using state at F(2) other len unfolding adv_state_def
    by (auto simp: same_treeD(2,3)[OF F(1)] settings_fields[OF same_treeD(1)[OF F(1)]] nth_list_update) (metis F(2) factory.select_convs(3))+
  have "factory_advance_leaf_unsigned E alloc f j = (1, g)"
    using j i adv sh 1 by (simp add: factory_advance_leaf_unsigned_def rebuild_plain)
  moreover have "adv_shape E g"
    by (rule adv_shape_same_tree[OF F(1) shape1])
  ultimately show thesis
    using that F tx \<open>adv_state step k g\<close> by simp
qed


text \<open>The leaf is exhausted: the root advances and all leaves start again.\<close>

lemma reset_leaf_layers_nth:
  "j < f_n_leaf_nodes f \<Longrightarrow> f_n_leaf_nodes f \<le> length (f_leaf_layers f) \<Longrightarrow>
   f_leaf_layers (reset_leaf_layers f) ! j = dw_layer_init (f_step_blocks f) (f_states_per_layer f)"
  by (simp add: reset_leaf_layers_def)

lemma reset_leaf_layers_fields [simp]:
  "f_nodes (reset_leaf_layers f) = f_nodes f" "f_leaf_nodes (reset_leaf_layers f) = f_leaf_nodes f" "f_per_leaf (reset_leaf_layers f) = f_per_leaf f"
  "f_counter (reset_leaf_layers f) = f_counter f" "f_n_leaf_nodes (reset_leaf_layers f) = f_n_leaf_nodes f" "f_pubkeys (reset_leaf_layers f) = f_pubkeys f" "f_l_stock_csv (reset_leaf_layers f) = f_l_stock_csv f"
  "f_funding_txid (reset_leaf_layers f) = f_funding_txid f" "f_funding_vout (reset_leaf_layers f) = f_funding_vout f" "f_step_blocks (reset_leaf_layers f) = f_step_blocks f"
  "f_states_per_layer (reset_leaf_layers f) = f_states_per_layer f" "length (f_leaf_layers (reset_leaf_layers f)) = length (f_leaf_layers f)"
  by (simp_all add: reset_leaf_layers_def)

lemma advance_leaf_outer:
  assumes E: "secp_lengths E" and alloc: "\<And>n. alloc n" and shape: "adv_shape E f" and state: "adv_state step k f"
    and j: "j < f_n_leaf_nodes f" and stuck: "\<not> fst (dw_advance (f_leaf_layers f ! j))"
    and adv: "dw_advance (layers (f_counter f) ! 0) = (True, l)"
  obtains g where "factory_advance_leaf_unsigned E alloc f j = (-1, g)" and "adv_shape E g" and "adv_state step k g"
    and "frozen f g" and "layers (f_counter g) ! 0 = l" and "\<And>i. i < length (f_nodes g) \<Longrightarrow> tx_built E g i"
    and "\<And>m. m < f_n_leaf_nodes g \<Longrightarrow> f_leaf_layers g ! m = dw_layer_init step k"
proof -
  let ?c = "(f_counter f)\<lparr>layers := (layers (f_counter f))[0 := l], current_epoch := current_epoch (f_counter f) + 1\<rparr>"
  define f1 where "f1 = reset_leaf_layers (f\<lparr>f_per_leaf := True, f_counter := ?c\<rparr>)"
  have fields: "f_nodes f1 = f_nodes f" "f_leaf_nodes f1 = f_leaf_nodes f" "f_per_leaf f1" "f_counter f1 = ?c" "f_n_leaf_nodes f1 = f_n_leaf_nodes f"
    "f_step_blocks f1 = f_step_blocks f" "f_states_per_layer f1 = f_states_per_layer f" "f_pubkeys f1 = f_pubkeys f" "f_l_stock_csv f1 = f_l_stock_csv f"
    "f_funding_txid f1 = f_funding_txid f" "f_funding_vout f1 = f_funding_vout f" "length (f_leaf_layers f1) = length (f_leaf_layers f)"
    by (simp_all add: f1_def)
  have shape1: "adv_shape E f1"
    using shape stocked_cong[of f1 f E] by (simp add: adv_shape_def fields)
  then have sh: "update_l_stock_outputs E f1 = (True, f1)"
    by (intro stocked_unchanged(2)) (simp add: adv_shape_def)
  have txids: "i < length (f_nodes f1) \<Longrightarrow> length (nd_txid (f_nodes f1 ! i)) = 32" "length (f_funding_txid f1) = 32" for i
    using state shape by (simp_all add: adv_state_def adv_shape_def fields)
  obtain g where 1: "build_txs E alloc [0..<length (f_nodes f1)] f1 = (True, g)"
    using build_txs_total[where alloc = alloc and E = E and f = f1 and js = "[0..<length (f_nodes f1)]", OF E alloc] txids adv_shapeD(1,2)[OF shape1]
    by (cases "build_txs E alloc [0..<length (f_nodes f1)] f1") auto
  have T: "same_tree f1 g"
    using build_txs_frame[OF 1] by simp
  note S = settings_fields[OF same_treeD(1)[OF T]] same_treeD(2,3)[OF T] fields
  have shg: "adv_shape E g"
    by (rule adv_shape_same_tree[OF T shape1])
  have tx: "tx_built E g i" if "i < length (f_nodes g)" for i
    using build_txs_built[OF E 1] txids(2) adv_shapeD(1)[OF shape1] that same_treeD(3)[OF T] by simp
  have j2: "f_leaf_nodes f ! j < length (f_nodes f)" "\<not> nd_ps_leaf (f_nodes f ! (f_leaf_nodes f ! j))" and l0: "layers (f_counter f) \<noteq> []"
    and nl: "f_n_leaf_nodes f \<le> length (f_leaf_layers f)"
    using shape j by (simp_all add: adv_shape_def)
  have "factory_advance_leaf_unsigned E alloc f j = (-1, g)"
    using j j2 stuck adv sh 1 fields(1)
    by (simp add: factory_advance_leaf_unsigned_def advance_root_layer_def rebuild_all_def build_all_unsigned_txs_def
        f1_def[symmetric] case_prod_unfold Let_def split: bool.split)
  moreover have lay: "f_leaf_layers g ! m = dw_layer_init step k" if "m < f_n_leaf_nodes g" for m
    using that state nl reset_leaf_layers_nth[of m "f\<lparr>f_per_leaf := True, f_counter := ?c\<rparr>"] by (simp add: S adv_state_def f1_def)
  moreover have root: "layers (f_counter g) ! 0 = l" "layer_inv step k l"
    using l0 dw_advance_inv[of step k "layers (f_counter f) ! 0"] state adv by (simp_all add: S adv_state_def)
  moreover have "adv_state step k g"
  proof -
    have "nd_nsequence (f_nodes g ! i) = s" if "node_nsequence g i = Some s" "i < length (f_nodes g)" for i s
      using tx[OF that(2)] that(1) by (simp add: tx_built_def)
    moreover have "f_per_leaf g"
      by (simp add: S)
    moreover have "1 < length (f_nodes g)" "m < f_n_leaf_nodes g \<Longrightarrow> f_leaf_nodes g ! m < length (f_nodes g)" for m
      using shg by (simp_all add: adv_shape_def)
    moreover have "i < length (f_nodes g) \<Longrightarrow> length (nd_txid (f_nodes g ! i)) = 32" for i
      using tx E by (simp add: tx_built_def secp_lengths_def)
    ultimately show ?thesis
      using adv_shapeD(3,4)[OF shg] state lay root layer_inv_init[OF layer_inv_pos[OF root(2)], of step]
      by (auto simp: adv_state_def S)
  qed
  moreover have "frozen f g"
    by (rule frozen_same_tree[OF _ T]) (simp add: frozen_def fields)
  ultimately show thesis
    using that shg tx by simp
qed


section \<open>A built factory\<close>

lemma tree_layers_pos: "0 < tree_layers f"
  by (simp add: tree_layers_def dw_n_layers_for_def DW_MAX_LAYERS_def Let_def)

lemma dw_layer_at_start:
  "f_static_depth f = 0 \<Longrightarrow> dw_layer_at (tree_start f) 0 = 0 \<and> 0 \<le> dw_layer_at (tree_start f) d \<and> nat (dw_layer_at (tree_start f) d) < tree_layers f"
  using tree_layers_pos[of f] by (auto simp: dw_layer_at_def dw_counter_init_def Let_def)

lemma root_opened:
  assumes ko: "add_node E alloc (tree_start f) NODE_KICKOFF (0 # cs) None 0 (-1) c = Some (ko, f1)"
    and st: "add_node E alloc f1 NODE_STATE (0 # cs) (Some ko) 0 (dw_layer_at f1 0) c' = Some (st, f2)" and g: "g = open_state ko st x fee f2"
    and u: "uniform f a" and small: "max_outputs_per_node (f_config f) < 2 ^ 32" and static: "f_static_depth f = 0"
  shows "settings g = settings (tree_start f)" "st = 1" "length (f_nodes g) = 2" "uniform g a" "small_config g" "nd_layer (f_nodes g ! 1) = 0"
    "nd_type (f_nodes g ! 1) = NODE_STATE" "\<not> nd_static (f_nodes g ! 1)" "\<not> nd_ps_leaf (f_nodes g ! 1)" "nd_outputs (f_nodes g ! 1) = []"
    "nd_signers (f_nodes g ! 1) = 0 # cs" "nd_type (f_nodes g ! 0) = NODE_KICKOFF \<and> \<not> nd_static (f_nodes g ! 0)"
proof -
  note A = add_node_Some[OF ko, simplified] and B = add_node_Some[OF st]
  show S: "settings g = settings (tree_start f)"
    using growsD(1)[OF A(2)] growsD(1)[OF B(2)] A B by (simp add: g)
  have L: "f_leaf_nodes g = f_leaf_nodes (tree_start f)"
    using A B by (simp add: g)
  show 1: "st = 1" "length (f_nodes g) = 2"
    using A(1,3) B(1,3) by (auto simp: g)
  have "uniform (tree_start f) a" "small_config (tree_start f)"
    using u small by (simp_all add: uniform_def small_config_def)
  then show "uniform g a" "small_config g"
    using settings_fields[OF S] L small_config_cong[OF S] by (simp_all add: uniform_def)
  have at: "f_nodes g ! 1 = (f_nodes f2 ! 1)\<lparr>nd_input := x - fee\<rparr>" "nd_type (f_nodes g ! 0) = nd_type (f_nodes f2 ! 0)"
    "nd_static (f_nodes g ! 0) = nd_static (f_nodes f2 ! 0)"
    using 1 A(1) by (simp_all add: g open_state_def)
  have "nd_layer (f_nodes f2 ! 1) = 0" "nd_type (f_nodes f2 ! 1) = NODE_STATE" "\<not> nd_static (f_nodes f2 ! 1)" "\<not> nd_ps_leaf (f_nodes f2 ! 1)"
    "nd_outputs (f_nodes f2 ! 1) = []" "nd_signers (f_nodes f2 ! 1) = 0 # cs"
    using B(7-12) A(1,3) 1(1) settings_cong(9)[OF growsD(1)[OF A(2)]] dw_layer_at_start[OF static] by auto
  then show "nd_layer (f_nodes g ! 1) = 0" "nd_type (f_nodes g ! 1) = NODE_STATE" "\<not> nd_static (f_nodes g ! 1)" "\<not> nd_ps_leaf (f_nodes g ! 1)"
    "nd_outputs (f_nodes g ! 1) = []" "nd_signers (f_nodes g ! 1) = 0 # cs"
    by (simp_all add: at(1) del: One_nat_def)
  have "unlinked (f_nodes f2 ! 0) = unlinked (f_nodes f1 ! 0)"
    using grows_nth[OF B(2), of 0] A(1,3) by simp
  then show "nd_type (f_nodes g ! 0) = NODE_KICKOFF \<and> \<not> nd_static (f_nodes g ! 0)"
    using unlinked_fields(1,14)[of "f_nodes f2 ! 0" "f_nodes f1 ! 0"] A(1,8,12) at(2,3) by simp
qed

lemma built_root:
  assumes sub: "build_subtree m E alloc (tree_start f) cs None 0 0 x 0 = Some (h, lc)" and u: "uniform f a" and small: "max_outputs_per_node (f_config f) < 2 ^ 32"
    and static: "f_static_depth f = 0"
  shows "1 < length (f_nodes h) \<and> nd_type (f_nodes h ! 1) = NODE_STATE \<and> \<not> nd_static (f_nodes h ! 1) \<and> \<not> nd_ps_leaf (f_nodes h ! 1)
      \<and> nd_layer (f_nodes h ! 1) = 0"
    "a < length cs \<Longrightarrow> j < lc \<Longrightarrow> 1 < f_leaf_nodes h ! j"
    "length cs \<le> a \<Longrightarrow> length (f_nodes h) = 2 \<and> f_leaf_nodes h ! 0 = 1 \<and> nd_type (f_nodes h ! 0) = NODE_KICKOFF \<and> \<not> nd_static (f_nodes h ! 0)"
proof -
  have U: "arity_at_depth (tree_start f) d = a" "subtree_is_leaf (tree_start f) a n \<longleftrightarrow> n \<le> a" for d n
    using uniform_arity[of "tree_start f" a] u by (simp_all add: uniform_def)
  from sub have "(1 < length (f_nodes h) \<and> nd_type (f_nodes h ! 1) = NODE_STATE \<and> \<not> nd_static (f_nodes h ! 1) \<and> \<not> nd_ps_leaf (f_nodes h ! 1)
      \<and> nd_layer (f_nodes h ! 1) = 0) \<and> (if a < length cs then \<forall>j<lc. 1 < f_leaf_nodes h ! j
      else length (f_nodes h) = 2 \<and> f_leaf_nodes h ! 0 = 1 \<and> nd_type (f_nodes h ! 0) = NODE_KICKOFF \<and> \<not> nd_static (f_nodes h ! 0))"
  proof (cases rule: build_subtree_cases)
    case (leaf m c c' ko f1 st f2 g)
    define f4 where "f4 = open_state ko st x (f_fee_per_tx (tree_start f)) f2"
    note O = root_opened[OF leaf(5,6) f4_def u small static]
    have cs: "length cs \<le> a"
      using leaf(3) by (simp add: U)
    have set: "setup_leaf E alloc f4 1 a cs (x - f_fee_per_tx (tree_start f)) = Some g"
      using leaf(7) unfolding f4_def[symmetric] unfolding O(2) U .
    have D: "leaf_done E f4 1 (x - f_fee_per_tx (tree_start f)) g"
      using setup_leaf_done[OF set] O by simp
    have C: "leaf_of E f4 cs (f_nodes g ! 1)" "f_leaf_nodes g = f_leaf_nodes f4" "length (f_nodes g) = 2"
      using setup_leaf_channels[OF set O(4) leaf(2) cs] O by simp_all
    have "nd_type (f_nodes g ! 0) = NODE_KICKOFF" "\<not> nd_static (f_nodes g ! 0)" "nd_layer (f_nodes g ! 1) = 0"
      using D O(6,12) unlinked_fields(1,14)[of "f_nodes g ! 0" "f_nodes f4 ! 0"] by (simp_all add: leaf_done_def same_place_def)
    moreover have "0 < length (f_leaf_nodes g)"
      using O(4) by (simp add: C(2) uniform_def FACTORY_MAX_LEAVES_def)
    ultimately show ?thesis
      using C leaf(9) cs O(2) by (auto simp: leaf_of_def)
  next
    case (state m c c' ko f1 st f2)
    define f4 where "f4 = open_state ko st x (f_fee_per_tx (tree_start f)) f2"
    note O = root_opened[OF state(8,9) f4_def u small static]
    have fan: "fan_out (build_subtree m E alloc) 1 (split_clients_for_arity a (length cs)) cs 0 (x - f_fee_per_tx (tree_start f) - f_fee_per_tx f4) f4 0
        = Some (h, lc)"
      using state(10) unfolding f4_def[symmetric] unfolding O(2) U settings_fields(2)[OF O(1)] .
    have rec: "grows f g \<and> leaves_done E f lc g lc' (chunks a cs)"
      if "build_subtree m E alloc f cs (Some idx) vout d x lc = Some (g, lc')" "idx < length (f_nodes f)" "small_config f" "uniform f a"
      for f cs idx vout d x lc g lc'
      using build_subtree_leaves[OF that(1)] build_subtree_done[OF that(1)] that(2-4) by (auto simp: subtree_done_def)
    have rec': "subtree_done E f (Some idx) vout x g"
      if "build_subtree m E alloc f cs (Some idx) vout d x lc = Some (g, lc')" "idx < length (f_nodes f)" "small_config f"
      for f cs idx vout d x lc g lc'
      using build_subtree_done[OF that(1)] that(2-3) by simp
    have cs: "\<not> length cs \<le> a"
      using state(3) by (simp add: U)
    have "leaves_done E f4 0 h lc (chunks a cs)"
      using fan_out_leaves[of "build_subtree m E alloc" 1 a E, OF rec fan] O(3,4,5) cs by simp
    then have "\<forall>j<lc. 1 < f_leaf_nodes h ! j"
      using O(3) by (auto simp: leaves_done_def)
    moreover have "length (split_clients_for_arity a (length cs)) < 2 ^ 32"
      using state(7)[folded f4_def] O(5) by (simp add: U small_config_def)
    then have "leaf_done E f4 1 (x - f_fee_per_tx (tree_start f)) h" "nd_ps_leaf (f_nodes h ! 1) = nd_ps_leaf (f_nodes f4 ! 1)"
      using fan_out_done[of "build_subtree m E alloc" 1 E, OF rec' fan] O(3,5) by simp_all
    ultimately show ?thesis
      using cs O(6-9) by (auto simp: leaf_done_def same_place_def)
  qed (use static in auto)
  then show "1 < length (f_nodes h) \<and> nd_type (f_nodes h ! 1) = NODE_STATE \<and> \<not> nd_static (f_nodes h ! 1) \<and> \<not> nd_ps_leaf (f_nodes h ! 1)
      \<and> nd_layer (f_nodes h ! 1) = 0"
    "a < length cs \<Longrightarrow> j < lc \<Longrightarrow> 1 < f_leaf_nodes h ! j"
    "length cs \<le> a \<Longrightarrow> length (f_nodes h) = 2 \<and> f_leaf_nodes h ! 0 = 1 \<and> nd_type (f_nodes h ! 0) = NODE_KICKOFF \<and> \<not> nd_static (f_nodes h ! 0)"
    by auto
qed


lemma tree_start_leaf_layers:
  "j < tree_leaves f \<Longrightarrow> tree_leaves f \<le> length (f_leaf_layers f) \<Longrightarrow>
   f_leaf_layers (tree_start f) ! j = dw_layer_init (f_step_blocks f) (f_states_per_layer f)"
  "length (f_leaf_layers (tree_start f)) = length (f_leaf_layers f)"
  by (simp_all add: tree_start_def init_leaf_layers_def fee_set_def)

text \<open>The factories whose leaves advance: built with one or two clients a leaf, for at least one client.\<close>

definition leafy :: "(nat list \<Rightarrow> nat list) \<Rightarrow> ('pk, 'xo, 'ca) factory \<Rightarrow> bool" where
  "leafy order f \<longleftrightarrow> length (f_funding_txid f) = 32 \<and> max_outputs_per_node (f_config f) < 2 ^ 32 \<and> f_level_arity f = []
     \<and> (f_leaf_arity f = FACTORY_ARITY_1 \<or> f_leaf_arity f = FACTORY_ARITY_2) \<and> 1 < f_participants f
     \<and> length (f_leaf_nodes f) = FACTORY_MAX_LEAVES \<and> max_leaves (f_config f) \<le> length (f_leaf_layers f)
     \<and> f_static_depth f = 0 \<and> 0 < f_states_per_layer f \<and> length (order [1..<f_participants f]) = f_participants f - 1"

lemma leafyD:
  assumes "leafy order f"
  shows "uniform f (f_leaf_arity f)" "length (f_funding_txid f) = 32" "max_outputs_per_node (f_config f) < 2 ^ 32" "f_static_depth f = 0"
    "0 < f_states_per_layer f" "length (tree_clients order f) = f_participants f - 1" "0 < length (tree_clients order f)"
proof -
  show "uniform f (f_leaf_arity f)" "length (f_funding_txid f) = 32" "max_outputs_per_node (f_config f) < 2 ^ 32" "f_static_depth f = 0"
    "0 < f_states_per_layer f"
    using assms by (auto simp: leafy_def uniform_def FACTORY_ARITY_1_def FACTORY_ARITY_2_def)
  have "f_participants f - 1 + 1 = f_participants f"
    using assms by (auto simp: leafy_def)
  then show "length (tree_clients order f) = f_participants f - 1"
    using assms unfolding tree_clients_def leafy_def by (auto simp only: length_upt split: if_split)
  then show "0 < length (tree_clients order f)"
    using assms by (simp add: leafy_def)
qed

text \<open>What the descent leaves to the factory: its settings, the state of the root, and the leaves.\<close>

lemma built_settings:
  assumes build: "factory_build_tree E alloc order f = Some g" and lf: "leafy order f"
  shows "settings g = settings (tree_start f)" "tree_leaves f \<le> max_leaves (f_config f)"
    "1 < length (f_nodes g)" "nd_type (f_nodes g ! 1) = NODE_STATE" "\<not> nd_static (f_nodes g ! 1)" "\<not> nd_ps_leaf (f_nodes g ! 1)" "nd_layer (f_nodes g ! 1) = 0"
    "j < f_n_leaf_nodes g \<Longrightarrow> f_leaf_nodes g ! j < length (f_nodes g) \<and> nd_type (f_nodes g ! (f_leaf_nodes g ! j)) = NODE_STATE
      \<and> \<not> nd_static (f_nodes g ! (f_leaf_nodes g ! j)) \<and> \<not> nd_ps_leaf (f_nodes g ! (f_leaf_nodes g ! j))"
    "f_leaf_arity f < f_participants f - 1 \<Longrightarrow> rooted g"
    "f_participants f - 1 \<le> f_leaf_arity f \<Longrightarrow> length (f_nodes g) = 2 \<and> f_leaf_nodes g ! 0 = 1 \<and> nd_type (f_nodes g ! 0) = NODE_KICKOFF \<and> \<not> nd_static (f_nodes g ! 0)"
    "i < length (f_nodes g) \<Longrightarrow> stocked E g (f_nodes g ! i)"
proof -
  note L = leafyD[OF lf]
  obtain h lc where nl: "tree_leaves f \<le> max_leaves (f_config f)" and
    sub: "build_subtree (f_participants f - 1) E alloc (tree_start f) (tree_clients order f) None 0 0 (f_funding_amount f) 0 = Some (h, lc)"
    and txs: "build_txs E alloc [0..<length (f_nodes h)] h = (True, g)"
    by (rule factory_build_tree_cases[OF build])
  have T: "same_tree h g"
    using build_txs_frame[OF txs] by simp
  have "subtree_done E (tree_start f) None 0 (f_funding_amount f) h"
    using build_subtree_done[OF sub] L(3) by (simp add: small_config_def)
  then show S: "settings g = settings (tree_start f)"
    using same_treeD(1)[OF T] by (simp add: subtree_done_def grows_def)
  show "tree_leaves f \<le> max_leaves (f_config f)"
    by (rule nl)
  note R = built_root[OF sub L(1,3,4)]
  show "1 < length (f_nodes g)" "nd_type (f_nodes g ! 1) = NODE_STATE" "\<not> nd_static (f_nodes g ! 1)" "\<not> nd_ps_leaf (f_nodes g ! 1)" "nd_layer (f_nodes g ! 1) = 0"
    using R(1) by (simp_all add: same_treeD(3)[OF T] txless_fields[OF same_treeD(4)[OF T]])
  have lc: "lc = f_n_leaf_nodes g"
    using build_subtree_leaves[OF sub, of "f_leaf_arity f"] L(1,3) built_leaves(1)[OF build L(3,1,6)] by (simp add: uniform_def leaves_done_def small_config_def)
  show "j < f_n_leaf_nodes g \<Longrightarrow> f_leaf_nodes g ! j < length (f_nodes g) \<and> nd_type (f_nodes g ! (f_leaf_nodes g ! j)) = NODE_STATE
      \<and> \<not> nd_static (f_nodes g ! (f_leaf_nodes g ! j)) \<and> \<not> nd_ps_leaf (f_nodes g ! (f_leaf_nodes g ! j))"
    using built_leaves(5)[OF build L(3,1,6), of j] by (auto simp: leaf_of_def)
  show "f_leaf_arity f < f_participants f - 1 \<Longrightarrow> rooted g"
    using R(2) L(6) lc same_treeD(2)[OF T] by (fastforce simp: rooted_def)
  show "f_participants f - 1 \<le> f_leaf_arity f \<Longrightarrow> length (f_nodes g) = 2 \<and> f_leaf_nodes g ! 0 = 1 \<and> nd_type (f_nodes g ! 0) = NODE_KICKOFF \<and> \<not> nd_static (f_nodes g ! 0)"
    using R(3) L(6) by (simp add: same_treeD(2,3)[OF T] txless_fields[OF same_treeD(4)[OF T]])
  have "stock_done E (tree_start f) None h"
    using build_subtree_stock[OF sub, of "f_leaf_arity f"] L(1,3) by (simp add: uniform_def small_config_def)
  then show "i < length (f_nodes g) \<Longrightarrow> stocked E g (f_nodes g ! i)"
    by (simp add: stock_done_def same_treeD(3)[OF T] stocked_same_tree[OF T])
qed

lemma built_layers:
  assumes "factory_build_tree E alloc order f = Some g" and "leafy order f"
  shows "layers (f_counter g) = map (\<lambda>i. dw_layer_init (f_step_blocks f) (f_states_per_layer f)) [0..<tree_layers f]"
    "f_n_leaf_nodes g = tree_leaves f" "f_n_leaf_nodes g \<le> length (f_leaf_layers g)"
    "j < f_n_leaf_nodes g \<Longrightarrow> f_leaf_layers g ! j = dw_layer_init (f_step_blocks f) (f_states_per_layer f)"
  using built_settings(2)[OF assms] assms(2) tree_start_leaf_layers[where f = f]
  by (simp_all add: settings_fields[OF built_settings(1)[OF assms]] dw_counter_init_def leafy_def)

lemma built_layered:
  assumes "secp_lengths E" and "factory_build_tree E alloc order f = Some g" and "leafy order f" and "i < length (f_nodes g)"
  shows "nd_type (f_nodes g ! i) = NODE_KICKOFF \<or> nd_ps_leaf (f_nodes g ! i)
    \<or> 0 \<le> nd_layer (f_nodes g ! i) \<and> nat (nd_layer (f_nodes g ! i)) < length (layers (f_counter g))"
  using factory_build_tree_nodes(2)[OF assms(1) leafyD(2,3)[OF assms(3)] assms(2,4)] dw_layer_at_start[OF leafyD(4)[OF assms(3)]]
    settings_cong(9)[OF built_settings(1)[OF assms(2,3)]] built_layers(1)[OF assms(2,3)]
  by (auto simp: node_good_def node_layered_def)

lemma built_adv_shape:
  assumes E: "secp_lengths E" and build: "factory_build_tree E alloc order f = Some g" and lf: "leafy order f"
  shows "adv_shape E g"
proof -
  note L = leafyD[OF lf] and S = built_settings[OF build lf] and N = factory_build_tree_nodes[OF E leafyD(2,3)[OF lf] build]
  have "layers (f_counter g) \<noteq> []" "length (f_funding_txid g) = 32" "\<forall>i<length (f_nodes g). stocked E g (f_nodes g ! i)"
    using tree_layers_pos[of f] L(2) lf built_layers(1)[OF build lf] S(11) by (simp_all add: settings_fields[OF S(1)] leafy_def)
  moreover have "\<forall>i<length (f_nodes g). \<forall>p. nd_parent (f_nodes g ! i) = Some p \<longrightarrow> p < i"
  proof (intro allI impI)
    fix i p assume i: "i < length (f_nodes g)" and "nd_parent (f_nodes g ! i) = Some p"
    then show "p < i"
      using N(3)[OF i] N(4)[OF i] by (cases "i = 0") (auto simp: node_linked_def)
  qed
  moreover have "\<forall>i<length (f_nodes g). nd_static (f_nodes g ! i) \<or> nd_type (f_nodes g ! i) = NODE_KICKOFF \<or> nd_ps_leaf (f_nodes g ! i)
      \<or> 0 \<le> nd_layer (f_nodes g ! i) \<and> nat (nd_layer (f_nodes g ! i)) < length (layers (f_counter g))"
    using built_layered[OF E build lf] by blast
  moreover have "\<forall>j<f_n_leaf_nodes g. f_leaf_nodes g ! j < length (f_nodes g) \<and> nd_type (f_nodes g ! (f_leaf_nodes g ! j)) = NODE_STATE
      \<and> \<not> nd_static (f_nodes g ! (f_leaf_nodes g ! j)) \<and> \<not> nd_ps_leaf (f_nodes g ! (f_leaf_nodes g ! j))"
    using S(8) by blast
  moreover have "\<forall>j m. j < m \<and> m < f_n_leaf_nodes g \<longrightarrow> f_leaf_nodes g ! j \<noteq> f_leaf_nodes g ! m"
    using built_leaves(6)[OF build L(3,1,6)] by (metis less_irrefl)
  ultimately show ?thesis
    unfolding adv_shape_def using S(3-7) built_layers(3)[OF build lf] by (intro conjI) assumption+
qed

lemma built_adv_state:
  assumes E: "secp_lengths E" and build: "factory_build_tree E alloc order f = Some g" and lf: "leafy order f"
  shows "adv_state (f_step_blocks f) (f_states_per_layer f) g"
proof -
  let ?init = "dw_layer_init (f_step_blocks f) (f_states_per_layer f)"
  note shape = built_adv_shape[OF E build lf] and S = built_settings[OF build lf] and Y = built_layers[OF build lf]
  have tx: "tx_built E g i" if "i < length (f_nodes g)" for i
    using factory_build_tree_nodes(1)[OF E leafyD(2,3)[OF lf] build that] .
  have ns: "nd_nsequence (f_nodes g ! i) = s" if "node_nsequence g i = Some s" "i < length (f_nodes g)" for i s
    using tx[OF that(2)] that(1) by (simp add: tx_built_def)
  have "nd_nsequence (f_nodes g ! (f_leaf_nodes g ! j)) = dw_current_nsequence ?init" if j: "j < f_n_leaf_nodes g" for j
  proof (cases "f_per_leaf g")
    case True
    then show ?thesis using adv_shapeD(3)[OF shape j] ns S(8)[OF j] Y(4)[OF j] by simp
  next
    case False
    then show ?thesis using built_layered[OF E build lf, of "f_leaf_nodes g ! j"] S(8)[OF j] by (intro ns) (auto simp: node_nsequence_def Y(1))
  qed
  moreover have "nd_nsequence (f_nodes g ! 1) = dw_current_nsequence ?init" if "rooted g"
    using ns[OF adv_shapeD(4)[OF shape that] S(3)] tree_layers_pos[of f] by (simp add: Y(1))
  moreover have "i < length (f_nodes g) \<Longrightarrow> length (nd_txid (f_nodes g ! i)) = 32" for i
    using tx[of i] E by (simp add: tx_built_def secp_lengths_def)
  ultimately show ?thesis
    unfolding adv_state_def using Y(4) layer_inv_init[OF leafyD(5)[OF lf]] tree_layers_pos[of f] settings_fields(18,19)[OF S(1)] by (simp add: Y(1))
qed

section \<open>Any history of advances\<close>

definition leaf_run ::
  "('pk, 'xo, 'ca) secp \<Rightarrow> (nat \<Rightarrow> bool) \<Rightarrow> nat list \<Rightarrow> ('pk, 'xo, 'ca) factory \<Rightarrow> ('pk, 'xo, 'ca) factory" where
  "leaf_run E alloc js f = fold (\<lambda>j f. snd (factory_advance_leaf_unsigned E alloc f j)) js f"

lemma layer_exhausted:
  "layer_inv step k l \<Longrightarrow> unat step * (unat k - 1) < 65536 \<Longrightarrow> \<not> fst (dw_advance l) \<Longrightarrow> dw_current_nsequence l = 0"
proof -
  assume i: "layer_inv step k l" and fit: "unat step * (unat k - 1) < 65536" and "\<not> fst (dw_advance l)"
  then have "unat k - 1 - unat (current_state l) = 0"
    using dw_advance_ok_iff[OF i] by simp
  then have "unat (dw_current_nsequence l) = 0"
    by (simp only: unat_current_nsequence[OF i fit] mult_0_right)
  then show ?thesis by (simp only: unat_eq_0)
qed

lemma longest_lock:
  "0 < k \<Longrightarrow> unat step * (unat k - 1) < 65536 \<Longrightarrow> unat (dw_current_nsequence (dw_layer_init step k)) = unat step * (unat k - 1)"
  using unat_current_nsequence[OF layer_inv_init] by (simp add: dw_layer_init_def)

lemma layer_step:
  assumes i: "layer_inv step k l" and fit: "unat step * (unat k - 1) < 65536" and adv: "dw_advance l = (True, l')"
  shows "unat (dw_current_nsequence l') + unat step = unat (dw_current_nsequence l)"
proof -
  have l': "unat (current_state l') = unat (current_state l) + 1" "layer_inv step k l'" and lt: "unat (current_state l) + 1 < unat k"
    using dw_advance_state[OF i] dw_advance_inv[OF i] dw_advance_ok_iff[OF i] adv by auto
  then have "unat k - 1 - unat (current_state l) = (unat k - 1 - unat (current_state l')) + 1"
    by linarith
  then show ?thesis
    by (simp only: unat_current_nsequence[OF i fit] unat_current_nsequence[OF l'(2) fit]) simp
qed

lemma advance_leaf_stuck:
  assumes "adv_shape E f" and "j < f_n_leaf_nodes f" and "\<not> fst (dw_advance (f_leaf_layers f ! j))" and "\<not> fst (dw_advance (layers (f_counter f) ! 0))"
  shows "factory_advance_leaf_unsigned E alloc f j = (0, f\<lparr>f_per_leaf := True\<rparr>)"
  using assms by (auto simp: factory_advance_leaf_unsigned_def advance_root_layer_def adv_shape_def case_prod_unfold Let_def split: bool.split)

lemma adv_per_leaf:
  "adv_shape E (f\<lparr>f_per_leaf := True\<rparr>) = adv_shape E f" "adv_state step k (f\<lparr>f_per_leaf := True\<rparr>) = adv_state step k f"
  using stocked_cong[of "f\<lparr>f_per_leaf := True\<rparr>" f E] by (simp_all add: adv_shape_def adv_state_def rooted_def)

lemma advance_leaf_keeps:
  assumes "secp_lengths E" and "\<And>n. alloc n" and "adv_shape E f" and "adv_state step k f"
  shows "adv_shape E (snd (factory_advance_leaf_unsigned E alloc f j)) \<and> adv_state step k (snd (factory_advance_leaf_unsigned E alloc f j))
    \<and> frozen f (snd (factory_advance_leaf_unsigned E alloc f j))"
proof -
  consider "\<not> j < f_n_leaf_nodes f" | l where "j < f_n_leaf_nodes f" "dw_advance (f_leaf_layers f ! j) = (True, l)"
    | l where "j < f_n_leaf_nodes f" "\<not> fst (dw_advance (f_leaf_layers f ! j))" "dw_advance (layers (f_counter f) ! 0) = (True, l)"
    | "j < f_n_leaf_nodes f" "\<not> fst (dw_advance (f_leaf_layers f ! j))" "\<not> fst (dw_advance (layers (f_counter f) ! 0))"
    by (metis (full_types) prod.collapse)
  then show ?thesis
  proof cases
    case 1
    then show ?thesis using assms by (simp add: factory_advance_leaf_unsigned_def)
  next
    case 2
    show ?thesis
      by (rule advance_leaf_inner[where alloc = alloc, OF assms 2]) (auto intro: frozen_same_tree[OF frozen_refl(3)])
  next
    case 3
    show ?thesis
      by (rule advance_leaf_outer[where alloc = alloc, OF assms 3]) auto
  next
    case 4
    then show ?thesis
      using advance_leaf_stuck[OF assms(3) 4] assms(3,4) by (auto simp: adv_per_leaf)
  qed
qed

lemma leaf_run_inv:
  assumes "secp_lengths E" and "\<And>n. alloc n"
  shows "adv_shape E f \<Longrightarrow> adv_state step k f \<Longrightarrow> adv_shape E (leaf_run E alloc js f) \<and> adv_state step k (leaf_run E alloc js f)
    \<and> frozen f (leaf_run E alloc js f)"
proof (induction js arbitrary: f)
  case (Cons j js)
  then show ?case
    using advance_leaf_keeps[where alloc = alloc, OF assms Cons.prems, of j] Cons.IH[of "snd (factory_advance_leaf_unsigned E alloc f j)"]
    by (auto simp: leaf_run_def intro: frozen_trans)
qed (simp add: leaf_run_def)






section \<open>A factory of one leaf\<close>

text \<open>While the leaf has states left, every advance takes one and touches neither the counter of the root nor another node.\<close>

lemma leaf_countdown:
  assumes "secp_lengths E" and "\<And>n. alloc n"
  shows "adv_shape E f \<Longrightarrow> adv_state step k f \<Longrightarrow> 0 < f_n_leaf_nodes f \<Longrightarrow> unat (current_state (f_leaf_layers f ! 0)) + n < unat k \<Longrightarrow>
    unat (current_state (f_leaf_layers (leaf_run E alloc (replicate n 0) f) ! 0)) = unat (current_state (f_leaf_layers f ! 0)) + n
    \<and> f_counter (leaf_run E alloc (replicate n 0) f) = f_counter f
    \<and> (\<forall>i. i \<noteq> f_leaf_nodes f ! 0 \<longrightarrow> f_nodes (leaf_run E alloc (replicate n 0) f) ! i = f_nodes f ! i)"
proof (induction n arbitrary: f)
  case (Suc n)
  let ?l = "f_leaf_layers f ! 0"
  have inv: "layer_inv step k ?l"
    using Suc.prems(2,3) by (simp add: adv_state_def)
  then obtain l where l: "dw_advance ?l = (True, l)" "unat (current_state l) = unat (current_state ?l) + 1"
    using dw_advance_ok_iff[OF inv] dw_advance_state[OF inv] Suc.prems(4) by (cases "dw_advance ?l") auto
  obtain g where g: "factory_advance_leaf_unsigned E alloc f 0 = (1, g)" "adv_shape E g" "adv_state step k g"
    "same_tree (f\<lparr>f_per_leaf := True, f_leaf_layers := (f_leaf_layers f)[0 := l]\<rparr>) g" "\<And>i. i \<noteq> f_leaf_nodes f ! 0 \<Longrightarrow> f_nodes g ! i = f_nodes f ! i"
    using advance_leaf_inner[where alloc = alloc, OF assms Suc.prems(1-3) l(1)] by metis
  have "0 < length (f_leaf_layers f)"
    using Suc.prems(1,3) unfolding adv_shape_def by linarith
  then have F: "f_leaf_layers g ! 0 = l" "f_counter g = f_counter f" "f_n_leaf_nodes g = f_n_leaf_nodes f" "f_leaf_nodes g = f_leaf_nodes f"
    using settings_fields[OF same_treeD(1)[OF g(4)]] same_treeD(2)[OF g(4)] by simp_all
  show ?case
    using Suc.IH[OF g(2,3)] Suc.prems(3,4) F l(2) g(1,5) by (simp add: leaf_run_def)
qed (simp add: leaf_run_def)

lemma restarted_txs:
  assumes "adv_shape E f" and "frozen f g" and "adv_state step k f" and "adv_state step k g" and "f_leaf_layers g ! 0 = f_leaf_layers f ! 0"
    and "\<And>i. i < length (f_nodes f) \<Longrightarrow> tx_built E f i" and "\<And>i. i < length (f_nodes f) \<Longrightarrow> tx_built E g i" and "0 < f_n_leaf_nodes f"
    and "length (f_nodes f) = 2" "f_leaf_nodes f ! 0 = 1" "nd_type (f_nodes f ! 0) = NODE_KICKOFF" "\<not> nd_static (f_nodes f ! 0)"
  shows "nd_nsequence (f_nodes g ! 0) = NSEQUENCE_DISABLE_BIP68" "i < 2 \<Longrightarrow> node_tx g i = node_tx f i"
proof -
  have t: "txless (f_nodes g ! 0) = txless (f_nodes f ! 0)"
    using assms(2) by (simp add: frozen_def)
  show g0: "nd_nsequence (f_nodes g ! 0) = NSEQUENCE_DISABLE_BIP68"
    using assms(7)[of 0] assms(9,11,12) by (simp add: tx_built_def node_nsequence_def txless_fields[OF t])
  have f0: "nd_nsequence (f_nodes f ! 0) = NSEQUENCE_DISABLE_BIP68"
    using assms(6)[of 0] assms(9,11,12) by (simp add: tx_built_def node_nsequence_def)
  have "nd_nsequence (f_nodes h ! (f_leaf_nodes h ! 0)) = dw_current_nsequence (f_leaf_layers h ! 0)"
    if "adv_state step k h" "0 < f_n_leaf_nodes h" for h :: "('a, 'b, 'c) factory"
    using that by (simp add: adv_state_def)
  from this[OF assms(3)] this[OF assms(4)] have "nd_nsequence (f_nodes g ! 1) = nd_nsequence (f_nodes f ! 1)"
    using assms(2,5,8,10) by (simp add: frozen_def)
  then have "nd_nsequence (f_nodes g ! i) = nd_nsequence (f_nodes f ! i)" if "i < length (f_nodes f)" for i
    using that f0 g0 assms(9) by (cases i) (auto simp: less_Suc_eq numeral_2_eq_2)
  then show "i < 2 \<Longrightarrow> node_tx g i = node_tx f i"
    using frozen_txs[OF assms(2,6,7) _ assms(1), of i] assms(9) by simp
qed

lemma single_leaf_rollover:
  assumes "secp_lengths E" and "\<And>n. alloc n" and "factory_build_tree E alloc order f = Some g" and "leafy order f"
    and "unat (f_step_blocks f) * (unat (f_states_per_layer f) - 1) < 65536" and "f_leaf_nodes g ! 0 = 1" and "2 \<le> f_states_per_layer f"
    and "now = leaf_run E alloc (replicate (unat (f_states_per_layer f) - 1) 0) g" and n: "0 < f_n_leaf_nodes g"
  obtains h where "factory_advance_leaf_unsigned E alloc now 0 = (-1, h)" and "adv_state (f_step_blocks f) (f_states_per_layer f) h" and "frozen g now"
    and "frozen g h" and "\<And>i. i < length (f_nodes h) \<Longrightarrow> tx_built E h i" and "f_leaf_layers h ! 0 = dw_layer_init (f_step_blocks f) (f_states_per_layer f)"
    and "nd_nsequence (f_nodes now ! 1) = 0" and "f_nodes now ! 0 = f_nodes g ! 0"
proof -
  let ?step = "f_step_blocks f" and ?k = "f_states_per_layer f" and ?init = "dw_layer_init (f_step_blocks f) (f_states_per_layer f)"
  note shape = built_adv_shape[OF assms(1,3,4)] and state = built_adv_state[OF assms(1,3,4)] and Y = built_layers[OF assms(3,4)]
  have k: "2 \<le> unat ?k" "unat ?k - 1 + 1 = unat ?k"
    using assms(7) by (simp_all add: word_le_nat_alt)
  have now: "adv_shape E now" "adv_state ?step ?k now" "frozen g now"
    using leaf_run_inv[where alloc = alloc, OF assms(1,2) shape state] assms(8) by blast+
  have cnt: "unat (current_state (f_leaf_layers now ! 0)) = unat ?k - 1" "f_counter now = f_counter g" "f_nodes now ! 0 = f_nodes g ! 0"
    using leaf_countdown[where alloc = alloc and n = "unat ?k - 1", OF assms(1,2) shape state n] k Y(4)[OF n] assms(6,8)
    by (auto simp: dw_layer_init_def)
  have n': "0 < f_n_leaf_nodes now" "f_leaf_nodes now ! 0 = 1"
    using now(3) n assms(6) by (simp_all add: frozen_def)
  have lf: "layer_inv ?step ?k (f_leaf_layers now ! 0)" "nd_nsequence (f_nodes now ! 1) = dw_current_nsequence (f_leaf_layers now ! 0)"
    using now(2) n' by (auto simp: adv_state_def)
  have stuck: "\<not> fst (dw_advance (f_leaf_layers now ! 0))"
    using dw_advance_ok_iff[OF lf(1)] cnt(1) k by simp
  have "layers (f_counter now) ! 0 = ?init"
    using Y(1) tree_layers_pos[of f] cnt(2) by simp
  moreover have "fst (dw_advance ?init)"
    using dw_advance_ok_iff[OF layer_inv_init[OF leafyD(5)[OF assms(4)]]] k by (simp add: dw_layer_init_def)
  ultimately obtain l where "dw_advance (layers (f_counter now) ! 0) = (True, l)"
    by (cases "dw_advance ?init") auto
  then obtain h where h: "factory_advance_leaf_unsigned E alloc now 0 = (-1, h)" "adv_state ?step ?k h" "frozen now h"
    "\<And>i. i < length (f_nodes h) \<Longrightarrow> tx_built E h i" "\<And>m. m < f_n_leaf_nodes h \<Longrightarrow> f_leaf_layers h ! m = ?init"
    using advance_leaf_outer[where alloc = alloc, OF assms(1,2) now(1,2) n'(1) stuck] by metis
  have "f_leaf_layers h ! 0 = ?init"
    using h(3,5) n'(1) by (simp add: frozen_def)
  then show thesis
    using that h now(3) frozen_trans[OF now(3) h(3)] layer_exhausted[OF lf(1) assms(5) stuck] lf(2) cnt(3) by simp
qed

text \<open>C26: A factory whose one leaf holds all clients does not keep old states out.  Its state node hangs directly under the kickoff,
  which has no lock.  Advance the leaf until its states are used up: its lock is zero.  The next advance answers -1, as if a layer
  above had become newer, yet it rebuilds, byte for byte, the two transactions the factory started with: the newest state spends the same
  output as all states before it, with the longest lock of them all.\<close>

theorem single_leaf_advance_restarts:
  fixes E :: "('pk, 'xo, 'ca) secp" and f g :: "('pk, 'xo, 'ca) factory"
  assumes "secp_lengths E" and "\<And>n. alloc n" and "factory_build_tree E alloc order f = Some g" and "leafy order f"
    and "unat (f_step_blocks f) * (unat (f_states_per_layer f) - 1) < 65536" and "f_participants f - 1 \<le> f_leaf_arity f" and "2 \<le> f_states_per_layer f"
    and "now = leaf_run E alloc (replicate (unat (f_states_per_layer f) - 1) 0) g" and "factory_advance_leaf_unsigned E alloc now 0 = (r, new)"
  shows "r = -1 \<and> nd_nsequence (f_nodes now ! 1) = 0
     \<and> unat (nd_nsequence (f_nodes new ! 1)) = unat (f_step_blocks f) * (unat (f_states_per_layer f) - 1)
     \<and> node_outpoint new (f_nodes new ! 1) = node_outpoint now (f_nodes now ! 1)
     \<and> nd_nsequence (f_nodes new ! 0) = NSEQUENCE_DISABLE_BIP68 \<and> length (f_nodes new) = 2
     \<and> map (\<lambda>n. buf_data (nd_unsigned_tx n)) (f_nodes new) = map (\<lambda>n. buf_data (nd_unsigned_tx n)) (f_nodes g)"
proof -
  note shape = built_adv_shape[OF assms(1,3,4)] and state = built_adv_state[OF assms(1,3,4)] and Y = built_layers[OF assms(3,4)]
    and built = factory_build_tree_nodes(1)[OF assms(1) leafyD(2,3)[OF assms(4)] assms(3)]
  have one: "length (f_nodes g) = 2" "f_leaf_nodes g ! 0 = 1" "nd_type (f_nodes g ! 0) = NODE_KICKOFF" "\<not> nd_static (f_nodes g ! 0)"
    using built_settings(10)[OF assms(3,4,6)] by simp_all
  have n: "0 < f_n_leaf_nodes g"
    using built_leaves(1)[OF assms(3) leafyD(3,1,6)[OF assms(4)]] leafyD(7)[OF assms(4)] by (cases "tree_clients order f") auto
  obtain h where h: "factory_advance_leaf_unsigned E alloc now 0 = (-1, h)" "adv_state (f_step_blocks f) (f_states_per_layer f) h" "frozen g now" "frozen g h"
    "\<And>i. i < length (f_nodes h) \<Longrightarrow> tx_built E h i" "f_leaf_layers h ! 0 = dw_layer_init (f_step_blocks f) (f_states_per_layer f)"
    "nd_nsequence (f_nodes now ! 1) = 0" "f_nodes now ! 0 = f_nodes g ! 0"
    by (rule single_leaf_rollover[where alloc = alloc, OF assms(1-5) one(2) assms(7,8) n]) blast
  have len: "length (f_nodes h) = 2" and n': "0 < f_n_leaf_nodes h" "f_leaf_nodes h ! 0 = 1"
    using h(4) one(1,2) n by (simp_all add: frozen_def)
  have same: "nd_nsequence (f_nodes h ! 0) = NSEQUENCE_DISABLE_BIP68" "\<And>i. i < 2 \<Longrightarrow> node_tx h i = node_tx g i"
    using restarted_txs[OF shape h(4) state h(2) _ built _ n one] h(5,6) Y(4)[OF n] one(1) len by simp_all
  have "map (\<lambda>n. buf_data (nd_unsigned_tx n)) (f_nodes h) = map (\<lambda>n. buf_data (nd_unsigned_tx n)) (f_nodes g)"
    using same(2) h(5) built len one(1) by (intro nth_equalityI) (simp_all add: tx_built_def)
  moreover have "node_outpoint now (f_nodes now ! 1) = node_outpoint g (f_nodes g ! 1)"
    using frozen_outpoint[OF h(3), of 1] adv_shapeD(1)[OF shape, of 1] one(1) h(8) by fastforce
  moreover have "node_outpoint h (f_nodes h ! 1) = node_outpoint g (f_nodes g ! 1)"
    using same(2)[of 1] by (simp add: node_tx_def prod_eq_iff)
  moreover have "nd_nsequence (f_nodes h ! 1) = dw_current_nsequence (dw_layer_init (f_step_blocks f) (f_states_per_layer f))"
    using h(2,6) n' by (auto simp: adv_state_def)
  ultimately show ?thesis
    using h(1,7) same(1) len assms(9) longest_lock[OF leafyD(5)[OF assms(4)] assms(5)] by simp
qed

lemma single_sample_built:
  obtains g where "factory_build_tree flat_secp (\<lambda>_. True) id (sample_factory 2 200 100000) = Some g"
proof -
  have "factory_build_tree flat_secp (\<lambda>_. True) id (sample_factory 2 200 100000) \<noteq> None"
    by code_simp
  with that show thesis by auto
qed

theorem single_leaf_advance_restarts_witness:
  "\<exists>g new. factory_build_tree flat_secp (\<lambda>_. True) id (sample_factory 2 200 100000) = Some g
     \<and> factory_advance_leaf_unsigned flat_secp (\<lambda>_. True) (leaf_run flat_secp (\<lambda>_. True) [0, 0, 0] g) 0 = (-1, new)
     \<and> nd_nsequence (f_nodes (leaf_run flat_secp (\<lambda>_. True) [0, 0, 0] g) ! 1) = 0 \<and> unat (nd_nsequence (f_nodes new ! 1)) = 30
     \<and> map (\<lambda>n. buf_data (nd_unsigned_tx n)) (f_nodes new) = map (\<lambda>n. buf_data (nd_unsigned_tx n)) (f_nodes g)"
proof -
  let ?f = "sample_factory 2 200 100000"
  obtain g where g: "factory_build_tree flat_secp (\<lambda>_. True) id ?f = Some g"
    by (rule single_sample_built)
  have f: "leafy id ?f" "unat (f_step_blocks ?f) * (unat (f_states_per_layer ?f) - 1) < 65536" "f_participants ?f - 1 \<le> f_leaf_arity ?f"
    "2 \<le> f_states_per_layer ?f" "f_step_blocks ?f = 10" "f_states_per_layer ?f = 4"
    by (simp_all add: leafy_def sample_factory_def factory_config_default_def FACTORY_MAX_OUTPUTS_def FACTORY_ARITY_1_def)
  obtain r new where adv: "factory_advance_leaf_unsigned flat_secp (\<lambda>_. True) (leaf_run flat_secp (\<lambda>_. True) [0, 0, 0] g) 0 = (r, new)"
    by fastforce
  have "leaf_run flat_secp (\<lambda>_. True) [0, 0, 0] g = leaf_run flat_secp (\<lambda>_. True) (replicate (unat (f_states_per_layer ?f) - 1) 0) g"
    by (simp add: f(6) numeral_3_eq_3)
  from single_leaf_advance_restarts[OF flat_secp_lengths TrueI g f(1-4) this adv] g adv f(5,6) show ?thesis
    by auto
qed


section \<open>Pseudo-Spilman leaves at a roll-over\<close>

text \<open>When the chain of a pseudo-Spilman leaf rolls the root over, the chain starts again from the output of the parent, but the
  leaf keeps the outputs of the last link of its old chain, one shrunken channel output after the first link.\<close>

lemma reset_ps_chains_outputs: "nd_outputs (f_nodes (reset_ps_chains f) ! i) = nd_outputs (f_nodes f ! i)"
proof -
  have "nd_outputs (f_nodes (foldl (\<lambda>f li. if nd_ps_leaf (f_nodes f ! li) then set_node li (\<lambda>n. n\<lparr>nd_chain_len := 0\<rparr>) f else f) h ls) ! i)
      = nd_outputs (f_nodes h ! i)" for ls and h :: "('pk, 'xo, 'ca) factory"
    by (induction ls arbitrary: h) auto
  then show ?thesis
    by (simp add: reset_ps_chains_def)
qed

lemma reset_ps_chains_shachain: "f_shachain (reset_ps_chains f) = f_shachain f"
proof -
  have "f_shachain (foldl (\<lambda>f li. if nd_ps_leaf (f_nodes f ! li) then set_node li (\<lambda>n. n\<lparr>nd_chain_len := 0\<rparr>) f else f) h ls) = f_shachain h"
    for ls and h :: "('pk, 'xo, 'ca) factory"
    by (induction ls arbitrary: h) (auto simp: set_node_def)
  then show ?thesis
    by (simp add: reset_ps_chains_def)
qed

lemma ps_rollover_keeps_outputs:
  assumes "factory_advance_leaf_unsigned E alloc f j = (-1, g)" and "nd_ps_leaf (f_nodes f ! (f_leaf_nodes f ! j))" and "\<not> f_shachain f"
  shows "nd_outputs (f_nodes g ! (f_leaf_nodes f ! j)) = nd_outputs (f_nodes f ! (f_leaf_nodes f ! j))"
proof -
  let ?i = "f_leaf_nodes f ! j"
  define f1 where "f1 = set_node ?i (\<lambda>n. n\<lparr>nd_prev_txid := nd_txid n, nd_prev_chan_amount := amount_sats (nd_outputs (f_nodes f ! ?i) ! 0),
    nd_chain_len := nd_chain_len n + 1\<rparr>) f"
  have f1: "nd_outputs (f_nodes f1 ! ?i) = nd_outputs (f_nodes f ! ?i)" "\<not> f_shachain f1"
    using assms(3) by (simp_all add: f1_def) (simp add: set_node_def)
  have "advance_ps_leaf E alloc ?i f = (-1, g)"
    using assms(1,2) by (simp add: factory_advance_leaf_unsigned_def split: if_split_asm)
  then obtain f2 where f2: "advance_root_layer f1 = Some f2" "rebuild_all E alloc (reset_ps_chains f2) = (True, g)"
    unfolding advance_ps_leaf_def Let_def f1_def[symmetric]
    by (auto split: if_split_asm option.split_asm prod.split_asm)
  have "f_nodes f2 = f_nodes f1" "\<not> f_shachain f2"
    using f2(1) f1(2) by (auto simp: advance_root_layer_def split: prod.split_asm bool.split_asm)
  moreover from this have "build_all_unsigned_txs E alloc (reset_ps_chains f2) = (True, g)"
    using f2(2) by (simp add: rebuild_all_def update_l_stock_outputs_def reset_ps_chains_shachain)
  then have "same_tree (reset_ps_chains f2) g"
    unfolding build_all_unsigned_txs_def by (blast dest: build_txs_frame)
  ultimately show ?thesis
    using f1(1) by (simp add: txless_fields(6)[OF same_treeD(4)] reset_ps_chains_outputs)
qed

end
