(* ===== verification/Spec2Isabelle.thy ===== *)
theory Spec2Isabelle
  imports DW_State CTV_Hier Resolution Funding Fees Shachain Growth Rate_Limit Bech32m Inbound Factory_Safety
begin

text \<open>
  \<^bold>\<open>The program.\<close>  SuperScalar lets a liquidity provider (LSP) open Lightning channels for many clients
  from one funding output.  A \<^emph>\<open>factory\<close> is a tree of pre-signed transactions over that output: its
  leaves pay the channels, and its levels carry relative locks that shrink with every new state
  (Decker-Wattenhofer), so that the newest state can be mined first.  A \<^emph>\<open>covenant factory\<close> fixes the
  tree with OP_CHECKTEMPLATEVERIFY instead of signatures.  Over the leaf outputs run \<^emph>\<open>channels\<close> with
  commitment transactions, HTLCs, revocation and penalties.  All of these write transactions with one
  builder and one library of taproot scripts.

  \<^bold>\<open>Theories and sources\<close> (paths below \<^verbatim>\<open>src/\<close>; records have the fields of the C structs, operations
  the names of the C functions).
    \<^item> \<open>SS_Prelude\<close>: words, byte strings, shared lemmas, and the locale \<open>budget_invariant\<close> of invariants along
      histories of calls with a bounded budget.
    \<^item> \<open>Util\<close> (\<^verbatim>\<open>src/util.c\<close>) and \<open>Tx_Builder\<close> (\<^verbatim>\<open>src/tx_builder.c\<close>): the buffer with its failing allocator,
      the serialisers, each an instance of the locale \<open>codec\<close>, the builders, signature hashes, finalisers.
    \<^item> \<open>Tapscript\<close>, \<open>Script\<close> (\<^verbatim>\<open>src/tapscript.c\<close>): leaves, script trees, control blocks, the template hash;
      \<open>Script\<close> runs the leaf scripts under the consensus rules for their opcodes.
    \<^item> \<open>DW_State\<close> (\<^verbatim>\<open>src/dw_state.c\<close>): layers and the odometer of layers, both instances of the locale
      \<open>bounded_counter\<close>.
    \<^item> \<open>CTV_Factory\<close>, \<open>CTV_Hier\<close> (\<^verbatim>\<open>src/ctv_factory.c\<close>): the flat and the hierarchical covenant factory.
    \<^item> \<open>Factory\<close>, \<open>Factory_Tree\<close>, \<open>Factory_Ops\<close> (\<^verbatim>\<open>src/factory.c\<close>): the shape of the tree and the setters; the
      recursive construction (\<^verbatim>\<open>build_subtree\<close>, \<^verbatim>\<open>factory_build_tree\<close>); advances, resets and look-ups.  The proofs
      about them are in \<open>Factory_Struct\<close>, \<open>Factory_Txs\<close>, \<open>Factory_Leaves\<close>, \<open>Factory_Stock\<close> and \<open>Factory_Safety\<close>.
    \<^item> \<open>Channel_Keys\<close>, \<open>Channel\<close>, \<open>Channel_Ops\<close>, \<open>Growth\<close>, \<open>Funding\<close> (\<^verbatim>\<open>src/channel.c\<close>, with handlers of
      \<^verbatim>\<open>src/htlc_commit.c\<close> and \<^verbatim>\<open>src/lsp_channels.c\<close>): key derivation, balances, HTLCs, the stores of secrets and
      points, the growth of the stores, and the search for the funding key.
    \<^item> \<open>Commitment\<close>, \<open>Penalty\<close>, \<open>Resolution\<close> (\<^verbatim>\<open>src/channel.c\<close>): commitment, penalty and claim transactions.
    \<^item> \<open>Shachain\<close> (\<^verbatim>\<open>src/shachain.c\<close>), \<open>Fees\<close> (\<^verbatim>\<open>src/fee.c\<close>), \<open>Mpp\<close> (\<^verbatim>\<open>src/mpp.c\<close>), \<open>Inbound\<close>
      (\<^verbatim>\<open>src/htlc_inbound.c\<close>), \<open>Bech32m\<close> (\<^verbatim>\<open>src/bech32m.c\<close>), \<open>Rate_Limit\<close> (\<^verbatim>\<open>src/rate_limit.c\<close>).

  \<^bold>\<open>How C is rendered.\<close>  Amounts, locks and counters keep their widths as words, so wrap-around is part of
  the model; sizes and indices are natural numbers.  An array with a counter is a list.  A function that
  returns 0 gives \<open>None\<close>, or a flag beside the state where it leaves the state changed.  The allocator is
  the argument \<open>alloc\<close>, saying which sizes it grants, for transaction buffers, channel stores, factory nodes and the key-path signature
  hashes.  The scratch memory of the tagged hash, the leaf hash and the script-path signature hash is taken to be granted; the text at each
  definition says what the code does without it.  The array of pointers of a key aggregation belongs to the parameter for the library call.
  Writes outside an array, which the code makes for an arity above 16 or the commitment number $2^{64} - 1$, are not rendered
  either.  Clock and random device are arguments.  SHA-256
  (OpenSSL) and libsecp256k1 come as the records \<open>secp\<close>, \<open>ec_ops\<close> and \<open>sign_ops\<close>; a theorem that relies on their
  documented behaviour (lengths of serialisations, agreement of tweaked keys, validity of signatures) says
  so in a hypothesis, and its witness instantiates the record.

  \<^bold>\<open>What is shown.\<close>
    \<^item> \<^emph>\<open>Transactions.\<close>  The builders write the consensus serialisation or report failure, and the signature
      hashes are those of BIPs 341 and 342, the one-input ones for fewer than 253 outputs only.  The script root
      authenticates each leaf by the branch hashes of BIP-341, and the HTLC leaves accept exactly the witnesses of their contract.
    \<^item> \<^emph>\<open>Covenant factories.\<close>  The distribution transaction spends the funding output without a signature;
      every user's resolved outpoint is created by committed transactions; amounts are conserved.
    \<^item> \<^emph>\<open>Signed factories.\<close>  Each transaction of a built tree spends an output of its parent that carries its
      amount and pays its key; each pays out its input less the fee, except where a leaf's fee exceeds its
      input, which does happen at the minimum funding the builder accepts; clients are looked up at the
      output that pays them; and with more than one leaf every advance of a leaf shortens the lock of that leaf or of the root, until
      both are zero, whereas the advance of a single, used-up leaf returns it to its longest lock.
      The last two are for factories with one or two clients a leaf and, for the advances, without static levels; the look-up is for
      sequential placement.
    \<^item> \<^emph>\<open>Channels.\<close>  Over all histories of calls money is conserved and HTLC ids are unique; HTLCs settle with
      their preimage or are refunded; the two parties build the same commitment, whose outputs are the money in the channel (and PTLCs on top);
      penalties and HTLC claims, when built, are valid spends, and are built when memory, amount and the library allow.  Also shown are the defects found: PTLC claims that never validate, preimages
      that are not kept, a revocation handler that does not verify, a time-out pass that skips entries.
    \<^item> \<^emph>\<open>Tables and codecs.\<close>  The multi-part payment table refines a bounded map of running sums; the inbound table's limits;
      bech32m round trip; shachain derivation; the rate limiter's window, for limits up to 64; exactness of fees.

  \<^bold>\<open>Bounds and fuel.\<close>  The epoch theorem of the odometer bounds the number of states by \<^verbatim>\<open>uint32_t\<close>.
  \<open>timeout_loop\<close> takes the number of HTLCs as fuel, which bounds the index it counts up.  \<open>simulate_loop\<close> takes 3 n + 2 for n clients, and lemma
  \<open>simulate_tree_returns\<close> shows that this is enough; \<open>build_subtree\<close> takes the number of clients, and
  \<open>build_subtree_fuel\<close> shows that more fuel gives the same result, since each call has fewer clients.  The
  capacity loop of the secret stores is a \<open>while_option\<close> on 64-bit words, and \<open>Growth\<close> says when it ends.  The
  theorems on factory trees ask for a configured number of outputs a node below 2^32, the width of an output index.

  \<^bold>\<open>Not modelled.\<close>  Signing rounds (MuSig2 nonces and partial signatures), cooperative closes, and the
  distribution and poison transactions of the signed factory; the comparison functions of its client
  placement, whose order is an argument; persistence, networking, onion routing, gossip, wallets, chain
  back ends, and the daemons that drive the components.
  Messages and other encodings (\<^verbatim>\<open>wire.c\<close>, BOLT 11 and 12), routing and invoices are not covered either.
\<close>

end
